(* ===== verification/Prelude.thy ===== *)
theory Prelude
  imports Main "HOL-Library.Word"
begin

text \<open>
  What every component of the gateway model shares: the ways a C function can end other than
  by returning (\<open>fault\<close>), the sequencing of computations that may fault (\<open>bindR\<close>), and pointers.

  A C function that may stop the process, or run into undefined behaviour, is a HOL function
  into \<open>'a res\<close>: \<open>Inr\<close> is a normal return and \<open>Inl\<close> names what happened instead.
\<close>

section \<open>Collections of facts\<close>

named_theorems mem_simps \<open>reading and writing the memory\<close>
named_theorems seg_simps \<open>linked segments in the memory\<close>
named_theorems rep_simps \<open>unfolding of the representation predicates\<close>

section \<open>Faults and their propagation\<close>

text \<open>
  \<^item> \<open>Null_Deref\<close>, \<open>Bad_Pointer\<close>, \<open>Bad_Free\<close>, \<open>Uninit_Read\<close>, \<open>Int_Overflow\<close>: undefined behaviour of C;
  \<^item> \<open>Assert_Failed\<close>: \<open>assert\<close> fails and aborts the process;
  \<^item> \<open>Exit_Failure\<close>: \<open>exit(EXIT_FAILURE)\<close>; \<open>Aborted\<close>: \<open>abort()\<close>;
  \<^item> \<open>Diverges\<close>: a loop that never ends.
\<close>

datatype fault =
    Null_Deref | Bad_Pointer | Bad_Free | Uninit_Read
  | Int_Overflow | Assert_Failed | Exit_Failure | Aborted | Diverges

type_synonym 'a res = "fault + 'a"

fun bindR :: "'a res \<Rightarrow> ('a \<Rightarrow> 'b res) \<Rightarrow> 'b res" where
  "bindR (Inl f) k = Inl f"
| "bindR (Inr x) k = k x"

definition assertR :: "bool \<Rightarrow> unit res" where
  "assertR b = (if b then Inr () else Inl Assert_Failed)"

lemma bindR_Inr_iff: "bindR m k = Inr y \<longleftrightarrow> (\<exists>x. m = Inr x \<and> k x = Inr y)"
  by (cases m) auto

lemma bindR_assoc: "bindR (bindR m k) g = bindR m (\<lambda>x. bindR (k x) g)"
  by (cases m) auto

lemma bindR_return [simp]: "bindR m Inr = m"
  by (cases m) auto

lemma bindR_cong [fundef_cong]:
  "m = m' \<Longrightarrow> (\<And>x. m' = Inr x \<Longrightarrow> k x = k' x) \<Longrightarrow> bindR m k = bindR m' k'"
  by (cases m') auto

lemma assertR_simps [simp]: "assertR True = Inr ()" "assertR False = Inl Assert_Failed"
  by (simp_all add: assertR_def)

section \<open>Simulation of one computation by another\<close>

text \<open>
  \<open>sim R A C\<close>: the concrete computation \<open>C\<close> does what the abstract one does. It fails with the same fault,
  or both return, with results related by \<open>R\<close>.
\<close>

definition sim :: "('x \<Rightarrow> 's \<Rightarrow> bool) \<Rightarrow> 'x res \<Rightarrow> 's res \<Rightarrow> bool" where
  "sim R A C = (case A of Inl f \<Rightarrow> C = Inl f | Inr x \<Rightarrow> \<exists>s. C = Inr s \<and> R x s)"

lemma sim_Inl [simp]: "sim R (Inl f) C \<longleftrightarrow> C = Inl f"
  by (simp add: sim_def)

lemma sim_Inr [simp]: "sim R (Inr x) C \<longleftrightarrow> (\<exists>s. C = Inr s \<and> R x s)"
  by (simp add: sim_def)

lemma sim_bind:
  assumes "sim R A C" "\<And>x s. R x s \<Longrightarrow> A = Inr x \<Longrightarrow> C = Inr s \<Longrightarrow> sim S (f x) (g s)"
  shows "sim S (bindR A f) (bindR C g)"
  using assms by (cases A) auto

text \<open>The same computation on both sides.\<close>

lemma sim_same: "(\<And>x. m = Inr x \<Longrightarrow> sim S (f x) (g x)) \<Longrightarrow> sim S (bindR m f) (bindR m g)"
  by (cases m) auto

lemma sim_mono: "sim R A C \<Longrightarrow> (\<And>x s. R x s \<Longrightarrow> S x s) \<Longrightarrow> sim S A C"
  by (cases A) auto

section \<open>Pointers and chains of nodes\<close>

text \<open>A pointer is an address or \<open>NULL\<close>.\<close>

type_synonym addr = nat
type_synonym ptr = "addr option"

abbreviation NULL :: ptr where "NULL \<equiv> None"

text \<open>
  A chain is the list of a linked structure's nodes, each with its address. \<open>first_ptr ns q\<close> points
  to its first node and \<open>last_ptr p ns\<close> to its last one; \<open>q\<close> and \<open>p\<close> stand for them when there is none.
\<close>

fun first_ptr :: "(addr \<times> 'x) list \<Rightarrow> ptr \<Rightarrow> ptr" where
  "first_ptr [] q = q"
| "first_ptr (n # ns) q = Some (fst n)"

fun last_ptr :: "ptr \<Rightarrow> (addr \<times> 'x) list \<Rightarrow> ptr" where
  "last_ptr p [] = p"
| "last_ptr p (n # ns) = last_ptr (Some (fst n)) ns"

abbreviation addrs :: "(addr \<times> 'x) list \<Rightarrow> addr list" where
  "addrs ns \<equiv> map fst ns"

lemma first_ptr_append [simp]: "first_ptr (xs @ ys) q = first_ptr xs (first_ptr ys q)"
  by (cases xs) auto

lemma last_ptr_append [simp]: "last_ptr p (xs @ ys) = last_ptr (last_ptr p xs) ys"
  by (induction xs arbitrary: p) auto

lemma last_ptr_nonempty: "ns \<noteq> [] \<Longrightarrow> last_ptr p ns = Some (fst (last ns))"
  by (induction ns arbitrary: p) auto

lemma last_ptr_notin: "a \<notin> set (addrs ns) \<Longrightarrow> p \<noteq> Some a \<Longrightarrow> last_ptr p ns \<noteq> Some a"
  by (induction ns arbitrary: p) auto

lemma first_ptr_nonempty: "ns \<noteq> [] \<Longrightarrow> first_ptr ns q = Some (fst (hd ns))"
  by (cases ns) auto

lemma first_ptr_eq_NULL [simp]: "first_ptr ns q = None \<longleftrightarrow> ns = [] \<and> q = None"
  by (cases ns) auto

lemma last_ptr_eq_NULL [simp]: "last_ptr None ns = None \<longleftrightarrow> ns = []"
  by (cases "ns = []") (auto simp: last_ptr_nonempty)

text \<open>Splitting a list at a position.\<close>

lemma split_at: "k < length xs \<Longrightarrow> xs = take k xs @ xs ! k # drop (Suc k) xs"
  by (rule id_take_nth_drop)

end
