(* ===== verification/Double.thy ===== *)
theory Double
  imports Prelude
begin

text \<open>
  The C type \<open>double\<close> (\<open>sensor_value_t\<close>, \<open>config.h\<close>) as IEEE 754 binary64 with rounding to
  nearest, ties to even. Every finite value is an integer multiple of \<open>2^-1074\<close>, the least positive
  subnormal; \<open>Finite n\<close> stands for \<open>n * 2^-1074\<close>. Zero has one representation: its sign is not kept,
  which no comparison or sum of the gateway can see.
\<close>

section \<open>Values\<close>

datatype double = Finite int | PosInf | NegInf | NaN

definition one_units :: int where "one_units = 2 ^ 1074"
definition overflow_units :: int where "overflow_units = 2 ^ 2098"

text \<open>The number of binary digits of a positive integer (0 for the others).\<close>

function bitlength :: "int \<Rightarrow> nat" where
  "bitlength n = (if n \<le> 0 then 0 else Suc (bitlength (n div 2)))"
  by pat_completeness auto
termination
  by (relation "measure nat") auto

declare bitlength.simps [simp del]

text \<open>The integer nearest to \<open>a / b\<close> for positive \<open>b\<close>, the even one in case of a tie.\<close>

definition rne :: "int \<Rightarrow> int \<Rightarrow> int" where
  "rne a b = (let d = a div b; r = a mod b
     in if 2 * r < b then d else if 2 * r > b then d + 1 else if even d then d else d + 1)"

text \<open>How many low bits of a number of this size fall off a 53 bit significand.\<close>

definition excess :: "int \<Rightarrow> nat" where
  "excess n = bitlength n - 53"

text \<open>The double nearest to \<open>p / q\<close> units, for positive \<open>q\<close>; it overflows at \<open>2^1024\<close>.\<close>

definition round_frac :: "int \<Rightarrow> int \<Rightarrow> double" where
  "round_frac p q =
     (let s = excess (\<bar>p\<bar> div q); m = rne p (q * 2 ^ s) * 2 ^ s
      in if \<bar>m\<bar> < overflow_units then Finite m else if 0 < p then PosInf else NegInf)"

section \<open>The operations the gateway uses\<close>

fun d_add :: "double \<Rightarrow> double \<Rightarrow> double" where
  "d_add (Finite a) (Finite b) = round_frac (a + b) 1"
| "d_add NaN y = NaN"
| "d_add x NaN = NaN"
| "d_add PosInf NegInf = NaN"
| "d_add NegInf PosInf = NaN"
| "d_add PosInf y = PosInf"
| "d_add NegInf y = NegInf"
| "d_add x PosInf = PosInf"
| "d_add x NegInf = NegInf"

text \<open>Division by a positive integer (the divisor is converted exactly).\<close>

fun d_div_int :: "double \<Rightarrow> int \<Rightarrow> double" where
  "d_div_int (Finite a) n = round_frac a n"
| "d_div_int x n = x"

fun d_less :: "double \<Rightarrow> double \<Rightarrow> bool" where
  "d_less NaN y = False"
| "d_less x NaN = False"
| "d_less (Finite a) (Finite b) = (a < b)"
| "d_less NegInf y = (y \<noteq> NegInf)"
| "d_less x PosInf = (x \<noteq> PosInf)"
| "d_less x y = False"

definition d_of_int :: "int \<Rightarrow> double" where
  "d_of_int n = round_frac (n * one_units) 1"

text \<open>
  The value of a bit pattern: sign, 11 exponent bits, 52 fraction bits.
\<close>

definition double_of_bits :: "64 word \<Rightarrow> double" where
  "double_of_bits w =
     (let n = uint w; sgn = (if n div 2 ^ 63 = 1 then -1 else 1);
          e = nat (n div 2 ^ 52 mod 2 ^ 11); f = n mod 2 ^ 52
      in if e = 2047 then (if f \<noteq> 0 then NaN else if sgn = 1 then PosInf else NegInf)
         else if e = 0 then Finite (sgn * f)
         else Finite (sgn * (2 ^ 52 + f) * 2 ^ (e - 1)))"

section \<open>Rounding\<close>

lemma bitlength_le_iff: "bitlength n \<le> k \<longleftrightarrow> n < 2 ^ k"
proof (induction n arbitrary: k rule: bitlength.induct)
  case (1 n)
  show ?case
  proof (cases "n \<le> 0")
    case True
    then have "n < 2 ^ k" by (smt (verit) zero_less_power)
    with True show ?thesis by (simp add: bitlength.simps)
  next
    case False
    show ?thesis
    proof (cases k)
      case 0
      with False show ?thesis by (simp add: bitlength.simps[of n])
    next
      case (Suc j)
      have "bitlength n \<le> k \<longleftrightarrow> bitlength (n div 2) \<le> j"
        using False Suc by (simp add: bitlength.simps[of n])
      also have "\<dots> \<longleftrightarrow> n div 2 < 2 ^ j" using 1 False by blast
      also have "\<dots> \<longleftrightarrow> n < 2 ^ k" using Suc by auto
      finally show ?thesis .
    qed
  qed
qed

lemma bitlength_mono: "m \<le> n \<Longrightarrow> bitlength m \<le> bitlength n"
  using bitlength_le_iff[of n "bitlength n"] by (simp add: bitlength_le_iff)

lemma excess_mono: "m \<le> n \<Longrightarrow> excess m \<le> excess n"
  using bitlength_mono[of m n] by (simp add: excess_def)

lemma rne_upper: "0 < b \<Longrightarrow> a \<le> m * b \<Longrightarrow> rne a b \<le> m"
proof -
  assume b: "0 < b" and le: "a \<le> m * b"
  have "a div b \<le> m * b div b" using le b by (rule zdiv_mono1)
  then have d: "a div b \<le> m" using b by simp
  show "rne a b \<le> m"
  proof (cases "a div b = m")
    case True
    then have "a mod b = 0"
      using le b by (smt (verit) div_mult_mod_eq pos_mod_sign)
    then show ?thesis using True b by (simp add: rne_def)
  next
    case False
    then show ?thesis using d by (auto simp: rne_def Let_def)
  qed
qed

lemma rne_minus: "0 < b \<Longrightarrow> rne (- a) b = - rne a b"
proof -
  assume b: "0 < b"
  have mod: "0 \<le> a mod b" "a mod b < b" using b by simp_all
  show ?thesis
  proof (cases "a mod b = 0")
    case True
    then show ?thesis using b
      by (simp add: rne_def Let_def zdiv_zminus1_eq_if zmod_zminus1_eq_if)
  next
    case False
    have dv: "(- a) div b = - (a div b) - 1" and md: "(- a) mod b = b - a mod b"
      using False b by (simp_all add: zdiv_zminus1_eq_if zmod_zminus1_eq_if)
    show ?thesis using mod False unfolding rne_def Let_def dv md by auto
  qed
qed

lemma rne_lower: "0 < b \<Longrightarrow> m * b \<le> a \<Longrightarrow> m \<le> rne a b"
  using rne_upper[of b "- a" "- m"] by (simp add: rne_minus)

text \<open>A number of units is representable when its significand needs no more than 53 bits.\<close>

definition representable :: "int \<Rightarrow> bool" where
  "representable n \<longleftrightarrow> 2 ^ excess \<bar>n\<bar> dvd n \<and> \<bar>n\<bar> < overflow_units"

abbreviation rounded :: "int \<Rightarrow> int \<Rightarrow> int" where
  "rounded p q \<equiv> rne p (q * 2 ^ excess (\<bar>p\<bar> div q)) * 2 ^ excess (\<bar>p\<bar> div q)"

lemma rounded_minus: "0 < q \<Longrightarrow> rounded (- p) q = - rounded p q"
  by (simp add: rne_minus)

lemma excess_jump:
  assumes "excess m < excess n"
  shows "2 ^ (52 + excess n) \<le> n" and "m < 2 ^ (52 + excess n)"
proof -
  have "\<not> bitlength n \<le> 52 + excess n" and "bitlength m \<le> 52 + excess n"
    using assms by (auto simp: excess_def)
  then show "2 ^ (52 + excess n) \<le> n" and "m < 2 ^ (52 + excess n)"
    by (simp_all add: bitlength_le_iff)
qed

text \<open>Rounding does not pass a representable number.\<close>

lemma rounded_le_nonneg:
  assumes "0 < q" "0 \<le> p" "p \<le> H * q" "representable H"
  shows "rounded p q \<le> H"
proof -
  define s where "s = excess (\<bar>p\<bar> div q)"
  have "0 \<le> H * q" using assms(2,3) by linarith
  then have H: "0 \<le> H" using assms(1) by (auto simp: zero_le_mult_iff)
  have "p div q \<le> H * q div q" using assms(1,3) by (intro zdiv_mono1) auto
  then have "p div q \<le> H" using assms(1) by simp
  then have "s \<le> excess \<bar>H\<bar>"
    using assms(2) H by (auto simp: s_def intro!: excess_mono)
  then have "2 ^ s dvd H"
    using assms(4) by (metis representable_def dvd_trans le_imp_power_dvd)
  then obtain h where h: "H = 2 ^ s * h" by auto
  have "rne p (q * 2 ^ s) \<le> h"
    using assms(1,3) h by (intro rne_upper) (auto simp: algebra_simps)
  then show ?thesis using h by (simp add: s_def[symmetric] mult.commute)
qed

lemma rounded_ge_nonneg:
  assumes "0 < q" "0 \<le> H" "H * q \<le> p" "representable H"
  shows "H \<le> rounded p q"
proof -
  define s where "s = excess (\<bar>p\<bar> div q)"
  have "0 \<le> H * q" using assms(1,2) by simp
  then have p: "0 \<le> p" using assms(3) by linarith
  have "H * q div q \<le> p div q" using assms(1,3) by (intro zdiv_mono1) auto
  then have Hx: "H \<le> p div q" using assms(1) by simp
  then have sH: "excess \<bar>H\<bar> \<le> s"
    using p assms(2) by (auto simp: s_def intro!: excess_mono)
  show ?thesis
  proof (cases "excess \<bar>H\<bar> = s")
    case True
    then have "2 ^ s dvd H" using assms(4) by (auto simp: representable_def)
    then obtain h where h: "H = 2 ^ s * h" by auto
    have "h \<le> rne p (q * 2 ^ s)"
      using assms(1,3) h by (intro rne_lower) (auto simp: algebra_simps)
    then show ?thesis using h by (simp add: s_def[symmetric] mult.commute)
  next
    case False
    with sH have lt: "excess \<bar>H\<bar> < excess (\<bar>p\<bar> div q)" by (simp add: s_def)
    have big: "2 ^ (52 + s) \<le> p div q"
      using excess_jump(1)[OF lt] p by (simp add: s_def)
    have small: "H < 2 ^ (52 + s)"
      using excess_jump(2)[OF lt] assms(2) p by (simp add: s_def)
    have "2 ^ 52 * (q * 2 ^ s) \<le> (p div q) * q"
      using big assms(1) by (simp add: power_add algebra_simps)
    also have "\<dots> \<le> p" using assms(1) by (simp add: minus_mod_eq_div_mult[symmetric])
    finally have "2 ^ 52 \<le> rne p (q * 2 ^ s)" using assms(1) by (intro rne_lower) auto
    then have "2 ^ 52 * 2 ^ s \<le> rne p (q * 2 ^ s) * 2 ^ s"
      by (rule mult_right_mono) simp
    moreover have "H < 2 ^ 52 * 2 ^ s" using small by (simp only: power_add)
    ultimately show ?thesis unfolding s_def[symmetric] by linarith
  qed
qed

lemma representable_minus [simp]: "representable (- n) = representable n"
  by (simp add: representable_def)

lemma rounded_upper:
  assumes "0 < q" "p \<le> H * q" "representable H"
  shows "rounded p q \<le> H"
proof (cases "0 \<le> p")
  case True
  then show ?thesis using rounded_le_nonneg[OF assms(1) _ assms(2,3)] by blast
next
  case False
  show ?thesis
  proof (cases "0 \<le> H")
    case True
    have "rne p (q * 2 ^ excess (\<bar>p\<bar> div q)) \<le> 0"
      using False assms(1) by (intro rne_upper) auto
    with True show ?thesis
      by (meson mult_nonpos_nonneg order_trans zero_le_numeral zero_le_power)
  next
    case H: False
    have "- H \<le> rounded (- p) q"
      using H assms by (intro rounded_ge_nonneg) auto
    then show ?thesis using rounded_minus[OF assms(1), of p] by simp
  qed
qed

lemma rounded_lower:
  assumes "0 < q" "L * q \<le> p" "representable L"
  shows "L \<le> rounded p q"
  using rounded_upper[OF assms(1), of "- p" "- L"] assms rounded_minus[OF assms(1), of p] by simp

lemma round_frac_between:
  assumes "0 < q" "L * q \<le> p" "p \<le> H * q" "representable L" "representable H"
  obtains m where "round_frac p q = Finite m" "L \<le> m" "m \<le> H"
proof -
  have "L \<le> rounded p q" "rounded p q \<le> H"
    using assms by (blast intro: rounded_lower rounded_upper)+
  moreover have "\<bar>L\<bar> < overflow_units" "\<bar>H\<bar> < overflow_units"
    using assms(4,5) by (simp_all add: representable_def)
  then have "\<bar>rounded p q\<bar> < overflow_units" using calculation by linarith
  ultimately show ?thesis
    using that[of "rounded p q"] by (simp add: round_frac_def Let_def)
qed

text \<open>A representable number is its own rounding.\<close>

lemma round_frac_exact: "0 < q \<Longrightarrow> representable n \<Longrightarrow> round_frac (n * q) q = Finite n"
  by (rule round_frac_between[of q n "n * q" n]) auto

section \<open>Small integers\<close>

lemma bitlength_shift: "0 < n \<Longrightarrow> bitlength (n * 2 ^ k) = bitlength n + k"
proof (induction k)
  case (Suc k)
  have "bitlength (n * 2 ^ Suc k) = Suc (bitlength (n * 2 ^ Suc k div 2))"
    using Suc.prems by (subst bitlength.simps) (simp add: not_le)
  then show ?case using Suc by (simp add: algebra_simps)
qed simp

lemma excess_shift:
  assumes "\<bar>n\<bar> < 2 ^ 53"
  shows "excess \<bar>n * 2 ^ k\<bar> \<le> k"
proof (cases "n = 0")
  case True
  then show ?thesis by (simp add: excess_def bitlength.simps)
next
  case False
  have "bitlength \<bar>n\<bar> \<le> 53" using assms by (simp only: bitlength_le_iff)
  moreover have "\<bar>n * 2 ^ k\<bar> = \<bar>n\<bar> * 2 ^ k" by (simp add: abs_mult)
  ultimately show ?thesis using False by (simp add: excess_def bitlength_shift)
qed

lemma representable_units:
  assumes "\<bar>n\<bar> < 2 ^ 53"
  shows "representable (n * one_units)"
proof -
  have "\<bar>n * one_units\<bar> = \<bar>n\<bar> * 2 ^ 1074"
    unfolding one_units_def abs_mult by (simp only: abs_power2 power_abs abs_numeral)
  also have "\<dots> < 2 ^ 53 * 2 ^ 1074"
    using assms by (intro mult_strict_right_mono) (simp_all only: zero_less_power zero_less_numeral)
  also have "(2::int) ^ 53 * 2 ^ 1074 \<le> 2 ^ 2098"
    unfolding power_add[symmetric] by (rule power_increasing) simp_all
  finally have range: "\<bar>n * one_units\<bar> < overflow_units" by (simp only: overflow_units_def)
  have "(2::int) ^ excess \<bar>n * one_units\<bar> dvd 2 ^ 1074"
    unfolding one_units_def by (rule le_imp_power_dvd[OF excess_shift[OF assms]])
  then have "2 ^ excess \<bar>n * one_units\<bar> dvd n * one_units"
    unfolding one_units_def by (rule dvd_mult)
  with range show ?thesis by (simp only: representable_def)
qed

lemma d_of_int_exact: "\<bar>n\<bar> < 2 ^ 53 \<Longrightarrow> d_of_int n = Finite (n * one_units)"
  using round_frac_exact[OF _ representable_units, of 1 n] by (simp add: d_of_int_def)

lemma d_add_of_int:
  assumes "\<bar>a\<bar> < 2 ^ 52" "\<bar>b\<bar> < 2 ^ 52"
  shows "d_add (d_of_int a) (d_of_int b) = d_of_int (a + b)"
proof -
  have "\<bar>a\<bar> < 2 ^ 53" "\<bar>b\<bar> < 2 ^ 53" "\<bar>a + b\<bar> < 2 ^ 53" using assms by auto
  then show ?thesis
    using round_frac_exact[OF _ representable_units, of 1 "a + b"]
    by (simp add: d_of_int_exact distrib_right)
qed

lemma d_div_of_int:
  assumes "0 < n" "\<bar>a\<bar> < 2 ^ 53" "\<bar>a * n\<bar> < 2 ^ 53"
  shows "d_div_int (d_of_int (a * n)) n = d_of_int a"
  using round_frac_exact[OF assms(1) representable_units[OF assms(2)]] assms(2,3)
  by (simp add: d_of_int_exact mult.commute mult.left_commute)

lemma d_less_of_int:
  "\<bar>a\<bar> < 2 ^ 53 \<Longrightarrow> \<bar>b\<bar> < 2 ^ 53 \<Longrightarrow> d_less (d_of_int a) (d_of_int b) \<longleftrightarrow> a < b"
  by (simp add: d_of_int_exact one_units_def del: power_eq_if)

lemma d_less_irrefl: "\<not> d_less x x"
  by (cases x) auto

lemma d_less_asym: "d_less x y \<Longrightarrow> \<not> d_less y x"
  by (cases x; cases y) auto

lemma d_less_trans: "d_less x y \<Longrightarrow> d_less y z \<Longrightarrow> d_less x z"
  by (cases x; cases y; cases z) auto

end
