(* ===== verification/Config.thy ===== *)
theory Config
  imports Double
begin

text \<open>
  The types of \<open>config.h\<close> that every component uses: sensor identifiers (\<open>uint16_t\<close>), values
  (\<open>double\<close>), timestamps (a signed 64 bit \<open>time_t\<close>) and the measurement packet.
\<close>

text \<open>The range of a C \<open>int\<close>.\<close>

definition INT_MAX :: int where "INT_MAX = 2 ^ 31 - 1"
definition INT_MIN :: int where "INT_MIN = - INT_MAX - 1"

type_synonym sensor_id_t = "16 word"
type_synonym sensor_value_t = double
type_synonym sensor_ts_t = "64 word"

record sensor_data_t =
  id :: sensor_id_t
  val :: sensor_value_t
  ts :: sensor_ts_t

text \<open>The buffer for one measurement as the readers of the shared buffer preset it.\<close>

definition no_data :: sensor_data_t where
  "no_data = \<lparr>id = 0, val = Finite 0, ts = 0\<rparr>"

lemma id_no_data [simp]: "id no_data = 0"
  by (simp add: no_data_def)

end
