(* ===== verification/Memory.thy ===== *)
theory Memory
  imports Prelude
begin

text \<open>
  The memory for the objects of one C type: a partial map from addresses to contents, with the
  allocator's list of free addresses. \<open>malloc\<close> hands out the head of that list and fails (the C
  \<open>NULL\<close>) when it is empty; \<open>free\<close> puts the address back, so an address can be handed out again.
  Reading, writing or freeing an address that is not allocated is a fault.
\<close>

section \<open>A store\<close>

record 'c store =
  cells :: "addr \<rightharpoonup> 'c"
  avail :: "addr list"
  msize :: nat

definition malloc :: "'c \<Rightarrow> 'c store \<Rightarrow> (addr \<times> 'c store) option" where
  "malloc v s = (case avail s of
      [] \<Rightarrow> None
    | a # as \<Rightarrow> Some (a, s\<lparr>cells := (cells s)(a \<mapsto> v), avail := as\<rparr>))"

definition load :: "'c store \<Rightarrow> ptr \<Rightarrow> 'c res" where
  "load s p = (case p of
      None \<Rightarrow> Inl Null_Deref
    | Some a \<Rightarrow> (case cells s a of None \<Rightarrow> Inl Bad_Pointer | Some v \<Rightarrow> Inr v))"

definition assign :: "('c \<Rightarrow> 'c) \<Rightarrow> 'c store \<Rightarrow> ptr \<Rightarrow> 'c store res" where
  "assign f s p = bindR (load s p) (\<lambda>v. Inr (s\<lparr>cells := (cells s)(the p \<mapsto> f v)\<rparr>))"

definition free :: "'c store \<Rightarrow> ptr \<Rightarrow> 'c store res" where
  "free s p = (case p of
      None \<Rightarrow> Inr s
    | Some a \<Rightarrow> (case cells s a of
          None \<Rightarrow> Inl Bad_Free
        | Some v \<Rightarrow> Inr (s\<lparr>cells := (cells s)(a := None), avail := a # avail s\<rparr>)))"

text \<open>A store with \<open>n\<close> free addresses and nothing allocated.\<close>

definition empty_store :: "nat \<Rightarrow> 'c store" where
  "empty_store n = \<lparr>cells = Map.empty, avail = [0..<n], msize = n\<rparr>"

text \<open>
  \<open>fuel s\<close> bounds a walk along pointers: a walk that visits more nodes than there are addresses
  has met one of them twice, and as the walk writes nothing it never ends.
\<close>

definition fuel :: "'c store \<Rightarrow> nat" where
  "fuel s = Suc (msize s)"

definition wf_store :: "'c store \<Rightarrow> bool" where
  "wf_store s \<longleftrightarrow> distinct (avail s) \<and> set (avail s) \<inter> dom (cells s) = {}
     \<and> set (avail s) \<union> dom (cells s) = {..<msize s}"

section \<open>Reading after writing\<close>

lemma load_Some [mem_simps]:
  "load s (Some a) = (case cells s a of None \<Rightarrow> Inl Bad_Pointer | Some v \<Rightarrow> Inr v)"
  by (simp add: load_def)

lemma load_None [mem_simps]: "load s None = Inl Null_Deref"
  by (simp add: load_def)

lemma load_Inr_iff: "load s p = Inr v \<longleftrightarrow> (\<exists>a. p = Some a \<and> cells s a = Some v)"
  by (auto simp: load_def split: option.splits)

lemma assign_Some [mem_simps]:
  "cells s a = Some v \<Longrightarrow> assign f s (Some a) = Inr (s\<lparr>cells := (cells s)(a \<mapsto> f v)\<rparr>)"
  by (simp add: assign_def load_def)

lemma assign_None [mem_simps]: "assign f s None = Inl Null_Deref"
  by (simp add: assign_def load_def)

lemma free_Some [mem_simps]:
  "cells s a = Some v
   \<Longrightarrow> free s (Some a) = Inr (s\<lparr>cells := (cells s)(a := None), avail := a # avail s\<rparr>)"
  by (simp add: free_def)

lemma free_None [mem_simps]: "free s None = Inr s"
  by (simp add: free_def)

section \<open>Well-formed stores\<close>

lemma wf_empty_store [simp]: "wf_store (empty_store n)"
  by (auto simp: wf_store_def empty_store_def)

lemma empty_store_sel [simp]:
  "cells (empty_store n) = Map.empty" "avail (empty_store n) = [0..<n]" "msize (empty_store n) = n"
  by (simp_all add: empty_store_def)

lemma fuel_empty_store [simp]: "fuel (empty_store n) = Suc n"
  by (simp add: fuel_def empty_store_def)

lemma wf_malloc:
  "wf_store s \<Longrightarrow> malloc v s = Some (a, s') \<Longrightarrow> wf_store s'"
  by (fastforce simp: wf_store_def malloc_def split: list.splits if_splits)

lemma wf_malloc_fresh:
  "wf_store s \<Longrightarrow> malloc v s = Some (a, s') \<Longrightarrow> a \<notin> dom (cells s)"
  by (auto simp: wf_store_def malloc_def split: list.splits)

lemma wf_update: "wf_store s \<Longrightarrow> cells s a \<noteq> None \<Longrightarrow> wf_store (s\<lparr>cells := (cells s)(a \<mapsto> v)\<rparr>)"
  by (auto simp: wf_store_def)

lemma wf_update2:
  "wf_store s \<Longrightarrow> cells s a \<noteq> None \<Longrightarrow> cells s b \<noteq> None
   \<Longrightarrow> wf_store (s\<lparr>cells := (cells s)(a \<mapsto> v, b \<mapsto> w)\<rparr>)"
  by (auto simp: wf_store_def)

lemma wf_update3:
  "wf_store s \<Longrightarrow> cells s a \<noteq> None \<Longrightarrow> cells s b \<noteq> None \<Longrightarrow> cells s c \<noteq> None
   \<Longrightarrow> wf_store (s\<lparr>cells := (cells s)(a \<mapsto> v, b \<mapsto> w, c \<mapsto> x)\<rparr>)"
  by (auto simp: wf_store_def)

lemmas wf_updates = wf_update wf_update2 wf_update3

lemma wf_release:
  "wf_store s \<Longrightarrow> cells s a \<noteq> None
   \<Longrightarrow> wf_store (s\<lparr>cells := (cells s)(a := None), avail := a # avail s\<rparr>)"
  by (auto simp: wf_store_def)

lemma wf_assign: "wf_store s \<Longrightarrow> assign f s p = Inr s' \<Longrightarrow> wf_store s'"
  by (auto simp: assign_def bindR_Inr_iff load_Inr_iff intro: wf_update)

lemma wf_free: "wf_store s \<Longrightarrow> free s p = Inr s' \<Longrightarrow> wf_store s'"
  by (auto simp: free_def intro: wf_release split: option.splits)

text \<open>A list of different allocated addresses is no longer than the store.\<close>

lemma distinct_le_msize:
  assumes "wf_store s" "distinct as" "set as \<subseteq> dom (cells s)"
  shows "length as \<le> msize s"
proof -
  have "set as \<subseteq> {..<msize s}" using assms(1,3) by (auto simp: wf_store_def)
  then have "card (set as) \<le> card {..<msize s}" by (rule card_mono[rotated]) simp
  then show ?thesis using assms(2) by (simp add: distinct_card)
qed

lemma distinct_lt_fuel:
  "wf_store s \<Longrightarrow> distinct as \<Longrightarrow> set as \<subseteq> dom (cells s) \<Longrightarrow> length as < fuel s"
  using distinct_le_msize by (fastforce simp: fuel_def)

lemma card_live_avail:
  assumes "wf_store s"
  shows "card (dom (cells s)) + length (avail s) = msize s"
proof -
  have fin: "finite (dom (cells s))"
    using assms by (auto simp: wf_store_def intro: finite_subset[of _ "{..<msize s}"])
  have "card (set (avail s) \<union> dom (cells s)) = card (set (avail s)) + card (dom (cells s))"
    using assms fin by (intro card_Un_disjoint) (auto simp: wf_store_def)
  then show ?thesis using assms by (simp add: wf_store_def distinct_card)
qed

end
