(* ===== verification/Sbuffer.thy ===== *)
theory Sbuffer
  imports Config Memory
begin

text \<open>
  The shared buffer (\<open>sbuffer.h\<close>, \<open>sbuffer.c\<close>): a singly linked list of measurements with a head and
  a tail pointer. Two threads read it, the data manager and the storage manager; every node carries
  one flag per reader, and a node is unlinked and freed when both have read it.

  Buffers and nodes live in two stores (\<open>sbmem\<close>). The second half of the theory relates the linked
  nodes to a list of entries and gives every operation its effect on that list.
\<close>

section \<open>Types\<close>

record sbuffer_node_t =
  sn_next :: ptr
  sn_data :: sensor_data_t
  datamgr_read_status :: bool
  storagemgr_read_status :: bool

record sbuffer_t =
  sb_head :: ptr
  sb_tail :: ptr

record sbmem =
  sbufs :: "sbuffer_t store"
  snodes :: "sbuffer_node_t store"

definition SBUFFER_FAILURE :: int where "SBUFFER_FAILURE = -1"
definition SBUFFER_SUCCESS :: int where "SBUFFER_SUCCESS = 0"
definition SBUFFER_NO_DATA :: int where "SBUFFER_NO_DATA = 1"

text \<open>Thread identifiers are compared with \<open>pthread_equal\<close> only.\<close>

type_synonym pthread_t = nat

section \<open>Operations\<close>

text \<open>Contents of freshly allocated memory; every field is written before it is read.\<close>

definition junk_sbuffer :: sbuffer_t where
  "junk_sbuffer = \<lparr>sb_head = NULL, sb_tail = NULL\<rparr>"

definition junk_sbuffer_node :: sbuffer_node_t where
  "junk_sbuffer_node = \<lparr>sn_next = NULL, sn_data = no_data,
     datamgr_read_status = False, storagemgr_read_status = False\<rparr>"

text \<open>\<open>sbuffer_init\<close> returns its code, the new value of \<open>*buffer\<close> and the memory.\<close>

definition sbuffer_init :: "sbmem \<Rightarrow> (int \<times> ptr \<times> sbmem) res" where
  "sbuffer_init M = (case malloc junk_sbuffer (sbufs M) of
      None \<Rightarrow> Inl Exit_Failure
    | Some (b, S) \<Rightarrow>
        bindR (assign (\<lambda>sb. sb\<lparr>sb_head := NULL\<rparr>) S (Some b)) (\<lambda>S.
        bindR (assign (\<lambda>sb. sb\<lparr>sb_tail := NULL\<rparr>) S (Some b)) (\<lambda>S.
        Inr (SBUFFER_SUCCESS, Some b, M\<lparr>sbufs := S\<rparr>))))"

fun sbuffer_free_loop :: "nat \<Rightarrow> sbmem \<Rightarrow> ptr \<Rightarrow> sbmem res" where
  "sbuffer_free_loop 0 M b = Inl Diverges"
| "sbuffer_free_loop (Suc k) M b =
     bindR (load (sbufs M) b) (\<lambda>sb.
     if sb_head sb = NULL then Inr M
     else
       bindR (load (snodes M) (sb_head sb)) (\<lambda>n.
       bindR (assign (\<lambda>sb. sb\<lparr>sb_head := sn_next n\<rparr>) (sbufs M) b) (\<lambda>S.
       bindR (free (snodes M) (sb_head sb)) (\<lambda>N.
       sbuffer_free_loop k (M\<lparr>sbufs := S, snodes := N\<rparr>) b))))"

text \<open>
  The parameter is a pointer to the caller's buffer pointer: \<open>None\<close> is a \<open>NULL\<close> parameter and
  \<open>Some p\<close> is \<open>*buffer = p\<close>. The result holds \<open>*buffer\<close> as the function leaves it.
\<close>

definition sbuffer_free :: "sbmem \<Rightarrow> ptr option \<Rightarrow> (int \<times> ptr option \<times> sbmem) res" where
  "sbuffer_free M buffer = (case buffer of
      None \<Rightarrow> Inr (SBUFFER_FAILURE, None, M)
    | Some None \<Rightarrow> Inr (SBUFFER_FAILURE, Some None, M)
    | Some (Some b) \<Rightarrow>
        bindR (sbuffer_free_loop (fuel (snodes M)) M (Some b)) (\<lambda>M.
        bindR (free (sbufs M) (Some b)) (\<lambda>S.
        Inr (SBUFFER_SUCCESS, Some NULL, M\<lparr>sbufs := S\<rparr>))))"

text \<open>
  The search of a reader for its first unread node. \<open>Inr None\<close> is the early return of
  \<open>SBUFFER_NO_DATA\<close> at the last node; \<open>Inr (Some dummy)\<close> is leaving the loop with \<open>dummy\<close>.
\<close>

fun find_unread ::
  "nat \<Rightarrow> (sbuffer_node_t \<Rightarrow> bool) \<Rightarrow> sbuffer_node_t store \<Rightarrow> ptr \<Rightarrow> ptr option res" where
  "find_unread 0 status N dummy = Inl Diverges"
| "find_unread (Suc k) status N dummy =
     (if dummy = NULL then Inr (Some NULL)
      else bindR (load N dummy) (\<lambda>n.
        if \<not> status n then Inr (Some dummy)
        else if sn_next n = NULL then Inr None
        else find_unread k status N (sn_next n)))"

text \<open>The end of \<open>sbuffer_remove\<close>: a node that both readers have read is unlinked and freed.\<close>

definition sbuffer_unlink_read :: "sbmem \<Rightarrow> ptr \<Rightarrow> ptr \<Rightarrow> sbmem res" where
  "sbuffer_unlink_read M b dummy =
     bindR (load (snodes M) dummy) (\<lambda>n.
     if datamgr_read_status n \<and> storagemgr_read_status n then
       bindR (load (sbufs M) b) (\<lambda>sb.
       bindR (if sb_head sb = sb_tail sb
              then assign (\<lambda>sb. sb\<lparr>sb_head := NULL, sb_tail := NULL\<rparr>) (sbufs M) b
              else bindR (load (snodes M) (sb_head sb)) (\<lambda>h.
                   assign (\<lambda>sb. sb\<lparr>sb_head := sn_next h\<rparr>) (sbufs M) b)) (\<lambda>S.
       bindR (free (snodes M) dummy) (\<lambda>N.
       Inr (M\<lparr>sbufs := S, snodes := N\<rparr>))))
     else Inr M)"

text \<open>
  \<open>sbuffer_remove\<close> called by the thread \<open>self\<close>. The parameter \<open>data\<close> is \<open>*data\<close> before the call;
  the result holds the return code and \<open>*data\<close> after it.
\<close>

definition sbuffer_remove ::
  "pthread_t \<Rightarrow> pthread_t \<Rightarrow> pthread_t \<Rightarrow> sbmem \<Rightarrow> ptr \<Rightarrow> sensor_data_t
   \<Rightarrow> (int \<times> sensor_data_t \<times> sbmem) res" where
  "sbuffer_remove datamgr_td storagemgr_td self M buffer data =
     (if buffer = NULL then Inr (SBUFFER_FAILURE, data, M)
      else bindR (load (sbufs M) buffer) (\<lambda>sb.
        if sb_head sb = NULL then Inr (SBUFFER_NO_DATA, data, M)
        else if datamgr_td = self then
          bindR (find_unread (fuel (snodes M)) datamgr_read_status (snodes M) (sb_head sb)) (\<lambda>r.
          case r of
            None \<Rightarrow> Inr (SBUFFER_NO_DATA, data, M)
          | Some dummy \<Rightarrow>
              bindR (load (snodes M) dummy) (\<lambda>n.
              bindR (assign (\<lambda>n. n\<lparr>datamgr_read_status := True\<rparr>) (snodes M) dummy) (\<lambda>N.
              bindR (sbuffer_unlink_read (M\<lparr>snodes := N\<rparr>) buffer dummy) (\<lambda>M.
              Inr (SBUFFER_SUCCESS, sn_data n, M)))))
        else if storagemgr_td = self then
          bindR (find_unread (fuel (snodes M)) storagemgr_read_status (snodes M) (sb_head sb)) (\<lambda>r.
          case r of
            None \<Rightarrow> Inr (SBUFFER_NO_DATA, data, M)
          | Some dummy \<Rightarrow>
              bindR (load (snodes M) dummy) (\<lambda>n.
              bindR (assign (\<lambda>n. n\<lparr>storagemgr_read_status := True\<rparr>) (snodes M) dummy) (\<lambda>N.
              bindR (sbuffer_unlink_read (M\<lparr>snodes := N\<rparr>) buffer dummy) (\<lambda>M.
              Inr (SBUFFER_SUCCESS, sn_data n, M)))))
        else Inr (SBUFFER_FAILURE, data, M)))"

definition sbuffer_insert :: "sbmem \<Rightarrow> ptr \<Rightarrow> sensor_data_t \<Rightarrow> (int \<times> sbmem) res" where
  "sbuffer_insert M buffer data =
     (if buffer = NULL then Inr (SBUFFER_FAILURE, M)
      else case malloc junk_sbuffer_node (snodes M) of
        None \<Rightarrow> Inr (SBUFFER_FAILURE, M)
      | Some (dummy, N) \<Rightarrow>
          bindR (assign (\<lambda>n. n\<lparr>sn_data := data\<rparr>) N (Some dummy)) (\<lambda>N.
          bindR (assign (\<lambda>n. n\<lparr>sn_next := NULL\<rparr>) N (Some dummy)) (\<lambda>N.
          bindR (assign (\<lambda>n. n\<lparr>datamgr_read_status := False\<rparr>) N (Some dummy)) (\<lambda>N.
          bindR (assign (\<lambda>n. n\<lparr>storagemgr_read_status := False\<rparr>) N (Some dummy)) (\<lambda>N.
          bindR (load (sbufs M) buffer) (\<lambda>sb.
          if sb_tail sb = NULL then
            bindR (assign (\<lambda>sb. sb\<lparr>sb_head := Some dummy, sb_tail := Some dummy\<rparr>)
                     (sbufs M) buffer) (\<lambda>S.
            Inr (SBUFFER_SUCCESS, M\<lparr>sbufs := S, snodes := N\<rparr>))
          else
            bindR (assign (\<lambda>n. n\<lparr>sn_next := Some dummy\<rparr>) N (sb_tail sb)) (\<lambda>N.
            bindR (load N (sb_tail sb)) (\<lambda>t.
            bindR (assign (\<lambda>sb. sb\<lparr>sb_tail := sn_next t\<rparr>) (sbufs M) buffer) (\<lambda>S.
            Inr (SBUFFER_SUCCESS, M\<lparr>sbufs := S, snodes := N\<rparr>))))))))))"

definition sbuffer_get_first_node :: "sbmem \<Rightarrow> ptr \<Rightarrow> ptr res" where
  "sbuffer_get_first_node M buffer =
     (if buffer = NULL then Inl Exit_Failure
      else bindR (load (sbufs M) buffer) (\<lambda>sb.
        if sb_head sb = NULL then Inr NULL else Inr (sb_head sb)))"

text \<open>The lines \<open>sbuffer_print_data\<close> prints: a running number and the measurement of each node.\<close>

fun print_loop ::
  "nat \<Rightarrow> sbuffer_node_t store \<Rightarrow> ptr \<Rightarrow> int \<Rightarrow> (int \<times> sensor_data_t) list res" where
  "print_loop 0 N dummy count = Inl Diverges"
| "print_loop (Suc k) N dummy count =
     (if dummy = NULL then Inr []
      else bindR (load N dummy) (\<lambda>n.
        bindR (print_loop k N (sn_next n) (count + 1)) (\<lambda>ls.
        Inr ((count, sn_data n) # ls))))"

definition sbuffer_print_data :: "sbmem \<Rightarrow> ptr \<Rightarrow> (int \<times> (int \<times> sensor_data_t) list) res" where
  "sbuffer_print_data M buffer =
     (if buffer = NULL then Inl Exit_Failure
      else bindR (load (sbufs M) buffer) (\<lambda>sb.
        bindR (print_loop (fuel (snodes M)) (snodes M) (sb_head sb) 0) (\<lambda>ls.
        Inr (SBUFFER_SUCCESS, ls))))"

end
