(* ===== verification/Broadcast.thy ===== *)
theory Broadcast
  imports Prelude
begin

text \<open>
  The contract of the shared buffer, apart from its representation: a queue with two readers, each of
  which is to see every inserted item once and in order. The first part describes the buffer as a
  list of entries with one read flag per reader; the second part is the interface (\<open>broadcast_queue\<close>)
  that the threads rely on, with what follows from it for any interleaving of their calls.
\<close>

section \<open>Entries and readers\<close>

datatype reader = Data_Reader | Storage_Reader

record 'd entry =
  e_data :: 'd
  e_dread :: bool
  e_sread :: bool

fun read_by :: "reader \<Rightarrow> 'd entry \<Rightarrow> bool" where
  "read_by Data_Reader e = e_dread e"
| "read_by Storage_Reader e = e_sread e"

fun mark :: "reader \<Rightarrow> 'd entry \<Rightarrow> 'd entry" where
  "mark Data_Reader e = e\<lparr>e_dread := True\<rparr>"
| "mark Storage_Reader e = e\<lparr>e_sread := True\<rparr>"

fun other :: "reader \<Rightarrow> reader" where
  "other Data_Reader = Storage_Reader"
| "other Storage_Reader = Data_Reader"

definition both_read :: "'d entry \<Rightarrow> bool" where
  "both_read e \<longleftrightarrow> e_dread e \<and> e_sread e"

definition fresh_entry :: "'d \<Rightarrow> 'd entry" where
  "fresh_entry d = \<lparr>e_data = d, e_dread = False, e_sread = False\<rparr>"

text \<open>What the reader \<open>r\<close> still has to see.\<close>

definition pending :: "reader \<Rightarrow> 'd entry list \<Rightarrow> 'd list" where
  "pending r es = map e_data (filter (\<lambda>e. \<not> read_by r e) es)"

text \<open>
  The invariant: each reader has read a prefix, and no entry that both have read is kept.
\<close>

definition entries_ok :: "'d entry list \<Rightarrow> bool" where
  "entries_ok es \<longleftrightarrow> (\<forall>r. list_all (\<lambda>e. \<not> read_by r e) (dropWhile (read_by r) es))
     \<and> list_all (\<lambda>e. \<not> both_read e) es"

lemma both_read_mark: "both_read (mark r e) = read_by (other r) e"
  by (cases r) (auto simp: both_read_def)

lemma read_by_mark [simp]:
  "read_by r (mark r e)" "read_by (other r) (mark r e) = read_by (other r) e"
  "e_data (mark r e) = e_data e"
  by (cases r; simp)+

lemma read_by_fresh [simp]: "\<not> read_by r (fresh_entry d)" "e_data (fresh_entry d) = d"
  by (cases r; simp add: fresh_entry_def)+

lemma other_other [simp]: "other (other r) = r" "other r \<noteq> r" "r \<noteq> other r"
  by (cases r; simp)+

lemma reader_cases: "r' = r \<or> r' = other r"
  by (cases r; cases r') auto

lemma not_both_read: "\<not> both_read e \<Longrightarrow> read_by r e \<Longrightarrow> \<not> read_by (other r) e"
  by (cases r) (auto simp: both_read_def)

lemma pending_Nil [simp]: "pending r [] = []"
  by (simp add: pending_def)

lemma pending_Cons [simp]:
  "pending r (e # es) = (if read_by r e then pending r es else e_data e # pending r es)"
  by (simp add: pending_def)

lemma pending_append [simp]: "pending r (es @ fs) = pending r es @ pending r fs"
  by (simp add: pending_def)

lemma pending_all_read: "list_all (read_by r) es \<Longrightarrow> pending r es = []"
  by (induction es) auto

section \<open>The two operations on entries\<close>

definition a_insert :: "'d entry list \<Rightarrow> 'd \<Rightarrow> 'd entry list" where
  "a_insert es d = es @ [fresh_entry d]"

definition a_remove :: "reader \<Rightarrow> 'd entry list \<Rightarrow> 'd option \<times> 'd entry list" where
  "a_remove r es = (case dropWhile (read_by r) es of
      [] \<Rightarrow> (None, es)
    | e # post \<Rightarrow>
        (Some (e_data e),
         if both_read (mark r e) then post else takeWhile (read_by r) es @ mark r e # post))"

lemma entries_ok_Nil [simp]: "entries_ok []"
  by (simp add: entries_ok_def)

lemma dropWhile_suffix:
  "list_all (\<lambda>e. \<not> P e) (dropWhile P es) \<longleftrightarrow> (\<exists>pre post. es = pre @ post
     \<and> list_all P pre \<and> list_all (\<lambda>e. \<not> P e) post)"
proof
  assume "list_all (\<lambda>e. \<not> P e) (dropWhile P es)"
  then show "\<exists>pre post. es = pre @ post \<and> list_all P pre \<and> list_all (\<lambda>e. \<not> P e) post"
    by (intro exI[of _ "takeWhile P es"] exI[of _ "dropWhile P es"])
       (auto simp: list_all_iff dest: set_takeWhileD)
next
  assume "\<exists>pre post. es = pre @ post \<and> list_all P pre \<and> list_all (\<lambda>e. \<not> P e) post"
  then obtain pre post where es: "es = pre @ post" "list_all P pre" "list_all (\<lambda>e. \<not> P e) post"
    by blast
  then have "dropWhile P es = dropWhile P post"
    by (simp add: dropWhile_append2 list_all_iff)
  then show "list_all (\<lambda>e. \<not> P e) (dropWhile P es)"
    using es(3) by (auto simp: list_all_iff dest: set_dropWhileD)
qed

lemma entries_okI:
  assumes "\<And>r. \<exists>pre post. es = pre @ post \<and> list_all (read_by r) pre
      \<and> list_all (\<lambda>e. \<not> read_by r e) post"
    and "list_all (\<lambda>e. \<not> both_read e) es"
  shows "entries_ok es"
  using assms by (simp add: entries_ok_def dropWhile_suffix)

lemma entries_ok_split:
  assumes "entries_ok es"
  obtains pre post where "es = pre @ post" "list_all (read_by r) pre"
    "list_all (\<lambda>e. \<not> read_by r e) post"
proof -
  have "list_all (\<lambda>e. \<not> read_by r e) (dropWhile (read_by r) es)"
    using assms by (simp add: entries_ok_def)
  then show ?thesis using that unfolding dropWhile_suffix by blast
qed

lemma entries_ok_insert: "entries_ok es \<Longrightarrow> entries_ok (a_insert es d)"
proof (rule entries_okI)
  fix r
  assume "entries_ok es"
  then obtain pre post where "es = pre @ post" "list_all (read_by r) pre"
      "list_all (\<lambda>e. \<not> read_by r e) post"
    by (rule entries_ok_split[where r = r])
  then show "\<exists>pre post. a_insert es d = pre @ post \<and> list_all (read_by r) pre
      \<and> list_all (\<lambda>e. \<not> read_by r e) post"
    by (intro exI[of _ pre] exI[of _ "post @ [fresh_entry d]"]) (simp add: a_insert_def)
next
  assume "entries_ok es"
  then show "list_all (\<lambda>e. \<not> both_read e) (a_insert es d)"
    by (simp add: entries_ok_def a_insert_def fresh_entry_def both_read_def)
qed

lemma pending_insert: "pending r (a_insert es d) = pending r es @ [d]"
  by (simp add: a_insert_def)

text \<open>
  The shape of the entries around the one a reader takes next. If the other reader has read it
  already, it is the first entry.
\<close>

lemma next_unread:
  assumes ok: "entries_ok es" and drop: "dropWhile (read_by r) es = e # post"
  obtains pre where "es = pre @ e # post" "takeWhile (read_by r) es = pre" "list_all (read_by r) pre"
    "\<not> read_by r e" "list_all (\<lambda>e. \<not> read_by r e) post" "read_by (other r) e \<longrightarrow> pre = []"
proof -
  define pre where "pre = takeWhile (read_by r) es"
  have es: "es = pre @ e # post"
    using takeWhile_dropWhile_id[of "read_by r" es] drop by (simp add: pre_def)
  have read: "list_all (read_by r) pre"
    by (auto simp: pre_def list_all_iff dest: set_takeWhileD)
  have unread: "list_all (\<lambda>e. \<not> read_by r e) (e # post)"
    using ok drop by (metis entries_ok_def)
  have "pre = []" if e: "read_by (other r) e"
  proof (rule ccontr)
    assume "pre \<noteq> []"
    then obtain p pre' where p: "pre = p # pre'" by (cases pre) auto
    have np: "\<not> read_by (other r) p"
      using ok read p es by (auto simp: entries_ok_def dest: not_both_read)
    then have "dropWhile (read_by (other r)) es = es" by (simp add: es p)
    then have "list_all (\<lambda>e. \<not> read_by (other r) e) es"
      using ok by (metis entries_ok_def)
    then show False using e by (simp add: es)
  qed
  moreover have "takeWhile (read_by r) es = pre" by (simp only: pre_def)
  moreover have "\<not> read_by r e" "list_all (\<lambda>e. \<not> read_by r e) post" using unread by simp_all
  ultimately show ?thesis using that[OF es] read by blast
qed

lemma a_remove_empty: "entries_ok es \<Longrightarrow> pending r es = [] \<Longrightarrow> a_remove r es = (None, es)"
proof -
  assume "pending r es = []"
  then have "dropWhile (read_by r) es = []"
    by (simp add: pending_def filter_empty_conv dropWhile_eq_Nil_conv)
  then show "a_remove r es = (None, es)" unfolding a_remove_def by (simp only: list.case)
qed

lemma a_remove_split:
  assumes "entries_ok es" "pending r es = d # q"
  obtains pre e post where "es = pre @ e # post" "list_all (read_by r) pre" "\<not> read_by r e"
    "list_all (\<lambda>e. \<not> read_by r e) post" "read_by (other r) e \<longrightarrow> pre = []"
    "a_remove r es = (Some (e_data e), if read_by (other r) e then post else pre @ mark r e # post)"
proof -
  have "dropWhile (read_by r) es \<noteq> []"
    using assms(2) pending_all_read[of r es] by (auto simp: dropWhile_eq_Nil_conv list_all_iff)
  then obtain e post where drop: "dropWhile (read_by r) es = e # post"
    by (cases "dropWhile (read_by r) es") auto
  from next_unread[OF assms(1) drop] obtain pre where
    pre: "es = pre @ e # post" "takeWhile (read_by r) es = pre" "list_all (read_by r) pre"
      "\<not> read_by r e" "list_all (\<lambda>e. \<not> read_by r e) post" "read_by (other r) e \<longrightarrow> pre = []" .
  have "a_remove r es = (Some (e_data e),
      if read_by (other r) e then post else pre @ mark r e # post)"
    unfolding a_remove_def drop pre(2) by (simp add: both_read_mark)
  with pre that show ?thesis by blast
qed

lemma a_remove_next:
  assumes ok: "entries_ok es" and pend: "pending r es = d # q"
  shows "fst (a_remove r es) = Some d" and "pending r (snd (a_remove r es)) = q"
    and "pending (other r) (snd (a_remove r es)) = pending (other r) es"
    and "entries_ok (snd (a_remove r es))"
proof -
  obtain pre e post where
    es: "es = pre @ e # post" and pre: "list_all (read_by r) pre" and e: "\<not> read_by r e" and
    post: "list_all (\<lambda>e. \<not> read_by r e) post" and head: "read_by (other r) e \<longrightarrow> pre = []" and
    rem: "a_remove r es
      = (Some (e_data e), if read_by (other r) e then post else pre @ mark r e # post)"
    by (rule a_remove_split[OF ok pend])
  have d: "e_data e = d" and q: "pending r post = q"
    using pend e pending_all_read[OF pre] by (simp_all add: es)
  show "fst (a_remove r es) = Some d"
    by (simp add: rem d)
  show "pending r (snd (a_remove r es)) = q"
    using pending_all_read[OF pre] q by (simp add: rem)
  show "pending (other r) (snd (a_remove r es)) = pending (other r) es"
    unfolding rem using head by (simp add: es)
  show "entries_ok (snd (a_remove r es))"
  proof (cases "read_by (other r) e")
    case True
    then have es': "snd (a_remove r es) = post" and "pre = []"
      using head by (simp_all add: rem)
    show ?thesis unfolding es'
    proof (rule entries_okI)
      fix r'
      show "\<exists>ps qs. post = ps @ qs \<and> list_all (read_by r') ps \<and> list_all (\<lambda>e. \<not> read_by r' e) qs"
      proof (cases "r' = r")
        case True
        with post show ?thesis by (intro exI[of _ "[]"] exI[of _ post]) simp
      next
        case False
        then have r': "r' = other r" using reader_cases by metis
        obtain ps qs where "es = ps @ qs" "list_all (read_by r') ps"
            "list_all (\<lambda>e. \<not> read_by r' e) qs"
          by (rule entries_ok_split[OF ok])
        then show ?thesis using True es \<open>pre = []\<close> r'
          by (cases ps) auto
      qed
    qed (use ok es in \<open>auto simp: entries_ok_def\<close>)
  next
    case False
    then have es': "snd (a_remove r es) = pre @ mark r e # post"
      by (simp add: rem)
    show ?thesis unfolding es'
    proof (rule entries_okI)
      fix r'
      show "\<exists>ps qs. pre @ mark r e # post = ps @ qs \<and> list_all (read_by r') ps
          \<and> list_all (\<lambda>e. \<not> read_by r' e) qs"
      proof (cases "r' = r")
        case True
        then show ?thesis using pre post
          by (intro exI[of _ "pre @ [mark r e]"] exI[of _ post]) simp
      next
        case r': False
        then have r': "r' = other r" using reader_cases by metis
        obtain ps qs where split: "es = ps @ qs" "list_all (read_by r') ps"
            "list_all (\<lambda>e. \<not> read_by r' e) qs"
          by (rule entries_ok_split[OF ok])
        have "ps = []"
        proof (cases pre)
          case Nil
          then show ?thesis using split(1,2) es False r' by (cases ps) auto
        next
          case (Cons p pre')
          then have "\<not> read_by r' p"
            using ok es pre r' by (auto simp: entries_ok_def dest: not_both_read)
          then show ?thesis using split(1,2) es Cons by (cases ps) auto
        qed
        with split(1) es have qs: "qs = pre @ e # post" by simp
        have "list_all (\<lambda>e. \<not> read_by r' e) (pre @ mark r e # post)"
          using split(3) r' unfolding qs by simp
        then show ?thesis by (intro exI[of _ "[]"] exI[of _ "pre @ mark r e # post"]) simp
      qed
    qed (use ok es False in \<open>auto simp: entries_ok_def both_read_mark\<close>)
  qed
qed

text \<open>Nothing is kept that no reader waits for.\<close>

lemma length_entries:
  assumes "entries_ok es"
  shows "length es = max (length (pending Data_Reader es)) (length (pending Storage_Reader es))"
proof (cases es)
  case (Cons e es')
  then have "\<not> read_by Data_Reader e \<or> \<not> read_by Storage_Reader e"
    using assms by (simp add: entries_ok_def both_read_def)
  then obtain r where r: "\<not> read_by r e" by blast
  then have "dropWhile (read_by r) es = es" using Cons by simp
  then have "list_all (\<lambda>e. \<not> read_by r e) es" using assms by (metis entries_ok_def)
  then have "filter (\<lambda>e. \<not> read_by r e) es = es" by (simp add: list_all_iff filter_id_conv)
  then have len: "length (pending r es) = length es" by (simp add: pending_def)
  have le: "length (pending r' es) \<le> length es" for r' by (simp add: pending_def)
  show ?thesis using len le[of Data_Reader] le[of Storage_Reader] by (cases r) auto
qed simp

section \<open>The interface\<close>

text \<open>
  The calls that the threads make, in the order in which the mutex lets them through, and what came
  of them: the inserted items that were accepted, and the items delivered, each with its reader.
\<close>

datatype 'd call = Insert 'd | Read reader

fun bq_run ::
  "('m \<Rightarrow> 'd \<Rightarrow> (int \<times> 'm) res) \<Rightarrow> (reader \<Rightarrow> 'm \<Rightarrow> 'd \<Rightarrow> (int \<times> 'd \<times> 'm) res) \<Rightarrow> 'd
   \<Rightarrow> 'm \<Rightarrow> 'd call list \<Rightarrow> ('d list \<times> (reader \<times> 'd) list \<times> 'm) res" where
  "bq_run ins rem preset m [] = Inr ([], [], m)"
| "bq_run ins rem preset m (Insert d # cs) =
     bindR (ins m d) (\<lambda>(c, m').
     bindR (bq_run ins rem preset m' cs) (\<lambda>(acc, del, m'').
     Inr (if c = 0 then d # acc else acc, del, m'')))"
| "bq_run ins rem preset m (Read r # cs) =
     bindR (rem r m preset) (\<lambda>(c, d, m').
     bindR (bq_run ins rem preset m' cs) (\<lambda>(acc, del, m'').
     Inr (acc, if c = 0 then (r, d) # del else del, m'')))"

definition delivered :: "reader \<Rightarrow> (reader \<times> 'd) list \<Rightarrow> 'd list" where
  "delivered r del = map snd (filter (\<lambda>x. fst x = r) del)"

lemma delivered_simps [simp]:
  "delivered r [] = []"
  "delivered r ((r', d) # del) = (if r' = r then d # delivered r del else delivered r del)"
  by (simp_all add: delivered_def)

text \<open>
  \<open>inv\<close> holds between calls and \<open>pend r m\<close> is what reader \<open>r\<close> still has to see. Codes: 0 is success,
  1 is "nothing to read"; an insertion that fails changes nothing.
\<close>

locale broadcast_queue =
  fixes inv :: "'m \<Rightarrow> bool" and pend :: "reader \<Rightarrow> 'm \<Rightarrow> 'd list"
    and ins :: "'m \<Rightarrow> 'd \<Rightarrow> (int \<times> 'm) res"
    and rem :: "reader \<Rightarrow> 'm \<Rightarrow> 'd \<Rightarrow> (int \<times> 'd \<times> 'm) res"
  assumes ins_returns: "inv m \<Longrightarrow> \<exists>c m'. ins m d = Inr (c, m')"
    and ins_inv: "inv m \<Longrightarrow> ins m d = Inr (c, m') \<Longrightarrow> inv m'"
    and ins_pend: "inv m \<Longrightarrow> ins m d = Inr (c, m')
      \<Longrightarrow> pend r m' = (if c = 0 then pend r m @ [d] else pend r m)"
    and rem_empty: "inv m \<Longrightarrow> pend r m = [] \<Longrightarrow> rem r m d = Inr (1, d, m)"
    and rem_next: "inv m \<Longrightarrow> pend r m = x # q \<Longrightarrow> \<exists>m'. rem r m d = Inr (0, x, m') \<and> inv m'
      \<and> pend r m' = q \<and> pend (other r) m' = pend (other r) m"
begin

lemma read_step:
  assumes "inv m"
  obtains c x m' where "rem r m d = Inr (c, x, m')" "inv m'"
    "\<And>r'. pend r' m = (if r' = r \<and> c = 0 then [x] else []) @ pend r' m'"
proof (cases "pend r m")
  case Nil
  then show ?thesis using that rem_empty[OF assms Nil] assms by fastforce
next
  case (Cons x q)
  then obtain m' where m': "rem r m d = Inr (0, x, m')" "inv m'" "pend r m' = q"
      "pend (other r) m' = pend (other r) m"
    using rem_next[OF assms] by blast
  have "pend r' m = (if r' = r \<and> (0::int) = 0 then [x] else []) @ pend r' m'" for r'
    using reader_cases[of r' r] Cons m'(3,4) by auto
  then show ?thesis using that m'(1,2) by blast
qed

text \<open>
  Whatever the interleaving: the calls return, and for each reader what it had to see, with what was
  accepted appended, is what it saw followed by what it still has to see.
\<close>

lemma exactly_once:
  assumes "inv m"
  shows "\<exists>acc del m'. bq_run ins rem preset m cs = Inr (acc, del, m') \<and> inv m'
    \<and> (\<forall>r. pend r m @ acc = delivered r del @ pend r m')"
  using assms
proof (induction cs arbitrary: m)
  case Nil
  then show ?case by simp
next
  case (Cons call cs)
  show ?case
  proof (cases call)
    case (Insert d)
    obtain c m1 where m1: "ins m d = Inr (c, m1)" "inv m1"
        "\<And>r. pend r m1 = (if c = 0 then pend r m @ [d] else pend r m)"
      using ins_returns[OF Cons.prems] ins_inv[OF Cons.prems] ins_pend[OF Cons.prems] by metis
    obtain acc del m' where m': "bq_run ins rem preset m1 cs = Inr (acc, del, m')" "inv m'"
        "\<And>r. pend r m1 @ acc = delivered r del @ pend r m'"
      using Cons.IH[OF m1(2)] by blast
    have "\<forall>r. pend r m @ (if c = 0 then d # acc else acc) = delivered r del @ pend r m'"
      using m1(3) m'(3) by (auto split: if_splits)
    then show ?thesis using m1(1) m'(1,2) Insert by simp
  next
    case (Read r)
    obtain c x m1 where m1: "rem r m preset = Inr (c, x, m1)" "inv m1"
        "\<And>r'. pend r' m = (if r' = r \<and> c = 0 then [x] else []) @ pend r' m1"
      using read_step[OF Cons.prems, where r = r and d = preset] by blast
    obtain acc del m' where m': "bq_run ins rem preset m1 cs = Inr (acc, del, m')" "inv m'"
        "\<And>r. pend r m1 @ acc = delivered r del @ pend r m'"
      using Cons.IH[OF m1(2)] by blast
    have "\<forall>r'. pend r' m @ acc
        = delivered r' (if c = 0 then (r, x) # del else del) @ pend r' m'"
      using m1(3) m'(3) by (auto split: if_splits)
    then show ?thesis using m1(1) m'(1,2) Read by simp
  qed
qed

text \<open>A reader that reads often enough, undisturbed, sees everything.\<close>

lemma drain:
  assumes "inv m" "length (pend r m) \<le> n"
  shows "\<exists>del m'. bq_run ins rem preset m (replicate n (Read r)) = Inr ([], del, m')
    \<and> delivered r del = pend r m \<and> pend r m' = []"
  using assms
proof (induction n arbitrary: m)
  case 0
  then show ?case by simp
next
  case (Suc n)
  obtain c x m1 where m1: "rem r m preset = Inr (c, x, m1)" "inv m1"
      "\<And>r'. pend r' m = (if r' = r \<and> c = 0 then [x] else []) @ pend r' m1"
    using read_step[OF Suc.prems(1), where r = r and d = preset] by blast
  have "length (pend r m1) \<le> n"
  proof (cases "c = 0")
    case True
    then show ?thesis using Suc.prems(2) m1(3)[of r] by simp
  next
    case False
    have "pend r m = []"
    proof (rule ccontr)
      assume "pend r m \<noteq> []"
      then obtain y q where "pend r m = y # q" by (cases "pend r m") auto
      then have "\<exists>m'. rem r m preset = Inr (0, y, m')"
        using rem_next[OF Suc.prems(1)] by blast
      then show False using m1(1) False by simp
    qed
    then show ?thesis using m1(3)[of r] by simp
  qed
  then obtain del m' where m': "bq_run ins rem preset m1 (replicate n (Read r)) = Inr ([], del, m')"
      "delivered r del = pend r m1" "pend r m' = []"
    using Suc.IH[OF m1(2)] by blast
  show ?case using m1(1) m1(3)[of r] m' by auto
qed

end

end
