(* ===== verification/Sbuffer_Proofs.thy ===== *)
theory Sbuffer_Proofs
  imports Sbuffer Broadcast
begin

text \<open>
  The linked buffer of \<open>sbuffer.c\<close> implements the entry lists of theory \<open>Broadcast\<close>: the
  representation predicate, one lemma per operation, and the interpretation of the queue interface.
\<close>

section \<open>The nodes of a buffer\<close>

type_synonym sb_entry = "sensor_data_t entry"

definition entry_of :: "sbuffer_node_t \<Rightarrow> sb_entry" where
  "entry_of n = \<lparr>e_data = sn_data n, e_dread = datamgr_read_status n,
     e_sread = storagemgr_read_status n\<rparr>"

definition node_of :: "sb_entry \<Rightarrow> ptr \<Rightarrow> sbuffer_node_t" where
  "node_of e q = \<lparr>sn_next = q, sn_data = e_data e, datamgr_read_status = e_dread e,
     storagemgr_read_status = e_sread e\<rparr>"

lemma node_of_sel [simp]:
  "sn_next (node_of e q) = q" "sn_data (node_of e q) = e_data e"
  "datamgr_read_status (node_of e q) = read_by Data_Reader e"
  "storagemgr_read_status (node_of e q) = read_by Storage_Reader e"
  "entry_of (node_of e q) = e"
  by (simp_all add: node_of_def entry_of_def)

lemma node_of_upd [simp]:
  "node_of e q\<lparr>sn_next := q'\<rparr> = node_of e q'"
  "node_of e q\<lparr>datamgr_read_status := True\<rparr> = node_of (mark Data_Reader e) q"
  "node_of e q\<lparr>storagemgr_read_status := True\<rparr> = node_of (mark Storage_Reader e) q"
  by (simp_all add: node_of_def)

text \<open>\<open>sseg m ns q\<close>: the nodes \<open>ns\<close> are in \<open>m\<close>, linked in this order, the last one pointing to \<open>q\<close>.\<close>

fun sseg :: "(addr \<rightharpoonup> sbuffer_node_t) \<Rightarrow> (addr \<times> sb_entry) list \<Rightarrow> ptr \<Rightarrow> bool" where
  "sseg m [] q = True"
| "sseg m ((a, e) # ns) q = (m a = Some (node_of e (first_ptr ns q)) \<and> sseg m ns q)"

text \<open>Reading the chain back from the memory.\<close>

fun schain :: "nat \<Rightarrow> sbuffer_node_t store \<Rightarrow> ptr \<Rightarrow> (addr \<times> sb_entry) list" where
  "schain 0 N p = []"
| "schain (Suc k) N p = (case p of
      None \<Rightarrow> []
    | Some a \<Rightarrow> (case cells N a of
          None \<Rightarrow> []
        | Some n \<Rightarrow> (a, entry_of n) # schain k N (sn_next n)))"

text \<open>
  The buffer at \<open>b\<close> has the nodes \<open>ns\<close>, and these are all the nodes there are (nothing leaks).
\<close>

definition sb_rep :: "sbmem \<Rightarrow> addr \<Rightarrow> (addr \<times> sb_entry) list \<Rightarrow> bool" where
  "sb_rep M b ns \<longleftrightarrow> wf_store (sbufs M) \<and> wf_store (snodes M)
     \<and> cells (sbufs M) b = Some \<lparr>sb_head = first_ptr ns NULL, sb_tail = last_ptr NULL ns\<rparr>
     \<and> sseg (cells (snodes M)) ns NULL \<and> distinct (addrs ns)
     \<and> dom (cells (snodes M)) = set (addrs ns)"

definition sb_chain :: "sbmem \<Rightarrow> addr \<Rightarrow> (addr \<times> sb_entry) list" where
  "sb_chain M b = (case cells (sbufs M) b of
      None \<Rightarrow> [] | Some sb \<Rightarrow> schain (fuel (snodes M)) (snodes M) (sb_head sb))"

definition sb_entries :: "sbmem \<Rightarrow> addr \<Rightarrow> sb_entry list" where
  "sb_entries M b = map snd (sb_chain M b)"

definition sb_inv :: "addr \<Rightarrow> sbmem \<Rightarrow> bool" where
  "sb_inv b M \<longleftrightarrow> sb_rep M b (sb_chain M b) \<and> entries_ok (sb_entries M b)"

lemma sseg_append [seg_simps]:
  "sseg m (xs @ ys) q \<longleftrightarrow> sseg m xs (first_ptr ys q) \<and> sseg m ys q"
  by (induction xs) auto

lemma sseg_upd [seg_simps]: "a \<notin> set (addrs ns) \<Longrightarrow> sseg (m(a := v)) ns q = sseg m ns q"
  by (induction ns) auto

lemma sseg_dom: "sseg m ns q \<Longrightarrow> set (addrs ns) \<subseteq> dom m"
proof (induction ns)
  case (Cons n ns)
  then show ?case by (cases n) auto
qed simp

lemma schain_sseg: "sseg (cells N) ns NULL \<Longrightarrow> length ns < k \<Longrightarrow> schain k N (first_ptr ns NULL) = ns"
proof (induction ns arbitrary: k)
  case Nil
  then show ?case by (cases k) auto
next
  case (Cons n ns)
  then show ?case by (cases n; cases k) auto
qed

lemma sb_rep_length: "sb_rep M b ns \<Longrightarrow> length ns < fuel (snodes M)"
  using distinct_lt_fuel[of "snodes M" "addrs ns"] by (simp add: sb_rep_def)

lemma sb_rep_chain: "sb_rep M b ns \<Longrightarrow> sb_chain M b = ns"
  using sb_rep_length[of M b ns] by (simp add: sb_rep_def sb_chain_def schain_sseg)

lemma sb_rep_entries: "sb_rep M b ns \<Longrightarrow> sb_entries M b = map snd ns"
  by (simp add: sb_entries_def sb_rep_chain)

lemma sb_invI: "sb_rep M b ns \<Longrightarrow> entries_ok (map snd ns) \<Longrightarrow> sb_inv b M"
  by (simp add: sb_inv_def sb_rep_chain sb_rep_entries)

lemma sb_invE:
  assumes "sb_inv b M"
  obtains ns where "sb_rep M b ns" "entries_ok (map snd ns)" "sb_entries M b = map snd ns"
  using assms that[of "sb_chain M b"] by (simp add: sb_inv_def sb_entries_def)

section \<open>Initialisation and insertion\<close>

lemma sbuffer_init_rep:
  assumes "wf_store (sbufs M)" "wf_store (snodes M)" "dom (cells (snodes M)) = {}"
    and "avail (sbufs M) \<noteq> []"
  obtains b M' where "sbuffer_init M = Inr (SBUFFER_SUCCESS, Some b, M')" "sb_rep M' b []"
    "snodes M' = snodes M"
proof -
  obtain b S where S: "malloc junk_sbuffer (sbufs M) = Some (b, S)" "cells S b = Some junk_sbuffer"
    using assms(4) by (cases "avail (sbufs M)") (auto simp: malloc_def)
  have "wf_store S" using wf_malloc[OF assms(1) S(1)] .
  then show ?thesis
    using that S assms by (simp add: sbuffer_init_def mem_simps sb_rep_def junk_sbuffer_def wf_update dom_def)
qed

lemma sbuffer_insert_full:
  "avail (snodes M) = [] \<Longrightarrow> sbuffer_insert M (Some b) d = Inr (SBUFFER_FAILURE, M)"
  by (simp add: sbuffer_insert_def malloc_def)

lemma sbuffer_insert_rep:
  assumes rep: "sb_rep M b ns" and av: "avail (snodes M) = a # as"
  obtains M' where "sbuffer_insert M (Some b) d = Inr (SBUFFER_SUCCESS, M')"
    "sb_rep M' b (ns @ [(a, fresh_entry d)])" "avail (snodes M') = as" "msize (snodes M') = msize (snodes M)"
proof -
  let ?nd = "node_of (fresh_entry d) NULL"
  define N where "N = (snodes M)\<lparr>cells := (cells (snodes M))(a \<mapsto> ?nd), avail := as\<rparr>"
  have fresh: "a \<notin> set (addrs ns)"
    using rep av by (auto simp: sb_rep_def wf_store_def)
  have "wf_store ((snodes M)\<lparr>cells := (cells (snodes M))(a \<mapsto> ?nd), avail := as\<rparr>)"
    using wf_malloc[of "snodes M" ?nd a] rep av by (simp add: sb_rep_def malloc_def)
  then have wf: "wf_store N" by (simp add: N_def)
  show ?thesis
  proof (cases ns rule: rev_cases)
    case Nil
    show ?thesis
      by (rule that[of "M\<lparr>sbufs := (sbufs M)\<lparr>cells := (cells (sbufs M))
              (b \<mapsto> \<lparr>sb_head = Some a, sb_tail = Some a\<rparr>)\<rparr>, snodes := N\<rparr>"])
         (use Nil rep wf av fresh in \<open>auto simp: sbuffer_insert_def malloc_def mem_simps sb_rep_def
            N_def node_of_def fresh_entry_def junk_sbuffer_node_def wf_update\<close>)
  next
    case (snoc ms t)
    obtain l e where t: "t = (l, e)" by (cases t)
    have l: "cells (snodes M) l = Some (node_of e NULL)" and "l \<noteq> a" "l \<notin> set (addrs ms)"
      using rep fresh snoc t by (auto simp: sb_rep_def seg_simps)
    have wf': "wf_store (N\<lparr>cells := (cells N)(l \<mapsto> node_of e (Some a))\<rparr>)"
      using wf l \<open>l \<noteq> a\<close> by (intro wf_update) (auto simp: N_def)
    show ?thesis
      by (rule that[of "M\<lparr>sbufs := (sbufs M)\<lparr>cells := (cells (sbufs M))
              (b \<mapsto> \<lparr>sb_head = first_ptr ns NULL, sb_tail = Some a\<rparr>)\<rparr>,
              snodes := N\<lparr>cells := (cells N)(l \<mapsto> node_of e (Some a))\<rparr>\<rparr>"])
         (use snoc t rep wf' av fresh l \<open>l \<noteq> a\<close> \<open>l \<notin> set (addrs ms)\<close> in
          \<open>auto simp: sbuffer_insert_def malloc_def mem_simps sb_rep_def seg_simps
            N_def node_of_def fresh_entry_def junk_sbuffer_node_def wf_update\<close>)
  qed
qed

section \<open>Reading\<close>

text \<open>The flag a reader tests and the one it sets.\<close>

fun status_of :: "reader \<Rightarrow> sbuffer_node_t \<Rightarrow> bool" where
  "status_of Data_Reader n = datamgr_read_status n"
| "status_of Storage_Reader n = storagemgr_read_status n"

fun set_status :: "reader \<Rightarrow> sbuffer_node_t \<Rightarrow> sbuffer_node_t" where
  "set_status Data_Reader n = n\<lparr>datamgr_read_status := True\<rparr>"
| "set_status Storage_Reader n = n\<lparr>storagemgr_read_status := True\<rparr>"

lemma status_node_of [simp]:
  "status_of r (node_of e q) = read_by r e"
  "set_status r (node_of e q) = node_of (mark r e) q"
  by (cases r; simp)+

lemma find_unread_sseg:
  assumes "sseg (cells N) ns NULL" "length ns < k" "ns \<noteq> []"
  shows "find_unread k (status_of r) N (first_ptr ns NULL)
    = (case dropWhile (\<lambda>n. read_by r (snd n)) ns of
        [] \<Rightarrow> Inr None | n # _ \<Rightarrow> Inr (Some (Some (fst n))))"
  using assms
proof (induction ns arbitrary: k)
  case (Cons n ns)
  then show ?case by (cases n; cases k; cases ns) (auto simp: mem_simps)
qed simp

lemma unlink_unread:
  "cells (snodes M) a = Some (node_of e q) \<Longrightarrow> \<not> both_read e
   \<Longrightarrow> sbuffer_unlink_read M (Some b) (Some a) = Inr M"
  by (auto simp: sbuffer_unlink_read_def mem_simps both_read_def)

text \<open>
  A node that both have read, at the head of the chain: it is unlinked, and its memory released.
\<close>

lemma unlink_head:
  assumes rep: "sb_rep M b ((a, e) # ns)" and both: "both_read e"
  obtains M' where "sbuffer_unlink_read M (Some b) (Some a) = Inr M'" "sb_rep M' b ns"
proof -
  define M' where "M' = M\<lparr>
     sbufs := (sbufs M)\<lparr>cells := (cells (sbufs M))
       (b \<mapsto> \<lparr>sb_head = first_ptr ns NULL, sb_tail = last_ptr NULL ns\<rparr>)\<rparr>,
     snodes := (snodes M)\<lparr>cells := (cells (snodes M))(a := None), avail := a # avail (snodes M)\<rparr>\<rparr>"
  have a: "cells (snodes M) a = Some (node_of e (first_ptr ns NULL))" and "a \<notin> set (addrs ns)"
    using rep by (simp_all add: sb_rep_def)
  have rep': "sb_rep M' b ns"
    using rep a \<open>a \<notin> set (addrs ns)\<close>
    by (auto simp: sb_rep_def M'_def seg_simps wf_update wf_release)
  have "sbuffer_unlink_read M (Some b) (Some a) = Inr M'"
  proof (cases ns)
    case Nil
    then show ?thesis using rep a both
      by (simp add: sbuffer_unlink_read_def mem_simps both_read_def sb_rep_def M'_def)
  next
    case (Cons n ns')
    then have "last_ptr (Some a) ns \<noteq> Some a"
      using \<open>a \<notin> set (addrs ns)\<close> last_ptr_notin[of a ns' "Some (fst n)"] by simp
    moreover have "last_ptr (Some a) ns = last_ptr NULL ns" using Cons by simp
    ultimately show ?thesis using rep a both Cons
      by (simp add: sbuffer_unlink_read_def mem_simps both_read_def sb_rep_def M'_def)
  qed
  then show ?thesis using that rep' by blast
qed

lemma mark_rep:
  assumes rep: "sb_rep M b (xs @ (a, e) # ys)"
  shows "sb_rep (M\<lparr>snodes := (snodes M)\<lparr>cells := (cells (snodes M))
      (a \<mapsto> node_of (mark r e) (first_ptr ys NULL))\<rparr>\<rparr>) b (xs @ (a, mark r e) # ys)"
proof -
  have "a \<notin> set (addrs xs)" "a \<notin> set (addrs ys)"
    and a: "cells (snodes M) a = Some (node_of e (first_ptr ys NULL))"
    using rep by (auto simp: sb_rep_def seg_simps)
  then show ?thesis using rep by (auto simp: sb_rep_def seg_simps wf_update)
qed

text \<open>The common part of the two branches of \<open>sbuffer_remove\<close>.\<close>

definition remove_as :: "reader \<Rightarrow> sbmem \<Rightarrow> addr \<Rightarrow> ptr \<Rightarrow> sensor_data_t
    \<Rightarrow> (int \<times> sensor_data_t \<times> sbmem) res" where
  "remove_as r M b p data =
     bindR (find_unread (fuel (snodes M)) (status_of r) (snodes M) p) (\<lambda>f.
     case f of
       None \<Rightarrow> Inr (SBUFFER_NO_DATA, data, M)
     | Some dummy \<Rightarrow>
         bindR (load (snodes M) dummy) (\<lambda>n.
         bindR (assign (set_status r) (snodes M) dummy) (\<lambda>N.
         bindR (sbuffer_unlink_read (M\<lparr>snodes := N\<rparr>) (Some b) dummy) (\<lambda>M.
         Inr (SBUFFER_SUCCESS, sn_data n, M)))))"

lemma remove_as_empty:
  assumes "sb_rep M b ns" "ns \<noteq> []" "pending r (map snd ns) = []"
  shows "remove_as r M b (first_ptr ns NULL) d = Inr (SBUFFER_NO_DATA, d, M)"
proof -
  have drop: "dropWhile (\<lambda>n. read_by r (snd n)) ns = []"
    using assms(3) by (auto simp: pending_def filter_empty_conv dropWhile_eq_Nil_conv)
  have "find_unread (fuel (snodes M)) (status_of r) (snodes M) (first_ptr ns NULL) = Inr None"
    using find_unread_sseg[of "snodes M" ns "fuel (snodes M)" r] sb_rep_length[OF assms(1)] assms(1,2)
    unfolding drop by (simp add: sb_rep_def)
  then show ?thesis by (simp add: remove_as_def)
qed

lemma remove_as_next:
  assumes rep: "sb_rep M b ns" and ok: "entries_ok (map snd ns)"
    and pend: "pending r (map snd ns) = x # q"
  obtains M' ns' where "remove_as r M b (first_ptr ns NULL) d = Inr (SBUFFER_SUCCESS, x, M')"
    "sb_rep M' b ns'" "map snd ns' = snd (a_remove r (map snd ns))"
proof -
  obtain pre e post where es: "map snd ns = pre @ e # post" and pre: "list_all (read_by r) pre"
    and e: "\<not> read_by r e" and head: "read_by (other r) e \<longrightarrow> pre = []"
    and rem: "a_remove r (map snd ns)
      = (Some (e_data e), if read_by (other r) e then post else pre @ mark r e # post)"
    by (rule a_remove_split[OF ok pend])
  obtain xs a ys where ns: "ns = xs @ (a, e) # ys" "map snd xs = pre" "map snd ys = post"
    using es by (auto simp: map_eq_append_conv map_eq_Cons_conv)
  have x: "x = e_data e"
    using pend pending_all_read[OF pre] e by (simp add: es)
  have drop: "dropWhile (\<lambda>n. read_by r (snd n)) ns = (a, e) # ys"
    using pre e ns by (simp add: dropWhile_append2 list_all_iff image_iff ball_conj_distrib)
       (metis (no_types, lifting) dropWhile_append2 dropWhile.simps(2) image_eqI list.set_map snd_conv)
  have found: "find_unread (fuel (snodes M)) (status_of r) (snodes M) (first_ptr ns NULL)
      = Inr (Some (Some a))"
    using find_unread_sseg[of "snodes M" ns "fuel (snodes M)" r] sb_rep_length[OF rep] rep ns(1)
    unfolding drop by (simp add: sb_rep_def)
  have a: "cells (snodes M) a = Some (node_of e (first_ptr ys NULL))"
    using rep ns(1) by (simp add: sb_rep_def seg_simps)
  let ?N = "(snodes M)\<lparr>cells := (cells (snodes M))(a \<mapsto> node_of (mark r e) (first_ptr ys NULL))\<rparr>"
  have marked: "sb_rep (M\<lparr>snodes := ?N\<rparr>) b (xs @ (a, mark r e) # ys)"
    using mark_rep rep ns(1) by simp
  have run: "remove_as r M b (first_ptr ns NULL) d
      = bindR (sbuffer_unlink_read (M\<lparr>snodes := ?N\<rparr>) (Some b) (Some a))
          (\<lambda>M. Inr (SBUFFER_SUCCESS, x, M))"
    using a by (simp add: remove_as_def found mem_simps x)
  show ?thesis
  proof (cases "read_by (other r) e")
    case True
    then have "xs = []" using head ns(2) by simp
    then obtain M' where
      "sbuffer_unlink_read (M\<lparr>snodes := ?N\<rparr>) (Some b) (Some a) = Inr M'" "sb_rep M' b ys"
      using unlink_head[of "M\<lparr>snodes := ?N\<rparr>" b a "mark r e" ys] marked True
      by (auto simp: both_read_mark)
    then show ?thesis using that[of M' ys] run rem True ns(3) by simp
  next
    case False
    then have "sbuffer_unlink_read (M\<lparr>snodes := ?N\<rparr>) (Some b) (Some a) = Inr (M\<lparr>snodes := ?N\<rparr>)"
      by (intro unlink_unread[where e = "mark r e"]) (auto simp: both_read_mark)
    then show ?thesis using that[OF _ marked] run rem False ns(2,3) by simp
  qed
qed

text \<open>The thread identifiers of the readers.\<close>

definition td_of :: "pthread_t \<Rightarrow> pthread_t \<Rightarrow> reader \<Rightarrow> pthread_t" where
  "td_of datamgr_td storagemgr_td r = (case r of
     Data_Reader \<Rightarrow> datamgr_td | Storage_Reader \<Rightarrow> storagemgr_td)"

lemma status_of_eta [simp]:
  "status_of Data_Reader = datamgr_read_status" "status_of Storage_Reader = storagemgr_read_status"
  "set_status Data_Reader = datamgr_read_status_update (\<lambda>_. True)"
  "set_status Storage_Reader = storagemgr_read_status_update (\<lambda>_. True)"
  by (simp_all add: fun_eq_iff)

lemma sbuffer_remove_as:
  assumes "D \<noteq> S" "sb_rep M b ns"
  shows "sbuffer_remove D S (td_of D S r) M (Some b) d
    = (if ns = [] then Inr (SBUFFER_NO_DATA, d, M) else remove_as r M b (first_ptr ns NULL) d)"
proof (cases r)
  case Data_Reader
  show ?thesis unfolding Data_Reader remove_as_def status_of_eta
    using assms by (simp add: sbuffer_remove_def td_of_def sb_rep_def mem_simps)
next
  case Storage_Reader
  show ?thesis unfolding Storage_Reader remove_as_def status_of_eta
    using assms by (simp add: sbuffer_remove_def td_of_def sb_rep_def mem_simps)
qed

lemma sbuffer_remove_other_thread:
  assumes "self \<noteq> D" "self \<noteq> S" "sb_rep M b ns"
  shows "sbuffer_remove D S self M (Some b) d
    = Inr (if ns = [] then SBUFFER_NO_DATA else SBUFFER_FAILURE, d, M)"
  using assms by (auto simp: sbuffer_remove_def sb_rep_def mem_simps)

section \<open>Release and inspection of the whole buffer\<close>

lemma free_loop_rep:
  assumes "wf_store (snodes M)" "wf_store (sbufs M)" "sseg (cells (snodes M)) ns NULL"
    and "distinct (addrs ns)" "dom (cells (snodes M)) = set (addrs ns)" "length ns < k"
    and "cells (sbufs M) b = Some \<lparr>sb_head = first_ptr ns NULL, sb_tail = t\<rparr>"
  shows "\<exists>M'. sbuffer_free_loop k M (Some b) = Inr M' \<and> wf_store (snodes M') \<and> wf_store (sbufs M')
    \<and> dom (cells (snodes M')) = {} \<and> msize (snodes M') = msize (snodes M)
    \<and> (\<forall>b'. b' \<noteq> b \<longrightarrow> cells (sbufs M') b' = cells (sbufs M) b') \<and> cells (sbufs M') b \<noteq> None"
  using assms
proof (induction ns arbitrary: k M)
  case Nil
  then show ?case by (cases k) (auto simp: mem_simps)
next
  case (Cons n ns)
  obtain a e where n: "n = (a, e)" by (cases n)
  obtain j where k: "k = Suc j" using Cons.prems(6) by (cases k) auto
  let ?M = "M\<lparr>sbufs := (sbufs M)\<lparr>cells := (cells (sbufs M))
        (b \<mapsto> \<lparr>sb_head = first_ptr ns NULL, sb_tail = t\<rparr>)\<rparr>,
      snodes := (snodes M)\<lparr>cells := (cells (snodes M))(a := None), avail := a # avail (snodes M)\<rparr>\<rparr>"
  have a: "cells (snodes M) a = Some (node_of e (first_ptr ns NULL))" "a \<notin> set (addrs ns)"
    using Cons.prems(3,4) n by simp_all
  have "sbuffer_free_loop k M (Some b) = sbuffer_free_loop j ?M (Some b)"
    using Cons.prems(7) a(1) by (simp add: k n mem_simps)
  moreover have "\<exists>M'. sbuffer_free_loop j ?M (Some b) = Inr M' \<and> wf_store (snodes M')
    \<and> wf_store (sbufs M') \<and> dom (cells (snodes M')) = {} \<and> msize (snodes M') = msize (snodes ?M)
    \<and> (\<forall>b'. b' \<noteq> b \<longrightarrow> cells (sbufs M') b' = cells (sbufs ?M) b') \<and> cells (sbufs M') b \<noteq> None"
  proof (rule Cons.IH)
    have "sseg ((cells (snodes M))(a := None)) ns NULL"
      using Cons.prems(3) a(2) n by (simp add: sseg_upd)
    then show "sseg (cells (snodes ?M)) ns NULL" by simp
    have "dom ((cells (snodes M))(a := None)) = set (addrs ns)"
      using Cons.prems(5) a(2) n by (simp add: dom_fun_upd)
    then show "dom (cells (snodes ?M)) = set (addrs ns)" by simp
  qed (use Cons.prems a n k in \<open>simp_all add: wf_update wf_release\<close>)
  ultimately show ?case by auto
qed

lemma sbuffer_free_rep:
  assumes "sb_rep M b ns"
  obtains M' where "sbuffer_free M (Some (Some b)) = Inr (SBUFFER_SUCCESS, Some NULL, M')"
    "dom (cells (snodes M')) = {}" "dom (cells (sbufs M')) = dom (cells (sbufs M)) - {b}"
    "wf_store (snodes M')" "wf_store (sbufs M')" "msize (snodes M') = msize (snodes M)"
proof -
  obtain M1 where M1: "sbuffer_free_loop (fuel (snodes M)) M (Some b) = Inr M1"
    "wf_store (snodes M1)" "wf_store (sbufs M1)" "dom (cells (snodes M1)) = {}"
    "msize (snodes M1) = msize (snodes M)"
    "\<And>b'. b' \<noteq> b \<Longrightarrow> cells (sbufs M1) b' = cells (sbufs M) b'" "cells (sbufs M1) b \<noteq> None"
    using free_loop_rep[of M ns "fuel (snodes M)" b "last_ptr NULL ns"] sb_rep_length[OF assms] assms
    by (auto simp: sb_rep_def)
  obtain v where v: "cells (sbufs M1) b = Some v" using M1(7) by blast
  let ?S = "(sbufs M1)\<lparr>cells := (cells (sbufs M1))(b := None), avail := b # avail (sbufs M1)\<rparr>"
  have "dom (cells ?S) = dom (cells (sbufs M)) - {b}"
    using M1(6) by (auto simp: dom_def split: if_splits)
  then show ?thesis
    using that[of "M1\<lparr>sbufs := ?S\<rparr>"] M1 v by (simp add: sbuffer_free_def mem_simps wf_release)
qed

lemma print_loop_sseg:
  assumes "sseg (cells N) ns NULL" "length ns < k"
  shows "print_loop k N (first_ptr ns NULL) c
    = Inr (zip (map (\<lambda>i. c + int i) [0..<length ns]) (map (e_data \<circ> snd) ns))"
  using assms
proof (induction ns arbitrary: k c)
  case Nil
  then show ?case by (cases k) auto
next
  case (Cons n ns)
  obtain a e where n: "n = (a, e)" by (cases n)
  obtain j where k: "k = Suc j" using Cons.prems by (cases k) auto
  have "map (\<lambda>i. c + int i) [0..<length (n # ns)] = c # map (\<lambda>i. c + 1 + int i) [0..<length ns]"
    by (simp add: upt_conv_Cons map_Suc_upt[symmetric] del: upt_Suc)
  then show ?case using Cons n k by (simp add: mem_simps)
qed

section \<open>The buffer implements the queue interface\<close>

abbreviation sb_pending :: "addr \<Rightarrow> reader \<Rightarrow> sbmem \<Rightarrow> sensor_data_t list" where
  "sb_pending b r M \<equiv> pending r (sb_entries M b)"

lemma sbuffer_insert_inv:
  assumes "sb_inv b M" "sbuffer_insert M (Some b) d = Inr (c, M')"
  shows "sb_inv b M'" and "c = SBUFFER_SUCCESS \<longleftrightarrow> avail (snodes M) \<noteq> []"
    and "c = SBUFFER_SUCCESS \<Longrightarrow> sb_entries M' b = sb_entries M b @ [fresh_entry d]"
    and "c \<noteq> SBUFFER_SUCCESS \<Longrightarrow> M' = M"
proof -
  obtain ns where ns: "sb_rep M b ns" "entries_ok (map snd ns)" "sb_entries M b = map snd ns"
    by (rule sb_invE[OF assms(1)])
  have "sb_inv b M' \<and> (c = SBUFFER_SUCCESS \<longleftrightarrow> avail (snodes M) \<noteq> [])
    \<and> (c = SBUFFER_SUCCESS \<longrightarrow> sb_entries M' b = sb_entries M b @ [fresh_entry d])
    \<and> (c \<noteq> SBUFFER_SUCCESS \<longrightarrow> M' = M)"
  proof (cases "avail (snodes M)")
    case Nil
    then show ?thesis using assms sbuffer_insert_full[OF Nil]
      by (auto simp: SBUFFER_FAILURE_def SBUFFER_SUCCESS_def)
  next
    case (Cons a as)
    obtain M1 where M1: "sbuffer_insert M (Some b) d = Inr (SBUFFER_SUCCESS, M1)"
      "sb_rep M1 b (ns @ [(a, fresh_entry d)])"
      by (rule sbuffer_insert_rep[OF ns(1) Cons, of d])
    have "entries_ok (map snd (ns @ [(a, fresh_entry d)]))"
      using entries_ok_insert[OF ns(2), of d] by (simp add: a_insert_def)
    then show ?thesis
      using assms(2) M1 Cons sb_invI[OF M1(2)] sb_rep_entries[OF M1(2)] ns(3) by simp
  qed
  then show "sb_inv b M'" "c = SBUFFER_SUCCESS \<longleftrightarrow> avail (snodes M) \<noteq> []"
    "c = SBUFFER_SUCCESS \<Longrightarrow> sb_entries M' b = sb_entries M b @ [fresh_entry d]"
    "c \<noteq> SBUFFER_SUCCESS \<Longrightarrow> M' = M" by blast+
qed

lemma sbuffer_insert_returns:
  assumes "sb_inv b M"
  shows "\<exists>c M'. sbuffer_insert M (Some b) d = Inr (c, M')"
proof -
  obtain ns where ns: "sb_rep M b ns" by (rule sb_invE[OF assms])
  show ?thesis
  proof (cases "avail (snodes M)")
    case Nil
    then show ?thesis using sbuffer_insert_full by blast
  next
    case (Cons a as)
    then show ?thesis using sbuffer_insert_rep[OF ns Cons, of d] by blast
  qed
qed

lemma sbuffer_remove_empty:
  assumes "sb_inv b M" "D \<noteq> S" "sb_pending b r M = []"
  shows "sbuffer_remove D S (td_of D S r) M (Some b) d = Inr (SBUFFER_NO_DATA, d, M)"
proof -
  obtain ns where ns: "sb_rep M b ns" "sb_entries M b = map snd ns"
    by (rule sb_invE[OF assms(1)])
  then show ?thesis
    using remove_as_empty[OF ns(1), of r d] assms(3) by (simp add: sbuffer_remove_as[OF assms(2) ns(1)])
qed

lemma sbuffer_remove_next:
  assumes "sb_inv b M" "D \<noteq> S" "sb_pending b r M = x # q"
  obtains M' where "sbuffer_remove D S (td_of D S r) M (Some b) d = Inr (SBUFFER_SUCCESS, x, M')"
    "sb_inv b M'" "sb_entries M' b = snd (a_remove r (sb_entries M b))"
proof -
  obtain ns where ns: "sb_rep M b ns" "entries_ok (map snd ns)" "sb_entries M b = map snd ns"
    by (rule sb_invE[OF assms(1)])
  have pend: "pending r (map snd ns) = x # q" using assms(3) ns(3) by simp
  then have ne: "ns \<noteq> []" by auto
  obtain M' ns' where M': "remove_as r M b (first_ptr ns NULL) d = Inr (SBUFFER_SUCCESS, x, M')"
    "sb_rep M' b ns'" "map snd ns' = snd (a_remove r (map snd ns))"
    by (rule remove_as_next[OF ns(1,2) pend])
  then have "sb_inv b M'"
    using a_remove_next(4)[OF ns(2) pend] sb_invI by metis
  then show ?thesis
    using that[of M'] M' ne ns sb_rep_entries[OF M'(2)] sbuffer_remove_as[OF assms(2) ns(1)] by simp
qed

interpretation sbq: broadcast_queue
  "\<lambda>M. sb_inv b M \<and> D \<noteq> S" "sb_pending b" "\<lambda>M. sbuffer_insert M (Some b)"
  "\<lambda>r M. sbuffer_remove D S (td_of D S r) M (Some b)" for b D S
proof (unfold_locales, goal_cases)
  case (1 M d)
  then show ?case using sbuffer_insert_returns by blast
next
  case (2 M d c M')
  then show ?case using sbuffer_insert_inv(1) by blast
next
  case (3 M d c M' r)
  then show ?case using sbuffer_insert_inv(3,4)[of b M d c M'] by (auto simp: SBUFFER_SUCCESS_def)
next
  case (4 M r d)
  then show ?case using sbuffer_remove_empty[of b M D S r d] by (simp add: SBUFFER_NO_DATA_def)
next
  case (5 M r x q d)
  then obtain M' where M': "sbuffer_remove D S (td_of D S r) M (Some b) d = Inr (SBUFFER_SUCCESS, x, M')"
    "sb_inv b M'" "sb_entries M' b = snd (a_remove r (sb_entries M b))"
    using sbuffer_remove_next[of b M D S r x q d] by blast
  have ok: "entries_ok (sb_entries M b)" using 5(1) by (simp add: sb_inv_def)
  show ?case using M' a_remove_next(2,3)[OF ok 5(2)] 5(1) by (simp add: SBUFFER_SUCCESS_def)
qed

end
