(* ===== verification/Sbuffer_Props.thy ===== *)
theory Sbuffer_Props
  imports Sbuffer_Proofs
begin

text \<open>
  What the shared buffer promises to the threads that use it, stated over the operations of
  \<open>sbuffer.c\<close>, with a concrete run for each.
\<close>

section \<open>A concrete buffer\<close>

definition demo_fresh :: sbmem where
  "demo_fresh = \<lparr>sbufs = empty_store 1, snodes = empty_store 2\<rparr>"

definition demo_empty :: sbmem where
  "demo_empty = \<lparr>sbufs = \<lparr>cells = [0 \<mapsto> \<lparr>sb_head = NULL, sb_tail = NULL\<rparr>], avail = [], msize = 1\<rparr>,
     snodes = empty_store 2\<rparr>"

definition demo_data :: sensor_data_t where
  "demo_data = \<lparr>id = 15, val = d_of_int 20, ts = 1535998033\<rparr>"

lemma demo_init: "sbuffer_init demo_fresh = Inr (SBUFFER_SUCCESS, Some 0, demo_empty)"
  by (simp add: sbuffer_init_def demo_fresh_def demo_empty_def malloc_def empty_store_def mem_simps
      junk_sbuffer_def)

lemma demo_rep: "sb_rep demo_empty 0 []"
proof -
  obtain b M where "sbuffer_init demo_fresh = Inr (SBUFFER_SUCCESS, Some b, M)" "sb_rep M b []"
    by (rule sbuffer_init_rep[of demo_fresh])
      (simp_all add: demo_fresh_def)
  then show ?thesis by (simp add: demo_init)
qed

lemma demo_inv: "sb_inv 0 demo_empty" "sb_entries demo_empty 0 = []"
  using sb_invI[OF demo_rep] sb_rep_entries[OF demo_rep] by simp_all

section \<open>Properties\<close>

text \<open>
  C1: After \<open>sbuffer_init\<close>, in every interleaving of insertions by the connection manager with reads by
  the data manager and the storage manager, all calls return; each of the two readers has been given
  exactly the accepted measurements, in order and once, up to those it has still to read; and the nodes
  in memory are as many as the slower reader has still to read.
\<close>

theorem sbuffer_exactly_once:
  assumes "D \<noteq> S"
    and "sbuffer_init \<lparr>sbufs = empty_store nb, snodes = empty_store nn\<rparr> = Inr (c, Some b, M)"
  shows "\<exists>acc del M'. bq_run (\<lambda>M. sbuffer_insert M (Some b))
        (\<lambda>r M. sbuffer_remove D S (td_of D S r) M (Some b)) no_data M calls = Inr (acc, del, M')
    \<and> acc = delivered Data_Reader del @ sb_pending b Data_Reader M'
    \<and> acc = delivered Storage_Reader del @ sb_pending b Storage_Reader M'
    \<and> card (dom (cells (snodes M')))
        = max (length (sb_pending b Data_Reader M')) (length (sb_pending b Storage_Reader M'))"
proof -
  have nb: "avail (empty_store nb :: sbuffer_t store) \<noteq> []"
    using assms(2) by (cases "nb = 0") (simp_all add: sbuffer_init_def malloc_def)
  obtain b' M1 where
    "sbuffer_init \<lparr>sbufs = empty_store nb, snodes = empty_store nn\<rparr> = Inr (SBUFFER_SUCCESS, Some b', M1)"
    "sb_rep M1 b' []"
    by (rule sbuffer_init_rep[of "\<lparr>sbufs = empty_store nb, snodes = empty_store nn\<rparr>"])
      (use nb in simp_all)
  then have "sb_rep M b []" using assms(2) by simp
  then have inv: "sb_inv b M \<and> D \<noteq> S" and none: "\<And>r. sb_pending b r M = []"
    using assms(1) sb_invI sb_rep_entries by fastforce+
  obtain acc del M' where run: "bq_run (\<lambda>M. sbuffer_insert M (Some b))
        (\<lambda>r M. sbuffer_remove D S (td_of D S r) M (Some b)) no_data M calls = Inr (acc, del, M')"
    "sb_inv b M'" "\<And>r. sb_pending b r M @ acc = delivered r del @ sb_pending b r M'"
    using sbq.exactly_once[OF inv, of no_data calls] by blast
  obtain ns where ns: "sb_rep M' b ns" "entries_ok (map snd ns)" "sb_entries M' b = map snd ns"
    by (rule sb_invE[OF run(2)])
  have "card (dom (cells (snodes M'))) = length (sb_entries M' b)"
    using ns(1,3) distinct_card[of "addrs ns"] by (simp add: sb_rep_def)
  then show ?thesis
    using run(1) run(3)[of Data_Reader] run(3)[of Storage_Reader] none length_entries[OF ns(2)] ns(3)
    by auto
qed

theorem sbuffer_exactly_once_witness:
  "\<exists>acc del M'. bq_run (\<lambda>M. sbuffer_insert M (Some 0))
        (\<lambda>r M. sbuffer_remove 1 2 (td_of 1 2 r) M (Some 0)) no_data demo_empty
        [Insert demo_data, Read Storage_Reader, Read Data_Reader, Read Data_Reader]
      = Inr (acc, del, M')
    \<and> acc = delivered Data_Reader del @ sb_pending 0 Data_Reader M'"
  using sbuffer_exactly_once[of 1 2 1 2 SBUFFER_SUCCESS 0 demo_empty
      "[Insert demo_data, Read Storage_Reader, Read Data_Reader, Read Data_Reader]"]
    demo_init[unfolded demo_fresh_def] by auto

text \<open>
  C13: A read by one of the two reader threads gives the oldest measurement it has not seen, marks it for
  this reader only, and never touches what the other reader has still to see; the node that is freed is
  the head of the list, so no pointer to freed memory remains. With nothing unread the code is
  \<open>SBUFFER_NO_DATA\<close> and neither the buffer nor \<open>*data\<close> changes.
\<close>

theorem sbuffer_remove_fifo:
  assumes "sb_inv b M" "D \<noteq> S"
  shows "case sb_pending b r M of
      [] \<Rightarrow> sbuffer_remove D S (td_of D S r) M (Some b) data = Inr (SBUFFER_NO_DATA, data, M)
    | x # q \<Rightarrow> (\<exists>M'. sbuffer_remove D S (td_of D S r) M (Some b) data = Inr (SBUFFER_SUCCESS, x, M')
        \<and> sb_inv b M' \<and> sb_pending b r M' = q \<and> sb_pending b (other r) M' = sb_pending b (other r) M)"
proof (cases "sb_pending b r M")
  case Nil
  then show ?thesis using sbuffer_remove_empty[OF assms] by simp
next
  case (Cons x q)
  then show ?thesis
    using sbq.rem_next[of b M D S r x q data] assms by (simp add: SBUFFER_SUCCESS_def)
qed

theorem sbuffer_remove_fifo_witness:
  "\<exists>B B'. sbuffer_insert demo_empty (Some 0) demo_data = Inr (SBUFFER_SUCCESS, B)
    \<and> sbuffer_remove 1 2 2 B (Some 0) no_data = Inr (SBUFFER_SUCCESS, demo_data, B')
    \<and> sb_pending 0 Storage_Reader B' = [] \<and> sb_pending 0 Data_Reader B' = [demo_data]"
proof -
  obtain c B where B: "sbuffer_insert demo_empty (Some 0) demo_data = Inr (c, B)"
    using sbuffer_insert_returns[OF demo_inv(1)] by blast
  have "avail (snodes demo_empty) \<noteq> []" by (simp add: demo_empty_def)
  then have inv: "sb_inv 0 B" "c = SBUFFER_SUCCESS" "sb_entries B 0 = [fresh_entry demo_data]"
    using sbuffer_insert_inv[OF demo_inv(1) B] demo_inv(2) by simp_all
  then have p: "sb_pending 0 r B = [demo_data]" for r by simp
  have "\<exists>B'. sbuffer_remove 1 2 2 B (Some 0) no_data = Inr (SBUFFER_SUCCESS, demo_data, B')
      \<and> sb_pending 0 Storage_Reader B' = [] \<and> sb_pending 0 Data_Reader B' = [demo_data]"
    using sbuffer_remove_fifo[OF inv(1), of 1 2 Storage_Reader no_data] unfolding p by (auto simp: td_of_def)
  then show ?thesis using B inv(2) by blast
qed

text \<open>
  An insertion appends the measurement, unread by both, when a node can be allocated, and otherwise
  fails with \<open>SBUFFER_FAILURE\<close> and leaves the buffer as it was.
\<close>

theorem sbuffer_insert_appends:
  assumes "sb_inv b M"
  shows "if avail (snodes M) = [] then sbuffer_insert M (Some b) data = Inr (SBUFFER_FAILURE, M)
    else \<exists>M'. sbuffer_insert M (Some b) data = Inr (SBUFFER_SUCCESS, M') \<and> sb_inv b M'
      \<and> sb_entries M' b = sb_entries M b @ [fresh_entry data]"
proof (cases "avail (snodes M) = []")
  case True
  then show ?thesis by (simp add: sbuffer_insert_full)
next
  case False
  obtain c M' where M': "sbuffer_insert M (Some b) data = Inr (c, M')"
    using sbuffer_insert_returns[OF assms] by blast
  then show ?thesis using sbuffer_insert_inv[OF assms M'] False by simp
qed

theorem sbuffer_insert_appends_witness:
  "\<exists>M'. sbuffer_insert demo_empty (Some 0) demo_data = Inr (SBUFFER_SUCCESS, M')
     \<and> sb_entries M' 0 = [fresh_entry demo_data]"
  using sbuffer_insert_appends[of 0 demo_empty demo_data] demo_inv
  by (auto simp: demo_empty_def empty_store_def)

text \<open>
  \<open>sbuffer_free\<close> on a buffer in use succeeds, sets the caller's pointer to \<open>NULL\<close> and frees the
  buffer and every node it still holds, whatever has been read.
\<close>

theorem sbuffer_free_releases_all:
  assumes "sb_inv b M"
  shows "\<exists>M'. sbuffer_free M (Some (Some b)) = Inr (SBUFFER_SUCCESS, Some NULL, M')
    \<and> dom (cells (snodes M')) = {} \<and> dom (cells (sbufs M')) = dom (cells (sbufs M)) - {b}
    \<and> length (avail (snodes M')) = msize (snodes M)"
proof -
  obtain ns where ns: "sb_rep M b ns" by (rule sb_invE[OF assms])
  obtain M' where M': "sbuffer_free M (Some (Some b)) = Inr (SBUFFER_SUCCESS, Some NULL, M')"
    "dom (cells (snodes M')) = {}" "dom (cells (sbufs M')) = dom (cells (sbufs M)) - {b}"
    "wf_store (snodes M')" "wf_store (sbufs M')" "msize (snodes M') = msize (snodes M)"
    by (rule sbuffer_free_rep[OF ns])
  then show ?thesis using card_live_avail[of "snodes M'"] by simp
qed

theorem sbuffer_free_releases_all_witness:
  "\<exists>M'. sbuffer_free demo_empty (Some (Some 0)) = Inr (SBUFFER_SUCCESS, Some NULL, M')
    \<and> dom (cells (sbufs M')) = {}"
  using sbuffer_free_releases_all[of 0 demo_empty] demo_inv by (auto simp: demo_empty_def)

text \<open>
  A thread other than the two readers gets nothing out of the buffer: a read by it fails (or
  reports an empty buffer) without changing the buffer or \<open>*data\<close>.
\<close>

theorem sbuffer_remove_foreign_thread:
  assumes "sb_inv b M" "self \<noteq> D" "self \<noteq> S"
  shows "sbuffer_remove D S self M (Some b) data
    = Inr (if sb_entries M b = [] then SBUFFER_NO_DATA else SBUFFER_FAILURE, data, M)"
proof -
  obtain ns where ns: "sb_rep M b ns" "sb_entries M b = map snd ns" by (rule sb_invE[OF assms(1)])
  then show ?thesis using sbuffer_remove_other_thread[OF assms(2,3) ns(1)] by simp
qed

theorem sbuffer_remove_foreign_thread_witness:
  "sbuffer_remove 1 2 3 demo_empty (Some 0) demo_data = Inr (SBUFFER_NO_DATA, demo_data, demo_empty)"
  using sbuffer_remove_foreign_thread[of 0 demo_empty 3 1 2 demo_data] demo_inv by simp

text \<open>
  \<open>sbuffer_print_data\<close> prints every measurement in the buffer once, in order and numbered from 0,
  and succeeds.
\<close>

theorem sbuffer_print_all:
  assumes "sb_inv b M"
  shows "sbuffer_print_data M (Some b)
    = Inr (SBUFFER_SUCCESS, zip (map int [0..<length (sb_entries M b)]) (map e_data (sb_entries M b)))"
proof -
  obtain ns where ns: "sb_rep M b ns" "sb_entries M b = map snd ns" by (rule sb_invE[OF assms])
  then show ?thesis
    using print_loop_sseg[of "snodes M" ns "fuel (snodes M)" 0] sb_rep_length[OF ns(1)]
    by (simp add: sbuffer_print_data_def sb_rep_def mem_simps)
qed

theorem sbuffer_print_all_witness:
  "sbuffer_print_data demo_empty (Some 0) = Inr (SBUFFER_SUCCESS, [])"
  using sbuffer_print_all[of 0 demo_empty] demo_inv by simp

end
