(* ===== verification/Dplist.thy ===== *)
theory Dplist
  imports Memory
begin

text \<open>
  The doubly linked pointer list (\<open>lib/dplist.h\<close>, \<open>lib/dplist.c\<close>). A list is a structure with a head
  pointer and three callbacks; its nodes are linked both ways and hold a \<open>void *\<close> to their element.
  List structures, nodes and elements live in three stores (\<open>'e dmem\<close>; \<open>'e\<close> is the type of the elements
  a client stores). The callbacks work on the element store.

  Every function takes the memory and returns it with its result. A failed
  \<open>DPLIST_ERR_HANDLER\<close> check is \<open>Assert_Failed\<close>. The counters are C \<open>int\<close>s; a list has at most
  as many nodes as there are addresses, so they stay below \<open>msize\<close>.
\<close>

section \<open>Types\<close>

record dplist_node_t =
  nd_prev :: ptr
  nd_next :: ptr
  nd_element :: ptr

record 'e dplist_t =
  dl_head :: ptr
  element_copy :: "ptr \<Rightarrow> 'e store \<Rightarrow> (ptr \<times> 'e store) res"
  element_free :: "ptr \<Rightarrow> 'e store \<Rightarrow> (ptr \<times> 'e store) res"
  element_compare :: "ptr \<Rightarrow> ptr \<Rightarrow> 'e store \<Rightarrow> int res"

record 'e dmem =
  lists :: "'e dplist_t store"
  nodes :: "dplist_node_t store"
  elems :: "'e store"

text \<open>Contents of a freshly allocated node; every field is written before it is read.\<close>

definition junk_node :: dplist_node_t where
  "junk_node = \<lparr>nd_prev = NULL, nd_next = NULL, nd_element = NULL\<rparr>"

text \<open>Assignments \<open>p->field = v\<close> to a node and \<open>list->head = p\<close>.\<close>

definition set_node :: "(dplist_node_t \<Rightarrow> dplist_node_t) \<Rightarrow> 'e dmem \<Rightarrow> ptr \<Rightarrow> 'e dmem res" where
  "set_node f H p = bindR (assign f (nodes H) p) (\<lambda>N. Inr (H\<lparr>nodes := N\<rparr>))"

definition set_head :: "ptr \<Rightarrow> 'e dmem \<Rightarrow> ptr \<Rightarrow> 'e dmem res" where
  "set_head p H list = bindR (assign (\<lambda>l. l\<lparr>dl_head := p\<rparr>) (lists H) list) (\<lambda>L. Inr (H\<lparr>lists := L\<rparr>))"

section \<open>Creation and release\<close>

definition dpl_create ::
  "(ptr \<Rightarrow> 'e store \<Rightarrow> (ptr \<times> 'e store) res) \<Rightarrow> (ptr \<Rightarrow> 'e store \<Rightarrow> (ptr \<times> 'e store) res)
   \<Rightarrow> (ptr \<Rightarrow> ptr \<Rightarrow> 'e store \<Rightarrow> int res) \<Rightarrow> 'e dmem \<Rightarrow> (ptr \<times> 'e dmem) res" where
  "dpl_create copy free' compare H =
     (case malloc \<lparr>dl_head = NULL, element_copy = copy, element_free = free',
          element_compare = compare\<rparr> (lists H) of
        None \<Rightarrow> Inl Assert_Failed
      | Some (l, L) \<Rightarrow> Inr (Some l, H\<lparr>lists := L\<rparr>))"

fun dpl_free_loop :: "nat \<Rightarrow> 'e dplist_t \<Rightarrow> bool \<Rightarrow> 'e dmem \<Rightarrow> ptr \<Rightarrow> 'e dmem res" where
  "dpl_free_loop 0 l free_element H this_node = Inl Diverges"
| "dpl_free_loop (Suc k) l free_element H this_node =
     (if this_node = NULL then Inr H
      else
        bindR (load (nodes H) this_node) (\<lambda>n.
        bindR (if free_element
               then bindR (element_free l (nd_element n) (elems H)) (\<lambda>(e, E).
                    set_node (\<lambda>n. n\<lparr>nd_element := e\<rparr>) (H\<lparr>elems := E\<rparr>) this_node)
               else Inr H) (\<lambda>H.
        bindR (load (nodes H) this_node) (\<lambda>n.
        bindR (free (nodes H) this_node) (\<lambda>N.
        dpl_free_loop k l free_element (H\<lparr>nodes := N\<rparr>) (nd_next n))))))"

text \<open>
  \<open>dpl_free\<close> takes a pointer to the caller's list pointer (\<open>None\<close> when that pointer is \<open>NULL\<close>) and
  returns what \<open>*list\<close> is set to.
\<close>

definition dpl_free :: "'e dmem \<Rightarrow> ptr option \<Rightarrow> bool \<Rightarrow> (ptr \<times> 'e dmem) res" where
  "dpl_free H list free_element =
     bindR (assertR (list \<noteq> None)) (\<lambda>_.
     bindR (load (lists H) (the list)) (\<lambda>l.
     bindR (dpl_free_loop (fuel (nodes H)) l free_element H (dl_head l)) (\<lambda>H.
     bindR (free (lists H) (the list)) (\<lambda>L.
     Inr (NULL, H\<lparr>lists := L\<rparr>)))))"

section \<open>Size and access by index\<close>

fun size_loop :: "nat \<Rightarrow> dplist_node_t store \<Rightarrow> ptr \<Rightarrow> int \<Rightarrow> int res" where
  "size_loop 0 N dummy count = Inl Diverges"
| "size_loop (Suc k) N dummy count =
     bindR (load N dummy) (\<lambda>n.
     if nd_next n = NULL then Inr count else size_loop k N (nd_next n) (count + 1))"

definition dpl_size :: "'e dmem \<Rightarrow> ptr \<Rightarrow> int res" where
  "dpl_size H list =
     bindR (load (lists H) list) (\<lambda>l.
     if dl_head l = NULL then Inr 0
     else size_loop (fuel (nodes H)) (nodes H) (dl_head l) 1)"

fun index_loop :: "nat \<Rightarrow> dplist_node_t store \<Rightarrow> ptr \<Rightarrow> int \<Rightarrow> int \<Rightarrow> ptr res" where
  "index_loop 0 N dummy count index = Inl Diverges"
| "index_loop (Suc k) N dummy count index =
     bindR (load N dummy) (\<lambda>n.
     if nd_next n = NULL then Inr dummy
     else if index \<le> count then Inr dummy
     else index_loop k N (nd_next n) (count + 1) index)"

definition dpl_get_reference_at_index :: "'e dmem \<Rightarrow> ptr \<Rightarrow> int \<Rightarrow> ptr res" where
  "dpl_get_reference_at_index H list index =
     bindR (assertR (list \<noteq> NULL)) (\<lambda>_.
     bindR (load (lists H) list) (\<lambda>l.
     if dl_head l = NULL then Inr NULL
     else index_loop (fuel (nodes H)) (nodes H) (dl_head l) 0 index))"

definition dpl_get_element_at_index :: "'e dmem \<Rightarrow> ptr \<Rightarrow> int \<Rightarrow> ptr res" where
  "dpl_get_element_at_index H list index =
     bindR (assertR (list \<noteq> NULL)) (\<lambda>_.
     bindR (load (lists H) list) (\<lambda>l.
     if dl_head l = NULL then Inr NULL
     else bindR (index_loop (fuel (nodes H)) (nodes H) (dl_head l) 0 index) (\<lambda>dummy.
          bindR (load (nodes H) dummy) (\<lambda>n. Inr (nd_element n)))))"

fun element_loop ::
  "nat \<Rightarrow> 'e dplist_t \<Rightarrow> 'e dmem \<Rightarrow> ptr \<Rightarrow> ptr \<Rightarrow> int \<Rightarrow> int res" where
  "element_loop 0 l H element dummy index = Inl Diverges"
| "element_loop (Suc k) l H element dummy index =
     bindR (load (nodes H) dummy) (\<lambda>n.
     if nd_next n \<noteq> NULL then
       bindR (element_compare l (nd_element n) element (elems H)) (\<lambda>c.
       if c = 0 then Inr index
       else element_loop k l H element (nd_next n) (index + 1))
     else
       bindR (element_compare l (nd_element n) element (elems H)) (\<lambda>c.
       if c = 0 then Inr index else Inr (-1)))"

definition dpl_get_index_of_element :: "'e dmem \<Rightarrow> ptr \<Rightarrow> ptr \<Rightarrow> int res" where
  "dpl_get_index_of_element H list element =
     bindR (assertR (list \<noteq> NULL)) (\<lambda>_.
     bindR (load (lists H) list) (\<lambda>l.
     if dl_head l = NULL then Inr (-1)
     else element_loop (fuel (nodes H)) l H element (dl_head l) 0))"

section \<open>Insertion and removal by index\<close>

definition link_node :: "'e dmem \<Rightarrow> ptr \<Rightarrow> ptr \<Rightarrow> int \<Rightarrow> 'e dmem res" where
  "link_node H list list_node index =
     bindR (load (lists H) list) (\<lambda>l.
     if dl_head l = NULL then
       bindR (set_node (\<lambda>n. n\<lparr>nd_prev := NULL\<rparr>) H list_node) (\<lambda>H.
       bindR (set_node (\<lambda>n. n\<lparr>nd_next := NULL\<rparr>) H list_node) (\<lambda>H.
       set_head list_node H list))
     else if index \<le> 0 then
       bindR (set_node (\<lambda>n. n\<lparr>nd_prev := NULL\<rparr>) H list_node) (\<lambda>H.
       bindR (set_node (\<lambda>n. n\<lparr>nd_next := dl_head l\<rparr>) H list_node) (\<lambda>H.
       bindR (set_node (\<lambda>n. n\<lparr>nd_prev := list_node\<rparr>) H (dl_head l)) (\<lambda>H.
       set_head list_node H list)))
     else
       bindR (dpl_get_reference_at_index H list index) (\<lambda>ref_at_index.
       bindR (assertR (ref_at_index \<noteq> NULL)) (\<lambda>_.
       bindR (dpl_size H list) (\<lambda>size.
       bindR (load (nodes H) ref_at_index) (\<lambda>r.
       if index < size then
         bindR (set_node (\<lambda>n. n\<lparr>nd_prev := nd_prev r\<rparr>) H list_node) (\<lambda>H.
         bindR (set_node (\<lambda>n. n\<lparr>nd_next := ref_at_index\<rparr>) H list_node) (\<lambda>H.
         bindR (set_node (\<lambda>n. n\<lparr>nd_next := list_node\<rparr>) H (nd_prev r)) (\<lambda>H.
         set_node (\<lambda>n. n\<lparr>nd_prev := list_node\<rparr>) H ref_at_index)))
       else
         bindR (assertR (nd_next r = NULL)) (\<lambda>_.
         bindR (set_node (\<lambda>n. n\<lparr>nd_next := NULL\<rparr>) H list_node) (\<lambda>H.
         bindR (set_node (\<lambda>n. n\<lparr>nd_prev := ref_at_index\<rparr>) H list_node) (\<lambda>H.
         set_node (\<lambda>n. n\<lparr>nd_next := list_node\<rparr>) H ref_at_index))))))))"

definition dpl_insert_at_index ::
  "'e dmem \<Rightarrow> ptr \<Rightarrow> ptr \<Rightarrow> int \<Rightarrow> bool \<Rightarrow> (ptr \<times> 'e dmem) res" where
  "dpl_insert_at_index H list element index insert_copy =
     bindR (assertR (list \<noteq> NULL)) (\<lambda>_.
     bindR (assertR (element \<noteq> NULL)) (\<lambda>_.
     case malloc junk_node (nodes H) of
       None \<Rightarrow> Inl Assert_Failed
     | Some (list_node, N) \<Rightarrow>
         bindR (load (lists H) list) (\<lambda>l.
         bindR (if insert_copy then element_copy l element (elems H)
                else Inr (element, elems H)) (\<lambda>(e, E).
         bindR (set_node (\<lambda>n. n\<lparr>nd_element := e\<rparr>) (H\<lparr>nodes := N, elems := E\<rparr>)
                  (Some list_node)) (\<lambda>H.
         bindR (link_node H list (Some list_node) index) (\<lambda>H.
         Inr (list, H)))))))"

text \<open>The unlinking part of \<open>dpl_remove_at_index\<close>, with the node \<open>dummy\<close> it has taken out.\<close>

definition unlink_at :: "'e dmem \<Rightarrow> ptr \<Rightarrow> int \<Rightarrow> (ptr \<times> 'e dmem) res" where
  "unlink_at H list index =
     bindR (dpl_size H list) (\<lambda>size.
     if 1 < size then
       if index \<le> 0 then
         bindR (dpl_get_reference_at_index H list 0) (\<lambda>dummy.
         bindR (load (nodes H) dummy) (\<lambda>n.
         if nd_next n \<noteq> NULL then
           bindR (set_head (nd_next n) H list) (\<lambda>H.
           bindR (set_node (\<lambda>n. n\<lparr>nd_prev := NULL\<rparr>) H (nd_next n)) (\<lambda>H.
           Inr (dummy, H)))
         else bindR (set_head NULL H list) (\<lambda>H. Inr (dummy, H))))
       else
         bindR (dpl_get_reference_at_index H list index) (\<lambda>dummy.
         bindR (load (nodes H) dummy) (\<lambda>n.
         if nd_next n \<noteq> NULL then
           bindR (set_node (\<lambda>m. m\<lparr>nd_prev := nd_prev n\<rparr>) H (nd_next n)) (\<lambda>H.
           bindR (load (nodes H) dummy) (\<lambda>n.
           bindR (set_node (\<lambda>m. m\<lparr>nd_next := nd_next n\<rparr>) H (nd_prev n)) (\<lambda>H.
           Inr (dummy, H))))
         else
           bindR (set_node (\<lambda>m. m\<lparr>nd_next := NULL\<rparr>) H (nd_prev n)) (\<lambda>H. Inr (dummy, H))))
     else
       bindR (dpl_get_reference_at_index H list 0) (\<lambda>dummy.
       bindR (set_head NULL H list) (\<lambda>H. Inr (dummy, H))))"

definition dpl_remove_at_index ::
  "'e dmem \<Rightarrow> ptr \<Rightarrow> int \<Rightarrow> bool \<Rightarrow> (ptr \<times> 'e dmem) res" where
  "dpl_remove_at_index H list index free_element =
     bindR (assertR (list \<noteq> NULL)) (\<lambda>_.
     bindR (load (lists H) list) (\<lambda>l.
     if dl_head l = NULL then Inr (list, H)
     else
       bindR (unlink_at H list index) (\<lambda>(dummy, H).
       bindR (if free_element
              then bindR (load (nodes H) dummy) (\<lambda>n.
                   bindR (element_free l (nd_element n) (elems H)) (\<lambda>(e, E).
                   set_node (\<lambda>n. n\<lparr>nd_element := e\<rparr>) (H\<lparr>elems := E\<rparr>) dummy))
              else Inr H) (\<lambda>H.
       bindR (free (nodes H) dummy) (\<lambda>N.
       Inr (list, H\<lparr>nodes := N\<rparr>))))))"

section \<open>Navigation by reference\<close>

definition dpl_get_first_reference :: "'e dmem \<Rightarrow> ptr \<Rightarrow> ptr res" where
  "dpl_get_first_reference H list =
     bindR (assertR (list \<noteq> NULL)) (\<lambda>_.
     bindR (load (lists H) list) (\<lambda>l.
     if dl_head l = NULL then Inr NULL else Inr (dl_head l)))"

definition dpl_get_last_reference :: "'e dmem \<Rightarrow> ptr \<Rightarrow> ptr res" where
  "dpl_get_last_reference H list =
     bindR (assertR (list \<noteq> NULL)) (\<lambda>_.
     bindR (load (lists H) list) (\<lambda>l.
     if dl_head l = NULL then Inr NULL
     else bindR (dpl_size H list) (\<lambda>size. dpl_get_reference_at_index H list (size - 1))))"

fun next_loop :: "nat \<Rightarrow> dplist_node_t store \<Rightarrow> ptr \<Rightarrow> ptr \<Rightarrow> ptr res" where
  "next_loop 0 N reference dummy = Inl Diverges"
| "next_loop (Suc k) N reference dummy =
     bindR (load N dummy) (\<lambda>n.
     if nd_next n \<noteq> NULL then
       if dummy = reference then Inr (nd_next n) else next_loop k N reference (nd_next n)
     else Inr NULL)"

definition dpl_get_next_reference :: "'e dmem \<Rightarrow> ptr \<Rightarrow> ptr \<Rightarrow> ptr res" where
  "dpl_get_next_reference H list reference =
     bindR (assertR (list \<noteq> NULL)) (\<lambda>_.
     bindR (load (lists H) list) (\<lambda>l.
     if dl_head l = NULL \<or> reference = NULL then Inr NULL
     else next_loop (fuel (nodes H)) (nodes H) reference (dl_head l)))"

text \<open>
  The loop that three functions share: walk to the node \<open>reference\<close>. \<open>Inr NULL\<close> when it is not in
  the list, with the last node tested after the loop.
\<close>

fun find_loop :: "nat \<Rightarrow> dplist_node_t store \<Rightarrow> ptr \<Rightarrow> ptr \<Rightarrow> int \<Rightarrow> (int \<times> dplist_node_t) option res" where
  "find_loop 0 N reference dummy index = Inl Diverges"
| "find_loop (Suc k) N reference dummy index =
     bindR (load N dummy) (\<lambda>n.
     if nd_next n \<noteq> NULL then
       if dummy = reference then Inr (Some (index, n))
       else find_loop k N reference (nd_next n) (index + 1)
     else if dummy = reference then Inr (Some (index, n)) else Inr None)"

definition dpl_get_previous_reference :: "'e dmem \<Rightarrow> ptr \<Rightarrow> ptr \<Rightarrow> ptr res" where
  "dpl_get_previous_reference H list reference =
     bindR (assertR (list \<noteq> NULL)) (\<lambda>_.
     bindR (load (lists H) list) (\<lambda>l.
     if dl_head l = NULL then Inr NULL
     else if reference = NULL then
       bindR (dpl_size H list) (\<lambda>size. dpl_get_reference_at_index H list (size - 1))
     else
       bindR (find_loop (fuel (nodes H)) (nodes H) reference (dl_head l) 0) (\<lambda>f.
       case f of Some (index, n) \<Rightarrow> Inr (nd_prev n) | None \<Rightarrow> Inr NULL)))"

definition dpl_get_element_at_reference :: "'e dmem \<Rightarrow> ptr \<Rightarrow> ptr \<Rightarrow> ptr res" where
  "dpl_get_element_at_reference H list reference =
     bindR (assertR (list \<noteq> NULL)) (\<lambda>_.
     bindR (load (lists H) list) (\<lambda>l.
     if dl_head l = NULL then Inr NULL
     else if reference = NULL then
       bindR (dpl_size H list) (\<lambda>size. dpl_get_element_at_index H list (size - 1))
     else
       bindR (find_loop (fuel (nodes H)) (nodes H) reference (dl_head l) 0) (\<lambda>f.
       case f of Some (index, n) \<Rightarrow> Inr (nd_element n) | None \<Rightarrow> Inr NULL)))"

definition dpl_get_reference_of_element :: "'e dmem \<Rightarrow> ptr \<Rightarrow> ptr \<Rightarrow> ptr res" where
  "dpl_get_reference_of_element H list element =
     bindR (assertR (list \<noteq> NULL)) (\<lambda>_.
     bindR (load (lists H) list) (\<lambda>l.
     if dl_head l = NULL then Inr NULL
     else
       bindR (dpl_get_index_of_element H list element) (\<lambda>index.
       if index = -1 then Inr NULL else dpl_get_reference_at_index H list index)))"

definition dpl_get_index_of_reference :: "'e dmem \<Rightarrow> ptr \<Rightarrow> ptr \<Rightarrow> int res" where
  "dpl_get_index_of_reference H list reference =
     bindR (assertR (list \<noteq> NULL)) (\<lambda>_.
     bindR (load (lists H) list) (\<lambda>l.
     if dl_head l = NULL then Inr (-1)
     else if reference = NULL then bindR (dpl_size H list) (\<lambda>size. Inr (size - 1))
     else
       bindR (find_loop (fuel (nodes H)) (nodes H) reference (dl_head l) 0) (\<lambda>f.
       case f of Some (index, n) \<Rightarrow> Inr index | None \<Rightarrow> Inr (-1))))"

section \<open>Insertion and removal by reference and by element\<close>

definition dpl_insert_at_reference ::
  "'e dmem \<Rightarrow> ptr \<Rightarrow> ptr \<Rightarrow> ptr \<Rightarrow> bool \<Rightarrow> (ptr \<times> 'e dmem) res" where
  "dpl_insert_at_reference H list element reference insert_copy =
     bindR (assertR (list \<noteq> NULL)) (\<lambda>_.
     if reference = NULL then
       bindR (dpl_size H list) (\<lambda>size. dpl_insert_at_index H list element size insert_copy)
     else
       bindR (dpl_get_index_of_reference H list reference) (\<lambda>index.
       if index \<noteq> -1 then dpl_insert_at_index H list element index insert_copy
       else Inr (list, H)))"

definition dpl_remove_at_reference ::
  "'e dmem \<Rightarrow> ptr \<Rightarrow> ptr \<Rightarrow> bool \<Rightarrow> (ptr \<times> 'e dmem) res" where
  "dpl_remove_at_reference H list reference free_element =
     bindR (assertR (list \<noteq> NULL)) (\<lambda>_.
     bindR (load (lists H) list) (\<lambda>l.
     if dl_head l = NULL then Inr (list, H)
     else if reference = NULL then
       bindR (dpl_size H list) (\<lambda>size. dpl_remove_at_index H list (size - 1) free_element)
     else
       bindR (dpl_get_index_of_reference H list reference) (\<lambda>index.
       if index \<noteq> -1 then dpl_remove_at_index H list index free_element
       else Inr (list, H))))"

definition dpl_remove_element ::
  "'e dmem \<Rightarrow> ptr \<Rightarrow> ptr \<Rightarrow> bool \<Rightarrow> (ptr \<times> 'e dmem) res" where
  "dpl_remove_element H list element free_element =
     bindR (assertR (list \<noteq> NULL)) (\<lambda>_.
     bindR (load (lists H) list) (\<lambda>l.
     if dl_head l = NULL then Inr (list, H)
     else
       bindR (dpl_get_index_of_element H list element) (\<lambda>index.
       if index \<noteq> -1 then dpl_remove_at_index H list index free_element
       else Inr (list, H))))"

section \<open>Sorted insertion\<close>

text \<open>
  One pass of the bubble sort: from \<open>dummy\<close> up to the node whose successor is \<open>ldummy\<close>, swapping the
  elements of neighbours. It returns the node where it stops and whether it has swapped.
\<close>

fun bubble_pass ::
  "nat \<Rightarrow> 'e dplist_t \<Rightarrow> 'e dmem \<Rightarrow> ptr \<Rightarrow> ptr \<Rightarrow> bool \<Rightarrow> (ptr \<times> bool \<times> 'e dmem) res" where
  "bubble_pass 0 l H ldummy dummy swapped = Inl Diverges"
| "bubble_pass (Suc k) l H ldummy dummy swapped =
     bindR (load (nodes H) dummy) (\<lambda>n.
     if nd_next n = ldummy then Inr (dummy, swapped, H)
     else
       bindR (load (nodes H) (nd_next n)) (\<lambda>m.
       bindR (element_compare l (nd_element n) (nd_element m) (elems H)) (\<lambda>c.
       if c = 1 then
         bindR (set_node (\<lambda>x. x\<lparr>nd_element := nd_element m\<rparr>) H dummy) (\<lambda>H.
         bindR (set_node (\<lambda>x. x\<lparr>nd_element := nd_element n\<rparr>) H (nd_next n)) (\<lambda>H.
         bubble_pass k l H ldummy (nd_next n) True))
       else bubble_pass k l H ldummy (nd_next n) swapped)))"

fun bubble_loop :: "nat \<Rightarrow> 'e dplist_t \<Rightarrow> 'e dmem \<Rightarrow> ptr \<Rightarrow> 'e dmem res" where
  "bubble_loop 0 l H ldummy = Inl Diverges"
| "bubble_loop (Suc k) l H ldummy =
     bindR (bubble_pass (fuel (nodes H)) l H ldummy (dl_head l) False) (\<lambda>(dummy, swapped, H).
     if swapped then bubble_loop k l H dummy else Inr H)"

text \<open>The index of the first node that compares greater than the element, or one past the end.\<close>

fun sorted_index ::
  "nat \<Rightarrow> 'e dplist_t \<Rightarrow> 'e dmem \<Rightarrow> ptr \<Rightarrow> ptr \<Rightarrow> int \<Rightarrow> int option res" where
  "sorted_index 0 l H element dummy index = Inl Diverges"
| "sorted_index (Suc k) l H element dummy index =
     (if dummy = NULL then Inr None
      else
        bindR (load (nodes H) dummy) (\<lambda>n.
        bindR (element_compare l (nd_element n) element (elems H)) (\<lambda>c.
        if c = 1 then Inr (Some index)
        else if nd_next n \<noteq> NULL then sorted_index k l H element (nd_next n) (index + 1)
        else Inr (Some (index + 1)))))"

definition dpl_insert_sorted ::
  "'e dmem \<Rightarrow> ptr \<Rightarrow> ptr \<Rightarrow> bool \<Rightarrow> (ptr \<times> 'e dmem) res" where
  "dpl_insert_sorted H list element insert_copy =
     bindR (assertR (list \<noteq> NULL)) (\<lambda>_.
     bindR (load (lists H) list) (\<lambda>l.
     if dl_head l = NULL then dpl_insert_at_index H list element 0 insert_copy
     else
       bindR (bubble_loop (fuel (nodes H)) l H NULL) (\<lambda>H.
       bindR (sorted_index (fuel (nodes H)) l H element (dl_head l) 0) (\<lambda>r.
       case r of
         Some index \<Rightarrow> dpl_insert_at_index H list element index insert_copy
       | None \<Rightarrow> Inr (list, H)))))"

end
