(* ===== verification/Dplist_Rep.thy ===== *)
theory Dplist_Rep
  imports Dplist
begin

text \<open>
  The linked nodes of \<open>lib/dplist.c\<close> as a list: the representation predicate \<open>dpl_rep\<close> and what
  creation, size, access, insertion, removal and release by index do to the represented list.
\<close>

section \<open>Doubly linked segments\<close>

text \<open>
  A chain \<open>ns\<close> lists the nodes' addresses with their element pointers. In \<open>dseg m p ns q\<close> the first
  node's \<open>prev\<close> is \<open>p\<close>, the last node's \<open>next\<close> is \<open>q\<close>, and neighbours point to each other.
\<close>

fun dseg :: "(addr \<rightharpoonup> dplist_node_t) \<Rightarrow> ptr \<Rightarrow> (addr \<times> ptr) list \<Rightarrow> ptr \<Rightarrow> bool" where
  "dseg m p [] q = True"
| "dseg m p ((a, e) # ns) q =
     (m a = Some \<lparr>nd_prev = p, nd_next = first_ptr ns q, nd_element = e\<rparr> \<and> dseg m (Some a) ns q)"

text \<open>
  The list at \<open>l\<close> has the callbacks of \<open>cb\<close> and the nodes \<open>ns\<close>.
\<close>

definition dpl_rep :: "'e dmem \<Rightarrow> addr \<Rightarrow> 'e dplist_t \<Rightarrow> (addr \<times> ptr) list \<Rightarrow> bool" where
  "dpl_rep H l cb ns \<longleftrightarrow> wf_store (lists H) \<and> wf_store (nodes H)
     \<and> cells (lists H) l = Some (cb\<lparr>dl_head := first_ptr ns NULL\<rparr>)
     \<and> dseg (cells (nodes H)) NULL ns NULL \<and> distinct (addrs ns)"

text \<open>What an operation on the list at \<open>l\<close> leaves alone: other lists, and nodes outside \<open>A\<close>.\<close>

definition dpl_frame :: "addr \<Rightarrow> addr set \<Rightarrow> 'e dmem \<Rightarrow> 'e dmem \<Rightarrow> bool" where
  "dpl_frame l A H H' \<longleftrightarrow> (\<forall>l'. l' \<noteq> l \<longrightarrow> cells (lists H') l' = cells (lists H) l')
     \<and> (\<forall>b. b \<notin> A \<longrightarrow> cells (nodes H') b = cells (nodes H) b)"

lemma dseg_append [seg_simps]:
  "dseg m p (xs @ ys) q \<longleftrightarrow> dseg m p xs (first_ptr ys q) \<and> dseg m (last_ptr p xs) ys q"
proof (induction xs arbitrary: p)
  case (Cons x xs)
  then show ?case by (cases x) (simp add: conj_assoc)
qed simp

lemma dseg_upd [seg_simps]: "a \<notin> set (addrs ns) \<Longrightarrow> dseg (m(a := v)) p ns q = dseg m p ns q"
proof (induction ns arbitrary: p)
  case (Cons n ns)
  then show ?case by (cases n) simp
qed simp

lemma dseg_dom: "dseg m p ns q \<Longrightarrow> set (addrs ns) \<subseteq> dom m"
proof (induction ns arbitrary: p)
  case (Cons n ns)
  then show ?case by (cases n) auto
qed simp

lemma dpl_rep_length: "dpl_rep H l cb ns \<Longrightarrow> length ns < fuel (nodes H)"
  using distinct_lt_fuel[of "nodes H" "addrs ns"] dseg_dom[of "cells (nodes H)" NULL ns NULL]
  by (simp add: dpl_rep_def)

lemma dpl_rep_le_msize: "dpl_rep H l cb ns \<Longrightarrow> length ns \<le> msize (nodes H)"
  using dpl_rep_length by (fastforce simp: fuel_def)

lemma set_node_Some [mem_simps]:
  "cells (nodes H) a = Some v \<Longrightarrow>
   set_node f H (Some a) = Inr (H\<lparr>nodes := (nodes H)\<lparr>cells := (cells (nodes H))(a \<mapsto> f v)\<rparr>\<rparr>)"
  by (simp add: set_node_def mem_simps)

lemma set_head_Some [mem_simps]:
  "cells (lists H) l = Some v \<Longrightarrow>
   set_head p H (Some l) = Inr (H\<lparr>lists := (lists H)\<lparr>cells := (cells (lists H))(l \<mapsto> v\<lparr>dl_head := p\<rparr>)\<rparr>\<rparr>)"
  by (simp add: set_head_def mem_simps)

section \<open>Creation, size and access\<close>

lemma dpl_create_rep:
  assumes "wf_store (lists H)" "wf_store (nodes H)" "avail (lists H) = l # ls"
  obtains H' where "dpl_create copy fr cmp H = Inr (Some l, H')"
    "dpl_rep H' l \<lparr>dl_head = NULL, element_copy = copy, element_free = fr, element_compare = cmp\<rparr> []"
    "nodes H' = nodes H" "elems H' = elems H" "dpl_frame l {} H H'"
  using assms wf_malloc[of "lists H" "\<lparr>dl_head = NULL, element_copy = copy, element_free = fr,
      element_compare = cmp\<rparr>" l]
  by (simp add: dpl_create_def malloc_def dpl_rep_def dpl_frame_def)

lemma size_loop_dseg:
  "dseg (cells N) p ns NULL \<Longrightarrow> ns \<noteq> [] \<Longrightarrow> length ns \<le> k
   \<Longrightarrow> size_loop k N (first_ptr ns NULL) c = Inr (c + int (length ns) - 1)"
proof (induction ns arbitrary: k p c)
  case (Cons n ns)
  then show ?case by (cases n; cases k; cases ns) (auto simp: mem_simps)
qed simp

lemma dpl_size_rep: "dpl_rep H l cb ns \<Longrightarrow> dpl_size H (Some l) = Inr (int (length ns))"
  using size_loop_dseg[of "nodes H" NULL ns "fuel (nodes H)" 1] dpl_rep_length[of H l cb ns]
  by (cases "ns = []") (auto simp: dpl_size_def dpl_rep_def mem_simps)

text \<open>The position that an index selects: a negative one is the first, a big one the last.\<close>

definition clamp :: "int \<Rightarrow> nat \<Rightarrow> nat" where
  "clamp index n = min (nat index) (n - 1)"

lemma clamp_less [simp]: "0 < n \<Longrightarrow> clamp index n < n"
  by (auto simp: clamp_def)

lemma clamp_neg [simp]: "index \<le> 0 \<Longrightarrow> clamp index n = 0"
  by (simp add: clamp_def)

lemma clamp_last: "int n \<le> index + 1 \<Longrightarrow> clamp index n = n - 1"
  unfolding clamp_def by (rule min_absorb2) arith

lemma index_loop_dseg:
  "dseg (cells N) p ns NULL \<Longrightarrow> ns \<noteq> [] \<Longrightarrow> length ns \<le> k
   \<Longrightarrow> index_loop k N (first_ptr ns NULL) c index
      = Inr (Some (fst (ns ! clamp (index - c) (length ns))))"
proof (induction ns arbitrary: k p c)
  case (Cons n ns)
  obtain a e where n: "n = (a, e)" by (cases n)
  obtain j where k: "k = Suc j" using Cons.prems by (cases k) auto
  show ?case
  proof (cases "ns = [] \<or> index \<le> c")
    case True
    then show ?thesis using Cons.prems n k
      by (cases ns) (auto simp: mem_simps clamp_def)
  next
    case False
    then have "index_loop k N (first_ptr (n # ns) NULL) c index
        = index_loop j N (first_ptr ns NULL) (c + 1) index"
      using Cons.prems n k by (cases ns) (auto simp: mem_simps)
    also have "\<dots> = Inr (Some (fst (ns ! clamp (index - (c + 1)) (length ns))))"
      using Cons.prems False n k by (intro Cons.IH) auto
    also have "ns ! clamp (index - (c + 1)) (length ns) = (n # ns) ! clamp (index - c) (length (n # ns))"
    proof -
      have "clamp (index - c) (length (n # ns)) = Suc (clamp (index - (c + 1)) (length ns))"
        using False by (cases ns) (auto simp: clamp_def)
      then show ?thesis by simp
    qed
    finally show ?thesis .
  qed
qed simp

lemma dpl_reference_rep:
  assumes "dpl_rep H l cb ns" "ns \<noteq> []"
  shows "dpl_get_reference_at_index H (Some l) index
    = Inr (Some (fst (ns ! clamp index (length ns))))"
  using index_loop_dseg[of "nodes H" NULL ns "fuel (nodes H)" 0 index] dpl_rep_length[of H l cb ns] assms
  by (auto simp: dpl_get_reference_at_index_def dpl_rep_def mem_simps)

lemma dpl_reference_rep_Nil:
  "dpl_rep H l cb [] \<Longrightarrow> dpl_get_reference_at_index H (Some l) index = Inr NULL"
  by (simp add: dpl_get_reference_at_index_def dpl_rep_def mem_simps)

text \<open>The node at a position, with its neighbours.\<close>

lemma dpl_rep_nth:
  assumes "dpl_rep H l cb ns" "i < length ns"
  shows "cells (nodes H) (fst (ns ! i)) = Some \<lparr>nd_prev = last_ptr NULL (take i ns),
      nd_next = first_ptr (drop (Suc i) ns) NULL, nd_element = snd (ns ! i)\<rparr>"
proof -
  obtain a e where n: "ns ! i = (a, e)" by (cases "ns ! i")
  have "dseg (cells (nodes H)) NULL (take i ns @ (a, e) # drop (Suc i) ns) NULL"
    using assms split_at[of i ns] n by (simp add: dpl_rep_def)
  then show ?thesis using n by (simp add: seg_simps)
qed

lemma dpl_element_rep:
  assumes "dpl_rep H l cb ns"
  shows "dpl_get_element_at_index H (Some l) index
    = Inr (if ns = [] then NULL else snd (ns ! clamp index (length ns)))"
proof (cases "ns = []")
  case True
  then show ?thesis using assms by (simp add: dpl_get_element_at_index_def dpl_rep_def mem_simps)
next
  case False
  then show ?thesis
    using index_loop_dseg[of "nodes H" NULL ns "fuel (nodes H)" 0 index] dpl_rep_length[OF assms]
      dpl_rep_nth[OF assms, of "clamp index (length ns)"] assms
    by (auto simp: dpl_get_element_at_index_def dpl_rep_def mem_simps)
qed

section \<open>Linking a node\<close>

text \<open>
  What \<open>link_node\<close> leaves: the chain, and everything that is not a node of it or the head pointer.
\<close>

definition relinked :: "'e dmem \<Rightarrow> addr \<Rightarrow> addr set \<Rightarrow> 'e dmem \<Rightarrow> bool" where
  "relinked H l A H' \<longleftrightarrow> elems H' = elems H \<and> dpl_frame l A H H'
     \<and> dom (cells (nodes H')) = dom (cells (nodes H)) \<and> dom (cells (lists H')) = dom (cells (lists H))
     \<and> avail (nodes H') = avail (nodes H) \<and> msize (nodes H') = msize (nodes H)
     \<and> avail (lists H') = avail (lists H) \<and> msize (lists H') = msize (lists H)"

lemma link_node_empty:
  assumes rep: "dpl_rep H l cb []" and a: "cells (nodes H) a = Some v" "nd_element v = e"
  shows "\<exists>H'. link_node H (Some l) (Some a) index = Inr H' \<and> dpl_rep H' l cb [(a, e)]
    \<and> relinked H l {a} H'"
proof -
  have v: "v\<lparr>nd_prev := NULL, nd_next := NULL\<rparr> = \<lparr>nd_prev = NULL, nd_next = NULL, nd_element = e\<rparr>"
    using a(2) by (cases v) simp
  show ?thesis
    using rep a v by (auto simp: link_node_def dpl_rep_def mem_simps relinked_def dpl_frame_def wf_update)
qed

lemma link_node_first:
  assumes rep: "dpl_rep H l cb ((b, f) # ns)" and a: "cells (nodes H) a = Some v" "nd_element v = e"
    and new: "a \<notin> set (addrs ((b, f) # ns))" and index: "index \<le> 0"
  shows "\<exists>H'. link_node H (Some l) (Some a) index = Inr H' \<and> dpl_rep H' l cb ((a, e) # (b, f) # ns)
    \<and> relinked H l {a, b} H'"
proof -
  have v: "v\<lparr>nd_prev := NULL, nd_next := Some b\<rparr>
      = \<lparr>nd_prev = NULL, nd_next = Some b, nd_element = e\<rparr>"
    using a(2) by (cases v) simp
  show ?thesis
    using rep a v new index
    by (auto simp: link_node_def dpl_rep_def mem_simps relinked_def dpl_frame_def wf_updates seg_simps)
qed

lemma link_node_middle:
  assumes rep: "dpl_rep H l cb (xs @ (b, f) # (c, g) # ys)"
    and a: "cells (nodes H) a = Some v" "nd_element v = e"
    and new: "a \<notin> set (addrs (xs @ (b, f) # (c, g) # ys))" and index: "index = int (length xs) + 1"
  shows "\<exists>H'. link_node H (Some l) (Some a) index = Inr H'
    \<and> dpl_rep H' l cb (xs @ (b, f) # (a, e) # (c, g) # ys) \<and> relinked H l {a, b, c} H'"
proof -
  let ?ns = "xs @ (b, f) # (c, g) # ys"
  have nth: "?ns ! clamp index (length ?ns) = (c, g)"
    using index by (simp add: clamp_def nat_add_distrib nth_append)
  have ref: "dpl_get_reference_at_index H (Some l) index = Inr (Some c)"
    using dpl_reference_rep[OF rep, of index] unfolding nth by simp
  have size: "dpl_size H (Some l) = Inr (int (length ?ns))" by (rule dpl_size_rep[OF rep])
  have v: "v\<lparr>nd_prev := Some b, nd_next := Some c\<rparr>
      = \<lparr>nd_prev = Some b, nd_next = Some c, nd_element = e\<rparr>"
    using a(2) by (cases v) simp
  have "index > 0" "index < int (length ?ns)" using index by simp_all
  then show ?thesis
    using rep a v new
    by (auto simp: link_node_def dpl_rep_def ref size mem_simps relinked_def dpl_frame_def wf_updates
        seg_simps)
qed

lemma link_node_last:
  assumes rep: "dpl_rep H l cb (xs @ [(b, f)])" and a: "cells (nodes H) a = Some v" "nd_element v = e"
    and new: "a \<notin> set (addrs (xs @ [(b, f)]))" and index: "int (length xs) < index"
  shows "\<exists>H'. link_node H (Some l) (Some a) index = Inr H'
    \<and> dpl_rep H' l cb (xs @ [(b, f), (a, e)]) \<and> relinked H l {a, b} H'"
proof -
  let ?ns = "xs @ [(b, f)]"
  have nth: "?ns ! clamp index (length ?ns) = (b, f)"
    using index by (simp add: clamp_last)
  have ref: "dpl_get_reference_at_index H (Some l) index = Inr (Some b)"
    using dpl_reference_rep[OF rep, of index] unfolding nth by simp
  have size: "dpl_size H (Some l) = Inr (int (length ?ns))" by (rule dpl_size_rep[OF rep])
  have v: "v\<lparr>nd_next := NULL, nd_prev := Some b\<rparr>
      = \<lparr>nd_prev = Some b, nd_next = NULL, nd_element = e\<rparr>"
    using a(2) by (cases v) simp
  have "index > 0" "\<not> index < int (length ?ns)" using index by simp_all
  then show ?thesis
    using rep a v new
    by (auto simp: link_node_def dpl_rep_def ref size mem_simps relinked_def dpl_frame_def wf_updates
        seg_simps)
qed

text \<open>The position at which \<open>dpl_insert_at_index\<close> puts a node into a list of length \<open>n\<close>.\<close>

definition ins_pos :: "int \<Rightarrow> nat \<Rightarrow> nat" where
  "ins_pos index n = min (nat index) n"

definition insert_at :: "nat \<Rightarrow> 'x \<Rightarrow> 'x list \<Rightarrow> 'x list" where
  "insert_at k x xs = take k xs @ x # drop k xs"

lemma relinked_mono: "relinked H l A H' \<Longrightarrow> A \<subseteq> B \<Longrightarrow> relinked H l B H'"
  by (auto simp: relinked_def dpl_frame_def)

lemma link_node_rep:
  assumes rep: "dpl_rep H l cb ns" and a: "cells (nodes H) a = Some v" "nd_element v = e"
    and new: "a \<notin> set (addrs ns)"
  shows "\<exists>H'. link_node H (Some l) (Some a) index = Inr H'
    \<and> dpl_rep H' l cb (insert_at (ins_pos index (length ns)) (a, e) ns)
    \<and> relinked H l (insert a (set (addrs ns))) H'"
proof (cases "ns = [] \<or> index \<le> 0")
  case True
  show ?thesis
  proof (cases ns)
    case Nil
    then show ?thesis using link_node_empty[of H l cb a v e index] rep a by (simp add: insert_at_def)
  next
    case (Cons n ms)
    obtain b f where n: "n = (b, f)" by (cases n)
    have "index \<le> 0" using True Cons by simp
    then obtain H' where "link_node H (Some l) (Some a) index = Inr H'"
      "dpl_rep H' l cb ((a, e) # ns)" "relinked H l {a, b} H'"
      using link_node_first[of H l cb b f ms a v e index] rep a new Cons n by auto
    then show ?thesis using \<open>index \<le> 0\<close> Cons n
      by (auto simp: insert_at_def ins_pos_def elim: relinked_mono)
  qed
next
  case False
  show ?thesis
  proof (cases "index < int (length ns)")
    case True
    define i where "i = nat index - 1"
    have i: "Suc i < length ns" "index = int i + 1" using False True by (auto simp: i_def)
    obtain b f c g where n: "ns ! i = (b, f)" "ns ! Suc i = (c, g)"
      by (cases "ns ! i"; cases "ns ! Suc i")
    define xs ys where "xs = take i ns" and "ys = drop (Suc (Suc i)) ns"
    have "ns = take i ns @ drop i ns" by simp
    also have "drop i ns = (b, f) # (c, g) # ys"
      using i(1) n Cons_nth_drop_Suc[of i ns] Cons_nth_drop_Suc[of "Suc i" ns] by (simp add: ys_def)
    finally have ns: "ns = xs @ (b, f) # (c, g) # ys" by (simp only: xs_def)
    have len: "length xs = i" using i(1) by (simp add: xs_def)
    obtain H' where "link_node H (Some l) (Some a) index = Inr H'"
      "dpl_rep H' l cb (xs @ (b, f) # (a, e) # (c, g) # ys)" "relinked H l {a, b, c} H'"
      using link_node_middle[of H l cb xs b f c g ys a v e index] rep a new i(2) len
      unfolding ns by auto
    moreover have "insert_at (ins_pos index (length ns)) (a, e) ns
        = xs @ (b, f) # (a, e) # (c, g) # ys"
      using i len by (simp add: ns insert_at_def ins_pos_def nat_add_distrib)
    ultimately show ?thesis by (auto simp: ns elim!: relinked_mono)
  next
    case ge: False
    then obtain xs b f where ns: "ns = xs @ [(b, f)]"
      using False by (metis rev_exhaust surj_pair)
    obtain H' where "link_node H (Some l) (Some a) index = Inr H'"
      "dpl_rep H' l cb (xs @ [(b, f), (a, e)])" "relinked H l {a, b} H'"
      using link_node_last[of H l cb xs b f a v e index] rep a new ge unfolding ns by auto
    moreover have "insert_at (ins_pos index (length ns)) (a, e) ns = xs @ [(b, f), (a, e)]"
    proof -
      have "ins_pos index (length ns) = length ns" using ge unfolding ins_pos_def by arith
      then show ?thesis by (simp add: ns insert_at_def)
    qed
    ultimately show ?thesis by (auto simp: ns elim!: relinked_mono)
  qed
qed

section \<open>Insertion\<close>

text \<open>What the insertion puts into the node: the element, or the copy that \<open>element_copy\<close> makes.\<close>

definition stored_element :: "'e dplist_t \<Rightarrow> bool \<Rightarrow> ptr \<Rightarrow> 'e store \<Rightarrow> (ptr \<times> 'e store) res" where
  "stored_element cb insert_copy x E = (if insert_copy then element_copy cb x E else Inr (x, E))"

lemma dpl_insert_rep:
  assumes rep: "dpl_rep H l cb ns" and av: "avail (nodes H) = a # as"
    and e: "stored_element cb insert_copy (Some x) (elems H) = Inr (e, E)"
  shows "\<exists>H'. dpl_insert_at_index H (Some l) (Some x) index insert_copy = Inr (Some l, H')
    \<and> dpl_rep H' l cb (insert_at (ins_pos index (length ns)) (a, e) ns)
    \<and> elems H' = E \<and> dpl_frame l (insert a (set (addrs ns))) H H' \<and> avail (nodes H') = as
    \<and> dom (cells (nodes H')) = insert a (dom (cells (nodes H))) \<and> msize (nodes H') = msize (nodes H)
    \<and> dom (cells (lists H')) = dom (cells (lists H))"
proof -
  define N where "N = (nodes H)\<lparr>cells := (cells (nodes H))(a \<mapsto> junk_node), avail := as\<rparr>"
  have N: "malloc junk_node (nodes H) = Some (a, N)" using av by (simp add: malloc_def N_def)
  have wf: "wf_store N" using wf_malloc[OF _ N] rep by (simp add: dpl_rep_def)
  have "a \<notin> dom (cells (nodes H))" using wf_malloc_fresh[OF _ N] rep by (simp add: dpl_rep_def)
  moreover have "set (addrs ns) \<subseteq> dom (cells (nodes H))"
    using rep dseg_dom[of "cells (nodes H)" NULL ns NULL] by (simp add: dpl_rep_def)
  ultimately have new: "a \<notin> set (addrs ns)" by blast
  define N1 where "N1 = N\<lparr>cells := (cells N)(a \<mapsto> junk_node\<lparr>nd_element := e\<rparr>)\<rparr>"
  define H1 where "H1 = H\<lparr>elems := E, nodes := N1\<rparr>"
  have "wf_store N1" unfolding N1_def by (rule wf_update[OF wf]) (simp add: N_def)
  then have rep1: "dpl_rep H1 l cb ns"
    using rep new by (simp add: dpl_rep_def H1_def N1_def N_def seg_simps)
  have a1: "cells (nodes H1) a = Some (junk_node\<lparr>nd_element := e\<rparr>)" by (simp add: H1_def N1_def)
  obtain H' where H': "link_node H1 (Some l) (Some a) index = Inr H'"
    "dpl_rep H' l cb (insert_at (ins_pos index (length ns)) (a, e) ns)"
    "relinked H1 l (insert a (set (addrs ns))) H'"
    using link_node_rep[OF rep1 a1 _ new, of e index] by auto
  have "dpl_insert_at_index H (Some l) (Some x) index insert_copy = Inr (Some l, H')"
    using e rep H'(1) N unfolding stored_element_def
    by (cases insert_copy)
      (auto simp: dpl_insert_at_index_def dpl_rep_def mem_simps H1_def N1_def set_node_def N_def)
  moreover have "dpl_frame l (insert a (set (addrs ns))) H H'"
    using H'(3) by (auto simp: relinked_def dpl_frame_def H1_def N1_def N_def)
  moreover have "dom (cells (nodes H')) = insert a (dom (cells (nodes H)))"
    using H'(3) by (simp add: relinked_def H1_def N1_def N_def)
  ultimately show ?thesis using H'(2,3) by (auto simp: relinked_def H1_def N1_def N_def)
qed

section \<open>Unlinking and removal\<close>

definition remove_nth :: "nat \<Rightarrow> 'x list \<Rightarrow> 'x list" where
  "remove_nth k xs = take k xs @ drop (Suc k) xs"

lemma unlink_only:
  assumes rep: "dpl_rep H l cb [(a, e)]"
  shows "\<exists>H' v. unlink_at H (Some l) index = Inr (Some a, H') \<and> dpl_rep H' l cb []
    \<and> relinked H l {a} H' \<and> cells (nodes H') a = Some v \<and> nd_element v = e"
  using rep dpl_size_rep[OF rep] dpl_reference_rep[OF rep, of 0]
  by (auto simp: unlink_at_def mem_simps dpl_rep_def relinked_def dpl_frame_def wf_updates)

lemma unlink_first:
  assumes rep: "dpl_rep H l cb ((a, e) # (b, f) # ys)" and index: "index \<le> 0"
  shows "\<exists>H' v. unlink_at H (Some l) index = Inr (Some a, H') \<and> dpl_rep H' l cb ((b, f) # ys)
    \<and> relinked H l {a, b} H' \<and> cells (nodes H') a = Some v \<and> nd_element v = e"
  using rep index dpl_size_rep[OF rep] dpl_reference_rep[OF rep, of 0]
  by (auto simp: unlink_at_def mem_simps dpl_rep_def relinked_def dpl_frame_def wf_updates seg_simps)

lemma unlink_middle:
  assumes rep: "dpl_rep H l cb (xs @ (b, f) # (a, e) # (c, g) # ys)"
    and index: "index = int (length xs) + 1"
  shows "\<exists>H' v. unlink_at H (Some l) index = Inr (Some a, H')
    \<and> dpl_rep H' l cb (xs @ (b, f) # (c, g) # ys)
    \<and> relinked H l {b, c} H' \<and> cells (nodes H') a = Some v \<and> nd_element v = e"
proof -
  let ?ns = "xs @ (b, f) # (a, e) # (c, g) # ys"
  have nth: "?ns ! clamp index (length ?ns) = (a, e)"
    using index by (simp add: clamp_def nat_add_distrib nth_append)
  have ref: "dpl_get_reference_at_index H (Some l) index = Inr (Some a)"
    using dpl_reference_rep[OF rep, of index] unfolding nth by simp
  have "index > 0" using index by simp
  then show ?thesis using rep dpl_size_rep[OF rep] ref
    by (auto simp: unlink_at_def mem_simps dpl_rep_def relinked_def dpl_frame_def wf_updates seg_simps)
qed

lemma unlink_last:
  assumes rep: "dpl_rep H l cb (xs @ [(b, f), (a, e)])" and index: "int (length xs) < index"
  shows "\<exists>H' v. unlink_at H (Some l) index = Inr (Some a, H') \<and> dpl_rep H' l cb (xs @ [(b, f)])
    \<and> relinked H l {b} H' \<and> cells (nodes H') a = Some v \<and> nd_element v = e"
proof -
  let ?ns = "xs @ [(b, f), (a, e)]"
  have nth: "?ns ! clamp index (length ?ns) = (a, e)"
    using index by (simp add: clamp_last nth_append)
  have ref: "dpl_get_reference_at_index H (Some l) index = Inr (Some a)"
    using dpl_reference_rep[OF rep, of index] unfolding nth by simp
  have "index > 0" using index by simp
  then show ?thesis using rep dpl_size_rep[OF rep] ref
    by (auto simp: unlink_at_def mem_simps dpl_rep_def relinked_def dpl_frame_def wf_updates seg_simps)
qed

lemma split_two: "Suc i < length xs \<Longrightarrow> xs = take i xs @ xs ! i # xs ! Suc i # drop (Suc (Suc i)) xs"
  using Cons_nth_drop_Suc[of i xs] Cons_nth_drop_Suc[of "Suc i" xs] append_take_drop_id[of i xs] by simp

lemma unlink_at_rep:
  assumes rep: "dpl_rep H l cb ns" and ne: "ns \<noteq> []"
    and k_def: "k = clamp index (length ns)"
  shows "\<exists>H' v. unlink_at H (Some l) index = Inr (Some (fst (ns ! k)), H')
    \<and> dpl_rep H' l cb (remove_nth k ns) \<and> relinked H l (set (addrs ns)) H'
    \<and> cells (nodes H') (fst (ns ! k)) = Some v \<and> nd_element v = snd (ns ! k)"
proof -
  consider (one) a e where "ns = [(a, e)]"
    | (first) a e b f ys where "ns = (a, e) # (b, f) # ys" "index \<le> 0"
    | (inner) i where "Suc i < length ns" "k = Suc i" "0 < index"
  proof (cases "length ns = 1 \<or> index \<le> 0")
    case True
    then show ?thesis using ne one first by (cases ns rule: remdups_adj.cases) auto
  next
    case False
    then have "Suc 0 < length ns" using ne by (cases ns) auto
    then have "k < length ns" "0 < k" using False by (auto simp: k_def clamp_def)
    then show ?thesis using inner[of "k - 1"] False by simp
  qed
  then show ?thesis
  proof cases
    case one
    then show ?thesis using unlink_only[of H l cb a e index] rep
      by (simp add: k_def clamp_def remove_nth_def)
  next
    case first
    then show ?thesis using unlink_first[of H l cb a e b f ys index] rep
      by (auto simp: k_def remove_nth_def elim!: relinked_mono)
  next
    case inner
    obtain b f a e where n: "ns ! i = (b, f)" "ns ! Suc i = (a, e)"
      by (cases "ns ! i"; cases "ns ! Suc i")
    define xs where "xs = take i ns"
    have len: "length xs = i" using inner(1) by (simp add: xs_def)
    have ns: "ns = xs @ (b, f) # (a, e) # drop (Suc (Suc i)) ns"
      using split_two[OF inner(1)] n by (simp add: xs_def)
    have rem: "remove_nth k ns = xs @ (b, f) # drop (Suc (Suc i)) ns"
      by (subst (1) ns) (simp add: remove_nth_def inner(2) len)
    show ?thesis
    proof (cases "drop (Suc (Suc i)) ns")
      case Nil
      have "length ns = Suc (Suc i)" using Nil inner(1) by simp
      then have "int (length xs) < index"
        using inner(2,3) len by (auto simp: k_def clamp_def min_def split: if_splits)
      moreover have "ns = xs @ [(b, f), (a, e)]" using ns Nil by simp
      ultimately obtain H' v where "unlink_at H (Some l) index = Inr (Some a, H')"
          "dpl_rep H' l cb (xs @ [(b, f)])" "relinked H l {b} H'" "cells (nodes H') a = Some v"
          "nd_element v = e"
        using unlink_last[of H l cb xs b f a e index] rep by blast
      moreover have "{b} \<subseteq> set (addrs ns)" by (subst ns) simp
      ultimately show ?thesis using n inner(2) rem Nil by (auto elim: relinked_mono)
    next
      case (Cons m ys)
      obtain c g where m: "m = (c, g)" by (cases m)
      have "length ns > Suc (Suc i)" using Cons by (metis drop_all list.distinct(1) not_le)
      then have "index = int (length xs) + 1"
        using inner(2,3) len by (auto simp: k_def clamp_def min_def split: if_splits)
      moreover have ns': "ns = xs @ (b, f) # (a, e) # (c, g) # ys" using ns Cons m by simp
      ultimately obtain H' v where "unlink_at H (Some l) index = Inr (Some a, H')"
          "dpl_rep H' l cb (xs @ (b, f) # (c, g) # ys)" "relinked H l {b, c} H'"
          "cells (nodes H') a = Some v" "nd_element v = e"
        using unlink_middle[of H l cb xs b f a e c g ys index] rep by blast
      moreover have "{b, c} \<subseteq> set (addrs ns)" by (subst ns') simp
      ultimately show ?thesis using n inner(2) rem Cons m by (auto elim: relinked_mono)
    qed
  qed
qed

text \<open>What becomes of the element of a removed node.\<close>

definition freed_element :: "'e dplist_t \<Rightarrow> bool \<Rightarrow> ptr \<Rightarrow> 'e store \<Rightarrow> 'e store res" where
  "freed_element cb free_element e E =
     (if free_element then bindR (element_free cb e E) (\<lambda>(e', E'). Inr E') else Inr E)"

lemma dpl_remove_Nil:
  "dpl_rep H l cb [] \<Longrightarrow> dpl_remove_at_index H (Some l) index fr = Inr (Some l, H)"
  by (simp add: dpl_remove_at_index_def dpl_rep_def mem_simps)

lemma dpl_rep_drop_node:
  assumes "dpl_rep H l cb ns" "a \<notin> set (addrs ns)" "cells (nodes H) a \<noteq> None"
  shows "dpl_rep (H\<lparr>elems := E, nodes := (nodes H)\<lparr>cells := (cells (nodes H))(a := None),
      avail := a # avail (nodes H)\<rparr>\<rparr>) l cb ns"
  using assms by (simp add: dpl_rep_def seg_simps wf_release)

lemma dpl_remove_rep:
  assumes rep: "dpl_rep H l cb ns" and ne: "ns \<noteq> []"
    and k_def: "k = clamp index (length ns)"
    and e: "freed_element cb free_element (snd (ns ! k)) (elems H) = Inr E"
  shows "\<exists>H'. dpl_remove_at_index H (Some l) index free_element = Inr (Some l, H')
    \<and> dpl_rep H' l cb (remove_nth k ns) \<and> elems H' = E \<and> dpl_frame l (set (addrs ns)) H H'
    \<and> avail (nodes H') = fst (ns ! k) # avail (nodes H)
    \<and> dom (cells (nodes H')) = dom (cells (nodes H)) - {fst (ns ! k)}
    \<and> msize (nodes H') = msize (nodes H)"
proof -
  have k: "k < length ns" using ne by (simp add: k_def)
  define a where "a = fst (ns ! k)"
  obtain H1 v where H1: "unlink_at H (Some l) index = Inr (Some a, H1)"
    "dpl_rep H1 l cb (remove_nth k ns)" "relinked H l (set (addrs ns)) H1"
    "cells (nodes H1) a = Some v" "nd_element v = snd (ns ! k)"
    using unlink_at_rep[OF rep ne k_def] by (auto simp: a_def)
  have "distinct (addrs (take k ns @ ns ! k # drop (Suc k) ns))"
    using rep split_at[OF k] by (simp add: dpl_rep_def)
  then have a: "a \<notin> set (addrs (remove_nth k ns))" by (simp add: remove_nth_def a_def)
  let ?H = "H1\<lparr>elems := E, nodes := (nodes H1)\<lparr>cells := (cells (nodes H1))(a := None),
      avail := a # avail (nodes H1)\<rparr>\<rparr>"
  have "dpl_remove_at_index H (Some l) index free_element = Inr (Some l, ?H)"
    using rep ne H1 e unfolding freed_element_def relinked_def
    by (auto simp: dpl_remove_at_index_def dpl_rep_def mem_simps bindR_Inr_iff split: if_splits)
  moreover have "dpl_rep ?H l cb (remove_nth k ns)"
    by (rule dpl_rep_drop_node[OF H1(2) a]) (simp add: H1(4))
  moreover have "dpl_frame l (set (addrs ns)) H ?H"
    using H1(3) k by (auto simp: relinked_def dpl_frame_def a_def)
  ultimately show ?thesis using H1(3) unfolding a_def by (auto simp: relinked_def)
qed

end
