(* ===== verification/Bubble.thy ===== *)
theory Bubble
  imports Prelude "HOL-Library.Multiset"
begin

text \<open>
  The sorting part of \<open>dpl_insert_sorted\<close> on plain lists: bubble sort passes that stop earlier each
  time, and the search for the insertion point. The interface \<open>element_order\<close> is what the comments of
  \<open>lib/dplist.h\<close> ask of the \<open>element_compare\<close> callback; sortedness is proved from it, while
  termination and the preservation of the elements hold for any callback.
\<close>

section \<open>Passes and their iteration\<close>

text \<open>One pass, with the flag \<open>swapped\<close>; \<open>c x y = 1\<close> means that \<open>x\<close> is to come after \<open>y\<close>.\<close>

fun bpass :: "('x \<Rightarrow> 'x \<Rightarrow> int) \<Rightarrow> 'x list \<Rightarrow> bool \<Rightarrow> 'x list \<times> bool" where
  "bpass c [] s = ([], s)"
| "bpass c [x] s = ([x], s)"
| "bpass c (x # y # zs) s =
     (if c x y = 1 then apfst ((#) y) (bpass c (x # zs) True)
      else apfst ((#) x) (bpass c (y # zs) s))"

text \<open>
  The passes over the part \<open>pre\<close> that is still to be sorted, each followed by moving its last element
  to \<open>post\<close>, until one swaps nothing.
\<close>

lemma bpass_length [simp]: "length (fst (bpass c xs s)) = length xs"
  by (induction c xs s rule: bpass.induct) auto

function bsort :: "('x \<Rightarrow> 'x \<Rightarrow> int) \<Rightarrow> 'x list \<Rightarrow> 'x list \<Rightarrow> 'x list" where
  "bsort c pre post =
     (let (pre', swapped) = bpass c pre False
      in if swapped \<and> pre \<noteq> [] then bsort c (butlast pre') (last pre' # post) else pre' @ post)"
  by pat_completeness auto
termination
proof (relation "measure (\<lambda>(c, pre, post). length pre)", goal_cases)
  case (2 c pre post x xa y)
  then have "length xa = length pre" by (metis bpass_length fst_conv)
  then show ?case using 2 by (cases pre) auto
qed simp

declare bsort.simps [simp del]

lemma bpass_mset [simp]: "mset (fst (bpass c xs s)) = mset xs"
  by (induction c xs s rule: bpass.induct) auto

lemma bpass_nonempty [simp]: "fst (bpass c xs s) = [] \<longleftrightarrow> xs = []"
  by (metis bpass_length length_0_conv)

lemma bpass_swapped_True: "snd (bpass c xs True)"
  by (induction c xs "True" rule: bpass.induct) auto

lemma bpass_single: "length xs \<le> 1 \<Longrightarrow> bpass c xs s = (xs, s)"
  by (cases xs rule: remdups_adj.cases) auto

lemma bpass_no_swap:
  "\<not> snd (bpass c xs s) \<Longrightarrow> fst (bpass c xs s) = xs \<and> \<not> s \<and> successively (\<lambda>x y. c x y \<noteq> 1) xs"
  by (induction c xs s rule: bpass.induct) (auto simp: bpass_swapped_True split: if_splits)

lemma bsort_mset: "mset (bsort c pre post) = mset (pre @ post)"
proof (induction c pre post rule: bsort.induct)
  case (1 c pre post)
  obtain pre' swapped where p: "bpass c pre False = (pre', swapped)" by (cases "bpass c pre False")
  then have m: "mset pre' = mset pre" by (metis bpass_mset fst_conv)
  show ?case
  proof (cases "swapped \<and> pre \<noteq> []")
    case True
    then have ne: "pre' \<noteq> []" using m by (metis mset_zero_iff)
    then have "mset (butlast pre') + {#last pre'#} = mset pre"
      using m by (metis append_butlast_last_id mset.simps mset_append add_mset_add_single union_mset_add_mset_right)
    moreover have "mset (bsort c pre post) = mset (butlast pre' @ last pre' # post)"
      using "1.IH"[OF p[symmetric] refl] True p by (subst bsort.simps) simp
    ultimately show ?thesis by (simp flip: add_mset_add_single)
  next
    case False
    then show ?thesis using p m by (subst bsort.simps) auto
  qed
qed

lemma bsort_length: "length (bsort c pre post) = length pre + length post"
  using bsort_mset[of c pre post] by (metis length_append size_mset)

section \<open>The insertion point\<close>

text \<open>How many elements precede the first one that compares greater than the new one.\<close>

definition sorted_pos :: "('x \<Rightarrow> bool) \<Rightarrow> 'x list \<Rightarrow> nat" where
  "sorted_pos g xs = length (takeWhile (\<lambda>y. \<not> g y) xs)"

lemma sorted_pos_simps [simp]:
  "sorted_pos g [] = 0"
  "sorted_pos g (x # xs) = (if g x then 0 else Suc (sorted_pos g xs))"
  by (simp_all add: sorted_pos_def)

lemma sorted_pos_le: "sorted_pos g xs \<le> length xs"
  by (simp add: sorted_pos_def length_takeWhile_le)

section \<open>What the comparison callback promises\<close>

text \<open>
  \<open>compare x y\<close> is -1, 0 or 1 for \<open>x < y\<close>, \<open>x == y\<close>, \<open>x > y\<close> in a total preorder.
\<close>

locale element_order =
  fixes compare :: "'v \<Rightarrow> 'v \<Rightarrow> int"
  assumes compare_range: "compare x y \<in> {-1, 0, 1}"
    and compare_anti: "compare y x = - compare x y"
    and compare_trans: "compare x y \<noteq> 1 \<Longrightarrow> compare y z \<noteq> 1 \<Longrightarrow> compare x z \<noteq> 1"
begin

lemma not_greater_total: "compare x y = 1 \<Longrightarrow> compare y x \<noteq> 1"
  using compare_anti[of x y] by simp

lemma sorted_if_successively:
  "successively (\<lambda>p q. compare (v p) (v q) \<noteq> 1) xs
   \<Longrightarrow> sorted_wrt (\<lambda>p q. compare (v p) (v q) \<noteq> 1) xs"
  by (rule successively_conv_sorted_wrt[THEN iffD1]) (auto intro!: transpI dest: compare_trans)

lemma bpass_last_greatest:
  "xs \<noteq> [] \<Longrightarrow> x \<in> set xs
   \<Longrightarrow> compare (v x) (v (last (fst (bpass (\<lambda>p q. compare (v p) (v q)) xs s)))) \<noteq> 1"
proof (induction "\<lambda>p q. compare (v p) (v q)" xs s arbitrary: x rule: bpass.induct)
  case (2 y s)
  then show ?case using compare_anti[of "v y" "v y"] by auto
next
  case (3 y z zs s)
  show ?case
  proof (cases "compare (v y) (v z) = 1")
    case True
    have "compare (v z) (v y) \<noteq> 1" using not_greater_total[OF True] .
    moreover have "compare (v y) (v (last (fst (bpass (\<lambda>p q. compare (v p) (v q)) (y # zs) True)))) \<noteq> 1"
      using 3(1)[OF True, of y] by simp
    ultimately have "compare (v z) (v (last (fst (bpass (\<lambda>p q. compare (v p) (v q)) (y # zs) True)))) \<noteq> 1"
      by (rule compare_trans)
    then show ?thesis
      using 3(1)[OF True, of y] 3(1)[OF True, of x] 3(4) True by auto
  next
    case False
    then show ?thesis
      using 3(2)[OF False, of z] 3(2)[OF False, of x] 3(4)
      by (auto dest: compare_trans[OF False])
  qed
qed simp

lemma bsort_sorted:
  assumes "sorted_wrt (\<lambda>p q. compare (v p) (v q) \<noteq> 1) post"
    and "\<forall>x \<in> set pre. \<forall>y \<in> set post. compare (v x) (v y) \<noteq> 1"
  shows "sorted_wrt (\<lambda>p q. compare (v p) (v q) \<noteq> 1) (bsort (\<lambda>p q. compare (v p) (v q)) pre post)"
  using assms
proof (induction "\<lambda>p q. compare (v p) (v q)" pre post rule: bsort.induct)
  case (1 pre post)
  let ?c = "\<lambda>p q. compare (v p) (v q)"
  obtain pre' swapped where p: "bpass ?c pre False = (pre', swapped)" by (cases "bpass ?c pre False")
  have set: "set pre' = set pre" using bpass_mset[of ?c pre False] p by (metis fst_conv set_mset_mset)
  show ?case
  proof (cases "swapped \<and> pre \<noteq> []")
    case True
    then have ne: "pre' \<noteq> []" using set by auto
    then have l: "last pre' \<in> set pre" using set last_in_set by blast
    have top: "\<forall>x \<in> set pre. compare (v x) (v (last pre')) \<noteq> 1"
      using bpass_last_greatest[of pre _ v False] p True by simp
    have "sorted_wrt (\<lambda>p q. compare (v p) (v q) \<noteq> 1) (bsort ?c (butlast pre') (last pre' # post))"
      using p True "1.prems" l top set
      by (intro "1.hyps"[OF p[symmetric] refl]) (auto dest: in_set_butlastD)
    then show ?thesis using p True by (subst bsort.simps) simp
  next
    case False
    then have "pre' = pre \<and> successively (\<lambda>x y. ?c x y \<noteq> 1) pre"
      using bpass_no_swap[of ?c pre False] p by (cases pre) auto
    then show ?thesis using sorted_if_successively[of v pre] "1.prems" False p
      by (subst bsort.simps) (auto simp: sorted_wrt_append)
  qed
qed

lemma insert_sorted:
  assumes "sorted_wrt (\<lambda>p q. compare (v p) (v q) \<noteq> 1) xs" and "v x' = v x"
  defines "k \<equiv> sorted_pos (\<lambda>y. compare (v y) (v x) = 1) xs"
  shows "sorted_wrt (\<lambda>p q. compare (v p) (v q) \<noteq> 1) (take k xs @ x' # drop k xs)"
proof -
  have take: "take k xs = takeWhile (\<lambda>y. compare (v y) (v x) \<noteq> 1) xs"
    and drop: "drop k xs = dropWhile (\<lambda>y. compare (v y) (v x) \<noteq> 1) xs"
    by (simp_all add: k_def sorted_pos_def takeWhile_eq_take[symmetric] dropWhile_eq_drop[symmetric])
  have before: "\<forall>y \<in> set (take k xs). compare (v y) (v x) \<noteq> 1"
    unfolding take by (auto dest: set_takeWhileD)
  have "sorted_wrt (\<lambda>p q. compare (v p) (v q) \<noteq> 1) (take k xs @ drop k xs)"
    using assms(1) by simp
  note sorted = this[unfolded sorted_wrt_append]
  have after: "\<forall>y \<in> set (drop k xs). compare (v x) (v y) \<noteq> 1"
  proof (cases "drop k xs")
    case (Cons z zs)
    then have "dropWhile (\<lambda>y. compare (v y) (v x) \<noteq> 1) xs = z # zs" by (simp only: drop)
    then have "compare (v z) (v x) = 1"
      using hd_dropWhile[of "\<lambda>y. compare (v y) (v x) \<noteq> 1" xs] by simp
    then have z: "compare (v x) (v z) \<noteq> 1" by (rule not_greater_total)
    have "\<forall>y \<in> set zs. compare (v z) (v y) \<noteq> 1"
      using sorted unfolding Cons by simp
    then show ?thesis using z compare_trans unfolding Cons by auto
  qed simp
  let ?P = "\<lambda>p q. compare (v p) (v q) \<noteq> 1"
  show ?thesis unfolding sorted_wrt_append
  proof (intro conjI)
    show "sorted_wrt ?P (take k xs)" using sorted by blast
    show "sorted_wrt ?P (x' # drop k xs)"
      unfolding sorted_wrt.simps assms(2) using sorted after by blast
    show "\<forall>y \<in> set (take k xs). \<forall>z \<in> set (x' # drop k xs). ?P y z"
      unfolding list.set using sorted before assms(2) by (metis insertE)
  qed
qed

end

end
