(* ===== verification/Dplist_Ops.thy ===== *)
theory Dplist_Ops
  imports Dplist_Rep Bubble
begin

text \<open>
  The remaining operations of \<open>lib/dplist.c\<close> on represented lists: release, search by reference and by
  element, insertion and removal through them, and sorted insertion.
\<close>

section \<open>Release\<close>

fun free_elements :: "'e dplist_t \<Rightarrow> bool \<Rightarrow> ptr list \<Rightarrow> 'e store \<Rightarrow> 'e store res" where
  "free_elements cb free_element [] E = Inr E"
| "free_elements cb free_element (e # es) E =
     bindR (freed_element cb free_element e E) (free_elements cb free_element es)"

lemma dpl_free_loop_dseg:
  assumes "wf_store (nodes H)" "dseg (cells (nodes H)) p ns NULL" "distinct (addrs ns)" "length ns < k"
    and "free_elements cb fr (map snd ns) (elems H) = Inr E"
  shows "\<exists>H'. dpl_free_loop k (cb\<lparr>dl_head := h\<rparr>) fr H (first_ptr ns NULL) = Inr H' \<and> elems H' = E
    \<and> lists H' = lists H \<and> wf_store (nodes H') \<and> msize (nodes H') = msize (nodes H)
    \<and> dom (cells (nodes H')) = dom (cells (nodes H)) - set (addrs ns)
    \<and> (\<forall>b. b \<notin> set (addrs ns) \<longrightarrow> cells (nodes H') b = cells (nodes H) b)"
  using assms
proof (induction ns arbitrary: k p H)
  case Nil
  then show ?case by (cases k) auto
next
  case (Cons n ns)
  obtain a e where n: "n = (a, e)" by (cases n)
  obtain j where k: "k = Suc j" using Cons.prems(4) by (cases k) auto
  obtain E1 where E1: "freed_element cb fr e (elems H) = Inr E1"
    "free_elements cb fr (map snd ns) E1 = Inr E"
    using Cons.prems(5) n by (auto simp: bindR_Inr_iff)
  let ?N = "(nodes H)\<lparr>cells := (cells (nodes H))(a := None), avail := a # avail (nodes H)\<rparr>"
  let ?H = "H\<lparr>elems := E1, nodes := ?N\<rparr>"
  have a: "a \<notin> set (addrs ns)" using Cons.prems(3) n by simp
  have "dpl_free_loop k (cb\<lparr>dl_head := h\<rparr>) fr H (first_ptr (n # ns) NULL)
      = dpl_free_loop j (cb\<lparr>dl_head := h\<rparr>) fr ?H (first_ptr ns NULL)"
    using Cons.prems(2) E1(1) n k
    by (cases fr) (auto simp: mem_simps freed_element_def bindR_Inr_iff)
  moreover have "\<exists>H'. dpl_free_loop j (cb\<lparr>dl_head := h\<rparr>) fr ?H (first_ptr ns NULL) = Inr H'
    \<and> elems H' = E \<and> lists H' = lists ?H \<and> wf_store (nodes H') \<and> msize (nodes H') = msize (nodes ?H)
    \<and> dom (cells (nodes H')) = dom (cells (nodes ?H)) - set (addrs ns)
    \<and> (\<forall>b. b \<notin> set (addrs ns) \<longrightarrow> cells (nodes H') b = cells (nodes ?H) b)"
  proof (rule Cons.IH)
    show "wf_store (nodes ?H)" using Cons.prems(1,2) n by (simp add: wf_release)
    show "dseg (cells (nodes ?H)) (Some a) ns NULL"
      using Cons.prems(2) n a by (simp add: dseg_upd)
  qed (use Cons.prems E1 n k in simp_all)
  ultimately show ?case using n by auto
qed

lemma dpl_free_rep:
  assumes rep: "dpl_rep H l cb ns" and e: "free_elements cb fr (map snd ns) (elems H) = Inr E"
  obtains H' where "dpl_free H (Some (Some l)) fr = Inr (NULL, H')" "elems H' = E"
    "dom (cells (nodes H')) = dom (cells (nodes H)) - set (addrs ns)"
    "dom (cells (lists H')) = dom (cells (lists H)) - {l}" "dpl_frame l (set (addrs ns)) H H'"
    "wf_store (nodes H')" "wf_store (lists H')"
proof -
  obtain H1 where H1: "dpl_free_loop (fuel (nodes H)) (cb\<lparr>dl_head := first_ptr ns NULL\<rparr>) fr H
      (first_ptr ns NULL) = Inr H1" "elems H1 = E" "lists H1 = lists H" "wf_store (nodes H1)"
    "dom (cells (nodes H1)) = dom (cells (nodes H)) - set (addrs ns)"
    "\<And>b. b \<notin> set (addrs ns) \<Longrightarrow> cells (nodes H1) b = cells (nodes H) b"
    using dpl_free_loop_dseg[of H NULL ns "fuel (nodes H)" cb fr E "first_ptr ns NULL"]
      dpl_rep_length[OF rep] rep e by (auto simp: dpl_rep_def)
  let ?L = "(lists H)\<lparr>cells := (cells (lists H))(l := None), avail := l # avail (lists H)\<rparr>"
  show ?thesis
    by (rule that[of "H1\<lparr>lists := ?L\<rparr>"])
      (use H1 rep in \<open>auto simp: dpl_free_def dpl_rep_def mem_simps wf_release dpl_frame_def split: if_splits\<close>)
qed

section \<open>References\<close>

lemma find_loop_hit:
  assumes "dseg (cells N) p (xs @ (a, e) # ys) NULL" "a \<notin> set (addrs xs)" "length xs < k"
  shows "find_loop k N (Some a) (first_ptr (xs @ (a, e) # ys) NULL) c
    = Inr (Some (c + int (length xs),
        \<lparr>nd_prev = last_ptr p xs, nd_next = first_ptr ys NULL, nd_element = e\<rparr>))"
  using assms
proof (induction xs arbitrary: k p c)
  case Nil
  then show ?case by (cases k) (auto simp: mem_simps)
next
  case (Cons x xs)
  then show ?case by (cases x; cases k) (auto simp: mem_simps)
qed

lemma find_loop_miss:
  assumes "dseg (cells N) p ns NULL" "a \<notin> set (addrs ns)" "length ns \<le> k" "ns \<noteq> []"
  shows "find_loop k N (Some a) (first_ptr ns NULL) c = Inr None"
  using assms
proof (induction ns arbitrary: k p c)
  case (Cons x xs)
  then show ?case by (cases x; cases k; cases xs) (auto simp: mem_simps)
qed simp

lemma next_loop_hit:
  assumes "dseg (cells N) p (xs @ (a, e) # ys) NULL" "a \<notin> set (addrs xs)" "length xs < k"
  shows "next_loop k N (Some a) (first_ptr (xs @ (a, e) # ys) NULL) = Inr (first_ptr ys NULL)"
  using assms
proof (induction xs arbitrary: k p)
  case Nil
  then show ?case by (cases k) (auto simp: mem_simps)
next
  case (Cons x xs)
  then show ?case by (cases x; cases k) (auto simp: mem_simps)
qed

lemma next_loop_miss:
  assumes "dseg (cells N) p ns NULL" "a \<notin> set (addrs ns)" "length ns \<le> k" "ns \<noteq> []"
  shows "next_loop k N (Some a) (first_ptr ns NULL) = Inr NULL"
  using assms
proof (induction ns arbitrary: k p)
  case (Cons x xs)
  then show ?case by (cases x; cases k; cases xs) (auto simp: mem_simps)
qed simp

text \<open>Where a reference is in the chain: \<open>None\<close> for a node that is not in it.\<close>

definition ref_index :: "addr \<Rightarrow> (addr \<times> ptr) list \<Rightarrow> nat option" where
  "ref_index a ns = (if a \<in> set (addrs ns) then Some (length (takeWhile (\<lambda>b. b \<noteq> a) (addrs ns))) else None)"

lemma ref_index_SomeE:
  assumes "ref_index a ns = Some i"
  obtains xs e ys where "ns = xs @ (a, e) # ys" "length xs = i" "a \<notin> set (addrs xs)"
proof -
  have "a \<in> set (addrs ns)" and i: "i = length (takeWhile (\<lambda>b. b \<noteq> a) (addrs ns))"
    using assms by (auto simp: ref_index_def split: if_splits)
  then obtain e where "(a, e) \<in> set ns" by auto
  then obtain xs e' ys where ns: "ns = xs @ (a, e') # ys" "a \<notin> set (addrs xs)"
    using split_list_first_prop[of ns "\<lambda>n. fst n = a"] by fastforce
  then have "takeWhile (\<lambda>b. b \<noteq> a) (addrs ns) = addrs xs"
    using takeWhile_append2[of "addrs xs" "\<lambda>b. b \<noteq> a" "a # addrs ys"] by auto
  then show ?thesis using that ns i by simp
qed

lemma ref_index_nth: "distinct (addrs ns) \<Longrightarrow> i < length ns \<Longrightarrow> ref_index (fst (ns ! i)) ns = Some i"
proof (induction ns arbitrary: i)
  case (Cons n ns)
  then show ?case by (cases i) (auto simp: ref_index_def)
qed simp

lemma find_loop_rep:
  assumes rep: "dpl_rep H l cb ns" and ne: "ns \<noteq> []"
  shows "find_loop (fuel (nodes H)) (nodes H) (Some a) (first_ptr ns NULL) 0
    = Inr (map_option (\<lambda>i. (int i, \<lparr>nd_prev = last_ptr NULL (take i ns),
        nd_next = first_ptr (drop (Suc i) ns) NULL, nd_element = snd (ns ! i)\<rparr>)) (ref_index a ns))"
proof (cases "ref_index a ns")
  case None
  then have "a \<notin> set (addrs ns)" by (auto simp: ref_index_def split: if_splits)
  then show ?thesis
    using find_loop_miss[of "nodes H" NULL ns a "fuel (nodes H)" 0] None ne rep dpl_rep_length[OF rep]
    by (auto simp: dpl_rep_def)
next
  case (Some i)
  then obtain xs e ys where ns: "ns = xs @ (a, e) # ys" "length xs = i" "a \<notin> set (addrs xs)"
    by (rule ref_index_SomeE)
  then show ?thesis
    using find_loop_hit[of "nodes H" NULL xs a e ys "fuel (nodes H)" 0] Some rep dpl_rep_length[OF rep]
    by (auto simp: dpl_rep_def nth_append)
qed

lemma dpl_next_rep:
  assumes rep: "dpl_rep H l cb ns"
  shows "dpl_get_next_reference H (Some l) (Some a) = Inr (case ref_index a ns of
      None \<Rightarrow> NULL | Some i \<Rightarrow> first_ptr (drop (Suc i) ns) NULL)"
proof (cases "ref_index a ns")
  case None
  then have "a \<notin> set (addrs ns)" by (auto simp: ref_index_def split: if_splits)
  then show ?thesis
    using next_loop_miss[of "nodes H" NULL ns a "fuel (nodes H)"] None rep dpl_rep_length[OF rep]
    by (cases "ns = []") (auto simp: dpl_rep_def dpl_get_next_reference_def mem_simps)
next
  case (Some i)
  then obtain xs e ys where ns: "ns = xs @ (a, e) # ys" "length xs = i" "a \<notin> set (addrs xs)"
    by (rule ref_index_SomeE)
  then show ?thesis
    using next_loop_hit[of "nodes H" NULL xs a e ys "fuel (nodes H)"] Some rep dpl_rep_length[OF rep]
    by (auto simp: dpl_rep_def dpl_get_next_reference_def mem_simps)
qed

lemma dpl_previous_rep:
  assumes rep: "dpl_rep H l cb ns"
  shows "dpl_get_previous_reference H (Some l) (Some a) = Inr (case ref_index a ns of
      None \<Rightarrow> NULL | Some i \<Rightarrow> last_ptr NULL (take i ns))"
  using find_loop_rep[OF rep, of a] rep
  by (cases "ns = []"; cases "ref_index a ns")
    (auto simp: dpl_get_previous_reference_def dpl_rep_def mem_simps ref_index_def)

lemma dpl_index_of_reference_rep:
  assumes rep: "dpl_rep H l cb ns"
  shows "dpl_get_index_of_reference H (Some l) (Some a) = Inr (case ref_index a ns of
      None \<Rightarrow> -1 | Some i \<Rightarrow> int i)"
  using find_loop_rep[OF rep, of a] rep
  by (cases "ns = []"; cases "ref_index a ns")
    (auto simp: dpl_get_index_of_reference_def dpl_rep_def mem_simps ref_index_def)

lemma dpl_element_at_reference_rep:
  assumes rep: "dpl_rep H l cb ns"
  shows "dpl_get_element_at_reference H (Some l) (Some a) = Inr (case ref_index a ns of
      None \<Rightarrow> NULL | Some i \<Rightarrow> snd (ns ! i))"
  using find_loop_rep[OF rep, of a] rep
  by (cases "ns = []"; cases "ref_index a ns")
    (auto simp: dpl_get_element_at_reference_def dpl_rep_def mem_simps ref_index_def)

lemma dpl_first_last_rep:
  assumes rep: "dpl_rep H l cb ns"
  shows "dpl_get_first_reference H (Some l) = Inr (first_ptr ns NULL)"
    and "dpl_get_last_reference H (Some l) = Inr (last_ptr NULL ns)"
    and "dpl_get_previous_reference H (Some l) NULL = Inr (last_ptr NULL ns)"
proof -
  have last: "ns \<noteq> [] \<Longrightarrow> dpl_get_reference_at_index H (Some l) (int (length ns) - 1)
      = Inr (last_ptr NULL ns)"
    using dpl_reference_rep[OF rep, of "int (length ns) - 1"]
    by (simp add: clamp_last last_ptr_nonempty last_conv_nth)
  show "dpl_get_first_reference H (Some l) = Inr (first_ptr ns NULL)"
    using rep by (auto simp: dpl_get_first_reference_def dpl_rep_def mem_simps)
  show "dpl_get_last_reference H (Some l) = Inr (last_ptr NULL ns)"
    "dpl_get_previous_reference H (Some l) NULL = Inr (last_ptr NULL ns)"
    using rep last dpl_size_rep[OF rep]
    by (cases "ns = []", auto simp: dpl_get_last_reference_def dpl_get_previous_reference_def
        dpl_rep_def mem_simps)+
qed

section \<open>Search by element\<close>

text \<open>
  The callback applied to the pointers of a list: \<open>cmp_on cb E P c\<close> says that it returns \<open>c x y\<close>
  for all pointers \<open>x\<close>, \<open>y\<close> of \<open>P\<close>.
\<close>

definition cmp_on :: "'e dplist_t \<Rightarrow> 'e store \<Rightarrow> ptr set \<Rightarrow> (ptr \<Rightarrow> ptr \<Rightarrow> int) \<Rightarrow> bool" where
  "cmp_on cb E P c \<longleftrightarrow> (\<forall>x \<in> P. \<forall>y \<in> P. element_compare cb x y E = Inr (c x y))"

fun first_index :: "('x \<Rightarrow> bool) \<Rightarrow> 'x list \<Rightarrow> int \<Rightarrow> int" where
  "first_index P [] i = -1"
| "first_index P (x # xs) i = (if P x then i else first_index P xs (i + 1))"

lemma first_index_cases:
  "0 \<le> i \<Longrightarrow> (if \<exists>x \<in> set xs. P x
     then \<exists>k < length xs. first_index P xs i = i + int k \<and> P (xs ! k) \<and> (\<forall>j < k. \<not> P (xs ! j))
     else first_index P xs i = -1)"
proof (induction xs arbitrary: i)
  case (Cons x xs)
  show ?case
  proof (cases "P x")
    case True
    then show ?thesis by (auto intro!: exI[of _ 0])
  next
    case False
    show ?thesis
    proof (cases "\<exists>x \<in> set xs. P x")
      case True
      then obtain k where "k < length xs" "first_index P xs (i + 1) = i + 1 + int k" "P (xs ! k)"
          "\<forall>j < k. \<not> P (xs ! j)"
        using Cons.IH[of "i + 1"] Cons.prems by auto
      then have ex: "\<exists>k < length (x # xs). first_index P (x # xs) i = i + int k \<and> P ((x # xs) ! k)
          \<and> (\<forall>j < k. \<not> P ((x # xs) ! j))"
        using False by (intro exI[of _ "Suc k"]) (auto simp: less_Suc_eq_0_disj)
      have some: "\<exists>y \<in> set (x # xs). P y" using True by auto
      show ?thesis unfolding if_P[OF some] by (rule ex)
    next
      case none: False
      then show ?thesis using False Cons.IH[of "i + 1"] Cons.prems by auto
    qed
  qed
qed simp

lemma element_loop_dseg:
  assumes "dseg (cells (nodes H)) p ns NULL" "length ns \<le> k" "ns \<noteq> []"
    and "\<forall>e \<in> set (map snd ns). element_compare cb e x (elems H) = Inr (c e)"
  shows "element_loop k (cb\<lparr>dl_head := h\<rparr>) H x (first_ptr ns NULL) i
    = Inr (first_index (\<lambda>e. c e = 0) (map snd ns) i)"
  using assms
proof (induction ns arbitrary: k p i)
  case (Cons n ns)
  then show ?case by (cases n; cases k; cases ns) (auto simp: mem_simps)
qed simp

lemma dpl_index_of_element_rep:
  assumes rep: "dpl_rep H l cb ns"
    and "\<forall>e \<in> set (map snd ns). element_compare cb e x (elems H) = Inr (c e)"
  shows "dpl_get_index_of_element H (Some l) x
    = Inr (first_index (\<lambda>e. c e = 0) (map snd ns) 0)"
  using element_loop_dseg[of H NULL ns "fuel (nodes H)" cb x c "first_ptr ns NULL" 0] assms
    dpl_rep_length[OF rep]
  by (cases "ns = []") (auto simp: dpl_get_index_of_element_def dpl_rep_def mem_simps)

section \<open>Bubble sort in the memory\<close>

lemma element_compare_head [simp]:
  "element_compare (cb\<lparr>dl_head := h\<rparr>) = element_compare cb"
  "element_copy (cb\<lparr>dl_head := h\<rparr>) = element_copy cb"
  "element_free (cb\<lparr>dl_head := h\<rparr>) = element_free cb"
  by simp_all

text \<open>The chain with new elements.\<close>

abbreviation re_elem :: "(addr \<times> ptr) list \<Rightarrow> ptr list \<Rightarrow> (addr \<times> ptr) list" where
  "re_elem ns es \<equiv> zip (addrs ns) es"

lemma first_ptr_zip [simp]: "length es = length ns \<Longrightarrow> first_ptr (re_elem ns es) q = first_ptr ns q"
  by (cases ns; cases es) auto

lemma last_ptr_zip [simp]: "length es = length ns \<Longrightarrow> last_ptr p (re_elem ns es) = last_ptr p ns"
proof (induction ns arbitrary: es p)
  case (Cons n ns)
  then show ?case by (cases es) auto
qed simp

text \<open>What a pass keeps: everything but the element fields of the chain.\<close>

definition same_shape :: "addr set \<Rightarrow> 'e dmem \<Rightarrow> 'e dmem \<Rightarrow> bool" where
  "same_shape A H H' \<longleftrightarrow> lists H' = lists H \<and> elems H' = elems H
     \<and> (wf_store (nodes H) \<longrightarrow> wf_store (nodes H')) \<and> avail (nodes H') = avail (nodes H)
     \<and> msize (nodes H') = msize (nodes H) \<and> dom (cells (nodes H')) = dom (cells (nodes H))
     \<and> (\<forall>b. b \<notin> A \<longrightarrow> cells (nodes H') b = cells (nodes H) b)"

lemma same_shape_refl [simp]: "same_shape A H H"
  by (simp add: same_shape_def)

lemma same_shape_trans: "same_shape A H H1 \<Longrightarrow> same_shape B H1 H2 \<Longrightarrow> A \<subseteq> C \<Longrightarrow> B \<subseteq> C \<Longrightarrow> same_shape C H H2"
  unfolding same_shape_def by (auto; metis subsetD)

lemma bubble_pass_dseg:
  assumes "dseg (cells (nodes H)) p ((a, e) # ns) q" "distinct (addrs ((a, e) # ns))"
    and "length ns < k" "\<forall>b. q = Some b \<longrightarrow> b \<notin> set (addrs ns)"
    and "cmp_on cb (elems H) (insert e (set (map snd ns))) c"
  shows "\<exists>H'. bubble_pass k cb H q (Some a) s
      = Inr (last_ptr (Some a) ns, snd (bpass c (e # map snd ns) s), H')
    \<and> dseg (cells (nodes H')) p (re_elem ((a, e) # ns) (fst (bpass c (e # map snd ns) s))) q
    \<and> same_shape (insert a (set (addrs ns))) H H'"
  using assms
proof (induction ns arbitrary: k p H s a e)
  case Nil
  then show ?case by (cases k) (auto simp: mem_simps)
next
  case (Cons n ns)
  obtain b f where n: "n = (b, f)" by (cases n)
  obtain j where k: "k = Suc j" using Cons.prems(3) by (cases k) auto
  have ab: "cells (nodes H) a = Some \<lparr>nd_prev = p, nd_next = Some b, nd_element = e\<rparr>"
    "cells (nodes H) b = Some \<lparr>nd_prev = Some a, nd_next = first_ptr ns q, nd_element = f\<rparr>"
    "dseg (cells (nodes H)) (Some b) ns q"
    and new: "a \<noteq> b" "a \<notin> set (addrs ns)" "b \<notin> set (addrs ns)" "distinct (addrs ns)"
    using Cons.prems(1,2) n by simp_all
  have q: "Some b \<noteq> q" "\<forall>b. q = Some b \<longrightarrow> b \<notin> set (addrs ns)" using Cons.prems(4) n by auto
  have c: "element_compare cb e f (elems H) = Inr (c e f)"
    using Cons.prems(5) n by (simp add: cmp_on_def)
  have len: "length ns < j" using Cons.prems(3) k by simp
  define swap where "swap \<longleftrightarrow> c e f = 1"
  define x y where "x = (if swap then f else e)" and "y = (if swap then e else f)"
  let ?N = "(nodes H)\<lparr>cells := (cells (nodes H))
        (a \<mapsto> \<lparr>nd_prev = p, nd_next = Some b, nd_element = x\<rparr>,
         b \<mapsto> \<lparr>nd_prev = Some a, nd_next = first_ptr ns q, nd_element = y\<rparr>)\<rparr>"
  define H1 where "H1 = H\<lparr>nodes := ?N\<rparr>"
  have same: "\<not> swap \<Longrightarrow> H1 = H"
  proof -
    assume "\<not> swap"
    then have "cells ?N = cells (nodes H)"
      using ab by (simp add: x_def y_def fun_upd_idem)
    then show "H1 = H" by (simp add: H1_def)
  qed
  have step: "bubble_pass k cb H q (Some a) s = bubble_pass j cb H1 q (Some b) (swap \<or> s)"
  proof (cases swap)
    case True
    then show ?thesis using ab new q c k by (simp add: mem_simps H1_def x_def y_def swap_def)
  next
    case False
    then show ?thesis using ab q c k same by (simp add: mem_simps swap_def)
  qed
  have shape1: "same_shape {a, b} H H1"
    using ab new by (auto simp: same_shape_def H1_def wf_update2)
  obtain H' where H': "bubble_pass j cb H1 q (Some b) (swap \<or> s)
        = Inr (last_ptr (Some b) ns, snd (bpass c (y # map snd ns) (swap \<or> s)), H')"
    "dseg (cells (nodes H')) (Some a) (re_elem ((b, y) # ns) (fst (bpass c (y # map snd ns) (swap \<or> s)))) q"
    "same_shape (insert b (set (addrs ns))) H1 H'"
  proof -
    have "dseg (cells (nodes H1)) (Some a) ((b, y) # ns) q"
      using ab new by (simp add: H1_def dseg_upd)
    moreover have "cmp_on cb (elems H1) (insert y (set (map snd ns))) c"
      using Cons.prems(5) n by (auto simp: cmp_on_def H1_def y_def)
    ultimately show ?thesis
      using Cons.IH[of H1 "Some a" b y j "swap \<or> s"] that new len q(2) by auto
  qed
  have pass: "bpass c (e # map snd (n # ns)) s = apfst ((#) x) (bpass c (y # map snd ns) (swap \<or> s))"
    by (simp add: n swap_def x_def y_def)
  have "cells (nodes H') a = cells (nodes H1) a"
    using H'(3) new by (simp add: same_shape_def)
  then have "cells (nodes H') a = Some \<lparr>nd_prev = p, nd_next = Some b, nd_element = x\<rparr>"
    using new by (simp add: H1_def)
  moreover have "length (fst (bpass c (y # map snd ns) (swap \<or> s))) = length ((b, y) # ns)" by simp
  ultimately have "dseg (cells (nodes H')) p
      (re_elem ((a, e) # n # ns) (fst (bpass c (e # map snd (n # ns)) s))) q"
    using H'(2) first_ptr_zip[of "fst (bpass c (y # map snd ns) (swap \<or> s))" "(b, y) # ns" q]
    unfolding pass by (simp add: n)
  moreover have "same_shape (insert a (set (addrs (n # ns)))) H H'"
    by (rule same_shape_trans[OF shape1 H'(3)]) (auto simp: n)
  ultimately show ?case using step H'(1) unfolding pass by (simp add: n)
qed

lemma dseg_cong:
  "dseg m p ns q \<Longrightarrow> (\<And>b. b \<in> set (addrs ns) \<Longrightarrow> m' b = m b) \<Longrightarrow> dseg m' p ns q"
proof (induction ns arbitrary: p)
  case (Cons n ns)
  then show ?case by (cases n) simp
qed simp

lemma map_fst_re_elem [simp]: "length es = length ns \<Longrightarrow> addrs (re_elem ns es) = addrs ns"
  by simp

lemma map_snd_re_elem [simp]: "length es = length ns \<Longrightarrow> map snd (re_elem ns es) = es"
  by simp

text \<open>A pass over the front part of a list.\<close>

lemma bubble_pass_prefix:
  assumes seg: "dseg (cells (nodes H)) NULL (pre @ post) NULL" and dist: "distinct (addrs (pre @ post))"
    and wf: "wf_store (nodes H)" and ne: "pre \<noteq> []"
    and cmp: "cmp_on cb (elems H) (set (map snd (pre @ post))) c"
    and r: "bpass c (map snd pre) False = (es, swapped)"
  shows "\<exists>H'. bubble_pass (fuel (nodes H)) cb H (first_ptr post NULL) (first_ptr pre NULL) False
      = Inr (Some (fst (last pre)), swapped, H')
    \<and> dseg (cells (nodes H')) NULL (re_elem pre es @ post) NULL
    \<and> same_shape (set (addrs pre)) H H'"
proof -
  obtain a e ns where pre: "pre = (a, e) # ns" using ne by (cases pre) auto
  have len: "length es = length pre" using r by (metis bpass_length fst_conv length_map)
  have "set (addrs pre) \<subseteq> dom (cells (nodes H))"
    using dseg_dom[OF seg] by auto
  then have "length (addrs pre) < fuel (nodes H)"
    using distinct_lt_fuel[OF wf, of "addrs pre"] dist by simp
  then have fuel: "length ns < fuel (nodes H)" using pre by simp
  have seg_pre: "dseg (cells (nodes H)) NULL ((a, e) # ns) (first_ptr post NULL)"
    using seg unfolding dseg_append pre by blast
  have out: "\<forall>b. first_ptr post NULL = Some b \<longrightarrow> b \<notin> set (addrs ns)"
    using dist pre by (cases post) auto
  have cmp': "cmp_on cb (elems H) (insert e (set (map snd ns))) c"
    using cmp pre by (auto simp: cmp_on_def)
  obtain H' where H': "bubble_pass (fuel (nodes H)) cb H (first_ptr post NULL) (Some a) False
        = Inr (last_ptr (Some a) ns, snd (bpass c (e # map snd ns) False), H')"
    "dseg (cells (nodes H')) NULL (re_elem ((a, e) # ns) (fst (bpass c (e # map snd ns) False)))
        (first_ptr post NULL)"
    "same_shape (insert a (set (addrs ns))) H H'"
    using bubble_pass_dseg[OF seg_pre _ fuel out cmp', of False] dist pre by auto
  have r': "bpass c (e # map snd ns) False = (es, swapped)" using r pre by simp
  have last: "last_ptr (Some a) ns = Some (fst (last pre))"
    using last_ptr_nonempty[OF ne, of NULL] pre by simp
  have "dseg (cells (nodes H')) (last_ptr NULL pre) post NULL"
  proof (rule dseg_cong)
    show "dseg (cells (nodes H)) (last_ptr NULL pre) post NULL"
      using seg unfolding dseg_append by blast
    show "cells (nodes H') b = cells (nodes H) b" if "b \<in> set (addrs post)" for b
    proof -
      have "b \<notin> insert a (set (addrs ns))" using dist that pre by auto
      then show ?thesis using H'(3) unfolding same_shape_def by blast
    qed
  qed
  then have "dseg (cells (nodes H')) NULL (re_elem pre es @ post) NULL"
    using H'(2) by (simp only: dseg_append r' last_ptr_zip[OF len] pre[symmetric] fst_conv)
  then show ?thesis using H'(1,3) unfolding r' last by (simp add: pre)
qed

lemma bubble_loop_dseg:
  assumes "dseg (cells (nodes H)) NULL (pre @ post) NULL" "distinct (addrs (pre @ post))"
    and "wf_store (nodes H)" "pre \<noteq> []" "length pre \<le> k"
    and "cmp_on cb (elems H) (set (map snd (pre @ post))) c"
    and "dl_head cb = first_ptr (pre @ post) NULL"
  shows "\<exists>H'. bubble_loop k cb H (first_ptr post NULL) = Inr H'
    \<and> dseg (cells (nodes H')) NULL
        (re_elem (pre @ post) (bsort c (map snd pre) (map snd post))) NULL
    \<and> same_shape (set (addrs (pre @ post))) H H'"
  using assms
proof (induction k arbitrary: pre post H)
  case (Suc k)
  obtain es swapped where r: "bpass c (map snd pre) False = (es, swapped)"
    by (cases "bpass c (map snd pre) False")
  have len: "length es = length pre" using r by (metis bpass_length fst_conv length_map)
  have elems: "set es = set (map snd pre)" using r by (metis bpass_mset fst_conv set_mset_mset)
  obtain H1 where H1: "bubble_pass (fuel (nodes H)) cb H (first_ptr post NULL) (first_ptr pre NULL) False
      = Inr (Some (fst (last pre)), swapped, H1)"
    "dseg (cells (nodes H1)) NULL (re_elem pre es @ post) NULL" "same_shape (set (addrs pre)) H H1"
    using bubble_pass_prefix[OF Suc.prems(1,2,3,4,6) r] by blast
  have head: "dl_head cb = first_ptr pre NULL" using Suc.prems(4,7) by (cases pre) auto
  have step: "bubble_loop (Suc k) cb H (first_ptr post NULL)
      = (if swapped then bubble_loop k cb H1 (Some (fst (last pre))) else Inr H1)"
    using H1(1) head by simp
  have shape: "same_shape (set (addrs (pre @ post))) H H1"
    by (rule same_shape_trans[OF H1(3) same_shape_refl[of "{}"]]) auto
  show ?case
  proof (cases swapped)
    case False
    have "bsort c (map snd pre) (map snd post) = es @ map snd post"
      using r False by (subst bsort.simps) simp
    moreover have "re_elem (pre @ post) (es @ map snd post) = re_elem pre es @ post"
      using len by (simp add: zip_append zip_map_fst_snd)
    ultimately show ?thesis using step False H1(2) shape by simp
  next
    case True
    define pre' where "pre' = butlast (re_elem pre es)"
    define l where "l = last (re_elem pre es)"
    have split: "re_elem pre es = pre' @ [l]"
      using Suc.prems(4) len unfolding pre'_def l_def by (cases pre; cases es) (simp_all only: append_butlast_last_id, auto)
    have long: "1 < length pre"
      using r True bpass_single[of "map snd pre" c False] by (cases "length pre \<le> 1") auto
    have "length (pre' @ [l]) = length pre" using split len by (metis length_map map_fst_re_elem)
    then have pre'_len: "Suc (length pre') = length pre" by simp
    have addrs: "addrs (pre' @ l # post) = addrs (pre @ post)"
      using split len by (metis append.assoc append_Cons append_Nil map_append map_fst_re_elem)
    have snds: "map snd (pre' @ [l]) = es" using split len by (metis map_snd_re_elem)
    have fl: "fst l = fst (last pre)"
      using arg_cong[OF split, of addrs] len Suc.prems(4)
      by (metis last_map last_snoc list.map_disc_iff map_append map_fst_re_elem list.simps(8,9))
    have IH: "\<exists>H'. bubble_loop k cb H1 (first_ptr (l # post) NULL) = Inr H'
      \<and> dseg (cells (nodes H')) NULL
          (re_elem (pre' @ l # post) (bsort c (map snd pre') (map snd (l # post)))) NULL
      \<and> same_shape (set (addrs (pre' @ l # post))) H1 H'"
    proof (rule Suc.IH)
      show "dseg (cells (nodes H1)) NULL (pre' @ l # post) NULL" using H1(2) split by simp
      show "distinct (addrs (pre' @ l # post))" unfolding addrs by (rule Suc.prems(2))
      show "wf_store (nodes H1)" using shape Suc.prems(3) by (simp add: same_shape_def)
      show "pre' \<noteq> []" using pre'_len long by auto
      show "length pre' \<le> k" using pre'_len Suc.prems(5) by simp
      have "set (map snd (pre' @ l # post)) = set (map snd (pre @ post))"
        using snds elems by (metis append.assoc append_Cons append_Nil map_append set_append)
      then show "cmp_on cb (elems H1) (set (map snd (pre' @ l # post))) c"
        using Suc.prems(6) shape by (simp only: same_shape_def)
      show "dl_head cb = first_ptr (pre' @ l # post) NULL"
        using Suc.prems(7) addrs pre'_len long
        by (cases pre'; cases pre) auto
    qed
    have "bsort c (map snd pre) (map snd post) = bsort c (butlast es) (last es # map snd post)"
      using r True Suc.prems(4) by (subst bsort.simps) simp
    also have "\<dots> = bsort c (map snd pre') (map snd (l # post))"
      unfolding snds[symmetric] by simp
    finally show ?thesis
      using step True IH fl shape unfolding addrs by (auto intro: same_shape_trans)
  qed
qed simp

section \<open>Sorted insertion\<close>

lemma sorted_index_dseg:
  assumes "dseg (cells (nodes H)) p ns NULL" "ns \<noteq> []" "length ns \<le> k"
    and "\<forall>e \<in> set (map snd ns). element_compare cb e x (elems H) = Inr (c e)"
  shows "sorted_index k cb H x (first_ptr ns NULL) i
    = Inr (Some (i + int (sorted_pos (\<lambda>e. c e = 1) (map snd ns))))"
  using assms
proof (induction ns arbitrary: k p i)
  case (Cons n ns)
  then show ?case by (cases n; cases k; cases ns) (auto simp: mem_simps)
qed simp

lemma dpl_sort_rep:
  assumes rep: "dpl_rep H l cb ns" and ne: "ns \<noteq> []"
    and cmp: "cmp_on cb (elems H) (set (map snd ns)) c"
  shows "\<exists>H'. bubble_loop (fuel (nodes H)) (cb\<lparr>dl_head := first_ptr ns NULL\<rparr>) H NULL = Inr H'
    \<and> dpl_rep H' l cb (re_elem ns (bsort c (map snd ns) [])) \<and> same_shape (set (addrs ns)) H H'"
proof -
  have cmp': "cmp_on (cb\<lparr>dl_head := first_ptr ns NULL\<rparr>) (elems H) (set (map snd ns)) c"
    using cmp by (simp add: cmp_on_def)
  obtain H' where H': "bubble_loop (fuel (nodes H)) (cb\<lparr>dl_head := first_ptr ns NULL\<rparr>) H NULL = Inr H'"
    "dseg (cells (nodes H')) NULL (re_elem ns (bsort c (map snd ns) [])) NULL"
    "same_shape (set (addrs ns)) H H'"
    using bubble_loop_dseg[of H ns "[]" "fuel (nodes H)" "cb\<lparr>dl_head := first_ptr ns NULL\<rparr>" c]
      rep ne dpl_rep_length[OF rep] cmp' by (auto simp: dpl_rep_def)
  have len: "length (bsort c (map snd ns) []) = length ns" by (simp add: bsort_length)
  have "dpl_rep H' l cb (re_elem ns (bsort c (map snd ns) []))"
    using rep H'(2,3) first_ptr_zip[OF len] map_fst_re_elem[OF len]
    by (simp add: dpl_rep_def same_shape_def)
  with H' show ?thesis by blast
qed

lemma dpl_insert_sorted_rep:
  assumes rep: "dpl_rep H l cb ns" and av: "avail (nodes H) = a # as"
    and e: "stored_element cb insert_copy (Some x) (elems H) = Inr (e, E)"
    and cmp: "cmp_on cb (elems H) (insert (Some x) (set (map snd ns))) c"
  defines "es \<equiv> bsort c (map snd ns) []"
  shows "\<exists>H'. dpl_insert_sorted H (Some l) (Some x) insert_copy = Inr (Some l, H')
    \<and> dpl_rep H' l cb
        (insert_at (sorted_pos (\<lambda>y. c y (Some x) = 1) es) (a, e) (re_elem ns es))
    \<and> elems H' = E \<and> dpl_frame l (insert a (set (addrs ns))) H H' \<and> avail (nodes H') = as
    \<and> dom (cells (nodes H')) = insert a (dom (cells (nodes H))) \<and> msize (nodes H') = msize (nodes H)"
proof (cases "ns = []")
  case True
  have "es = []" using bsort_length[of c "[]" "[]"] by (simp add: es_def True)
  then show ?thesis
    using dpl_insert_rep[OF rep av e, of 0] rep True
    by (auto simp: dpl_insert_sorted_def dpl_rep_def mem_simps ins_pos_def)
next
  case False
  have len: "length es = length ns" by (simp add: es_def bsort_length)
  have cmp': "cmp_on cb (elems H) (set (map snd ns)) c" using cmp by (auto simp: cmp_on_def)
  obtain H1 where H1: "bubble_loop (fuel (nodes H)) (cb\<lparr>dl_head := first_ptr ns NULL\<rparr>) H NULL = Inr H1"
    "dpl_rep H1 l cb (re_elem ns es)" "same_shape (set (addrs ns)) H H1"
    using dpl_sort_rep[OF rep False cmp'] unfolding es_def by blast
  let ?k = "sorted_pos (\<lambda>y. c y (Some x) = 1) es"
  have "set es = set (map snd ns)"
    using bsort_mset[of c "map snd ns" "[]"] unfolding es_def by (metis append_Nil2 set_mset_mset)
  then have "\<forall>y \<in> set (map snd (re_elem ns es)). element_compare cb y (Some x) (elems H1)
      = Inr (c y (Some x))"
    using cmp H1(3) len by (simp add: cmp_on_def same_shape_def)
  then have cmp1: "\<forall>y \<in> set (map snd (re_elem ns es)).
      element_compare (cb\<lparr>dl_head := first_ptr ns NULL\<rparr>) y (Some x) (elems H1) = Inr (c y (Some x))"
    by simp
  have ne: "re_elem ns es \<noteq> []" using False len by (cases ns; cases es) auto
  have idx: "sorted_index (fuel (nodes H1)) (cb\<lparr>dl_head := first_ptr ns NULL\<rparr>) H1 (Some x)
      (first_ptr ns NULL) 0 = Inr (Some (int ?k))"
    using sorted_index_dseg[of H1 NULL "re_elem ns es" "fuel (nodes H1)"
        "cb\<lparr>dl_head := first_ptr ns NULL\<rparr>" "Some x" "\<lambda>y. c y (Some x)" 0]
      H1(2) dpl_rep_length[OF H1(2)] ne cmp1 len by (auto simp: dpl_rep_def)
  have e1: "stored_element cb insert_copy (Some x) (elems H1) = Inr (e, E)"
    and av1: "avail (nodes H1) = a # as"
    using e av H1(3) by (simp_all add: same_shape_def)
  have pos: "ins_pos (int ?k) (length (re_elem ns es)) = ?k"
    using sorted_pos_le[of "\<lambda>y. c y (Some x) = 1" es] len by (simp add: ins_pos_def)
  obtain H' where H': "dpl_insert_at_index H1 (Some l) (Some x) (int ?k) insert_copy = Inr (Some l, H')"
    "dpl_rep H' l cb (insert_at ?k (a, e) (re_elem ns es))" "elems H' = E"
    "dpl_frame l (insert a (set (addrs (re_elem ns es)))) H1 H'" "avail (nodes H') = as"
    "dom (cells (nodes H')) = insert a (dom (cells (nodes H1)))" "msize (nodes H') = msize (nodes H1)"
    using dpl_insert_rep[OF H1(2) av1 e1, of "int ?k"] unfolding pos by blast
  have head: "cells (lists H) l = Some (cb\<lparr>dl_head := first_ptr ns NULL\<rparr>)"
    using rep by (simp add: dpl_rep_def)
  have fuel: "fuel (nodes H1) = fuel (nodes H)" using H1(3) by (simp add: same_shape_def fuel_def)
  have run: "dpl_insert_sorted H (Some l) (Some x) insert_copy = Inr (Some l, H')"
    using head H1(1) idx H'(1) False
    by (simp add: dpl_insert_sorted_def mem_simps fuel)
  have "dpl_frame l (insert a (set (addrs ns))) H H'"
    using H'(4) H1(3) unfolding map_fst_re_elem[OF len] by (auto simp: dpl_frame_def same_shape_def)
  then show ?thesis using run H'(2,3,5,6,7) H1(3) by (auto simp: same_shape_def)
qed

end
