(* ===== verification/Dplist_List.thy ===== *)
theory Dplist_List
  imports Dplist_Ops
begin

text \<open>
  What \<open>lib/dplist.c\<close> promises to its clients. A list in the memory is read off by \<open>dpl_elements\<close>;
  \<open>dpl_ok\<close> is the invariant of the linked structure. The interface \<open>indexed_list\<close> states what access,
  insertion and removal by index do, the laws a client may count on; it is interpreted on the functions
  of \<open>dplist.c\<close>.
\<close>

section \<open>The list in the memory\<close>

fun dpl_walk :: "nat \<Rightarrow> (addr \<rightharpoonup> dplist_node_t) \<Rightarrow> ptr \<Rightarrow> (addr \<times> ptr) list" where
  "dpl_walk 0 m p = []"
| "dpl_walk (Suc k) m p = (case p of None \<Rightarrow> [] | Some a \<Rightarrow>
     (case m a of None \<Rightarrow> [] | Some n \<Rightarrow> (a, nd_element n) # dpl_walk k m (nd_next n)))"

definition dpl_chain :: "'e dmem \<Rightarrow> addr \<Rightarrow> (addr \<times> ptr) list" where
  "dpl_chain H l = (case cells (lists H) l of None \<Rightarrow> []
     | Some d \<Rightarrow> dpl_walk (fuel (nodes H)) (cells (nodes H)) (dl_head d))"

definition dpl_elements :: "'e dmem \<Rightarrow> addr \<Rightarrow> ptr list" where
  "dpl_elements H l = map snd (dpl_chain H l)"

definition dpl_callbacks :: "'e dmem \<Rightarrow> addr \<Rightarrow> 'e dplist_t" where
  "dpl_callbacks H l = the (cells (lists H) l)"

definition dpl_ok :: "'e dmem \<Rightarrow> addr \<Rightarrow> bool" where
  "dpl_ok H l \<longleftrightarrow> (\<exists>cb ns. dpl_rep H l cb ns)"

lemma dpl_walk_dseg: "dseg m p ns NULL \<Longrightarrow> length ns < k \<Longrightarrow> dpl_walk k m (first_ptr ns NULL) = ns"
proof (induction ns arbitrary: k p)
  case Nil
  then show ?case by (cases k) auto
next
  case (Cons n ns)
  then show ?case by (cases n; cases k) auto
qed

lemma dpl_rep_chain: "dpl_rep H l cb ns \<Longrightarrow> dpl_chain H l = ns"
  using dpl_walk_dseg[of "cells (nodes H)" NULL ns "fuel (nodes H)"] dpl_rep_length[of H l cb ns]
  by (simp add: dpl_chain_def dpl_rep_def)

lemma dpl_rep_elements: "dpl_rep H l cb ns \<Longrightarrow> dpl_elements H l = map snd ns"
  by (simp add: dpl_elements_def dpl_rep_chain)

lemma dpl_rep_callbacks: "dpl_rep H l cb ns \<Longrightarrow> dpl_callbacks H l = cb\<lparr>dl_head := first_ptr ns NULL\<rparr>"
  by (simp add: dpl_callbacks_def dpl_rep_def)

lemma dpl_okI: "dpl_rep H l cb ns \<Longrightarrow> dpl_ok H l"
  by (auto simp: dpl_ok_def)

lemma dpl_okE:
  assumes "dpl_ok H l"
  obtains cb ns where "dpl_rep H l cb ns" "dpl_chain H l = ns" "dpl_elements H l = map snd ns"
    "dpl_callbacks H l = cb\<lparr>dl_head := first_ptr ns NULL\<rparr>"
  using assms by (auto simp: dpl_ok_def dpl_rep_chain dpl_rep_elements dpl_rep_callbacks)

lemma stored_element_head [simp]: "stored_element (cb\<lparr>dl_head := h\<rparr>) = stored_element cb"
  by (intro ext) (simp add: stored_element_def)

lemma freed_element_head [simp]: "freed_element (cb\<lparr>dl_head := h\<rparr>) = freed_element cb"
  by (intro ext) (simp add: freed_element_def)

lemma free_elements_head [simp]: "free_elements (cb\<lparr>dl_head := h\<rparr>) fr es E = free_elements cb fr es E"
  by (induction es arbitrary: E) (auto intro!: bindR_cong)

lemma map_insert_at [simp]: "map f (insert_at k x xs) = insert_at k (f x) (map f xs)"
  by (simp add: insert_at_def take_map drop_map)

lemma map_remove_nth [simp]: "map f (remove_nth k xs) = remove_nth k (map f xs)"
  by (simp add: remove_nth_def take_map drop_map)

lemma length_insert_at [simp]: "length (insert_at k x xs) = Suc (length xs)"
  by (simp add: insert_at_def)

lemma nth_insert_at [simp]: "k \<le> length xs \<Longrightarrow> insert_at k x xs ! k = x"
  by (simp add: insert_at_def nth_append)

lemma remove_insert_at: "k \<le> length xs \<Longrightarrow> remove_nth k (insert_at k x xs) = xs"
  by (simp add: remove_nth_def insert_at_def)

lemma mset_insert_at [simp]: "mset (insert_at k x xs) = add_mset x (mset xs)"
proof -
  have "mset (take k xs) + mset (drop k xs) = mset xs" by (simp flip: mset_append)
  then show ?thesis by (simp add: insert_at_def)
qed

lemma ins_pos_le [simp]: "ins_pos index n \<le> n"
  by (simp add: ins_pos_def)

section \<open>The interface\<close>

text \<open>Taking the first element \<open>k\<close> times.\<close>

fun take_all :: "('s \<Rightarrow> int \<Rightarrow> ptr res) \<Rightarrow> ('s \<Rightarrow> int \<Rightarrow> 's res) \<Rightarrow> nat \<Rightarrow> 's \<Rightarrow> (ptr list \<times> 's) res" where
  "take_all get rem 0 s = Inr ([], s)"
| "take_all get rem (Suc k) s =
     bindR (get s 0) (\<lambda>e. bindR (rem s 0) (\<lambda>s.
     bindR (take_all get rem k s) (\<lambda>(es, s). Inr (e # es, s))))"

text \<open>
  A list with access by index, as its clients see it: \<open>els\<close> is its contents, \<open>room\<close> says that a node
  can be allocated. An index out of range is clamped.
\<close>

locale indexed_list =
  fixes ok :: "'s \<Rightarrow> bool"
    and els :: "'s \<Rightarrow> ptr list"
    and room :: "'s \<Rightarrow> bool"
    and size :: "'s \<Rightarrow> int res"
    and get :: "'s \<Rightarrow> int \<Rightarrow> ptr res"
    and ins :: "'s \<Rightarrow> addr \<Rightarrow> int \<Rightarrow> 's res"
    and rem :: "'s \<Rightarrow> int \<Rightarrow> 's res"
  assumes size_els: "ok s \<Longrightarrow> size s = Inr (int (length (els s)))"
    and get_els: "ok s \<Longrightarrow> els s \<noteq> [] \<Longrightarrow> get s i = Inr (els s ! clamp i (length (els s)))"
    and get_none: "ok s \<Longrightarrow> els s = [] \<Longrightarrow> get s i = Inr NULL"
    and ins_els: "ok s \<Longrightarrow> room s \<Longrightarrow> \<exists>s'. ins s x i = Inr s' \<and> ok s'
      \<and> els s' = insert_at (ins_pos i (length (els s))) (Some x) (els s)"
    and rem_els: "ok s \<Longrightarrow> els s \<noteq> [] \<Longrightarrow> \<exists>s'. rem s i = Inr s' \<and> ok s' \<and> room s'
      \<and> els s' = remove_nth (clamp i (length (els s))) (els s)"
    and rem_none: "ok s \<Longrightarrow> els s = [] \<Longrightarrow> rem s i = Inr s"
begin

text \<open>Removing what was inserted gives the old contents; getting it gives the element.\<close>

lemma insert_get_remove:
  assumes "ok s" "room s" and k_def: "k = int (ins_pos i (length (els s)))"
  shows "\<exists>s' s''. ins s x i = Inr s' \<and> get s' k = Inr (Some x) \<and> rem s' k = Inr s'' \<and> ok s''
    \<and> els s'' = els s"
proof -
  obtain s' where s': "ins s x i = Inr s'" "ok s'"
    "els s' = insert_at (ins_pos i (length (els s))) (Some x) (els s)"
    using ins_els[OF assms(1,2)] by blast
  have ne: "els s' \<noteq> []" by (simp add: s'(3) insert_at_def)
  have c: "clamp k (length (els s')) = ins_pos i (length (els s))"
    unfolding k_def s'(3) by (simp add: clamp_def ins_pos_def)
  obtain s'' where s'': "rem s' k = Inr s''" "ok s''"
    "els s'' = remove_nth (clamp k (length (els s'))) (els s')"
    using rem_els[OF s'(2) ne] by blast
  have "els s'' = els s" unfolding s''(3) c unfolding s'(3) by (rule remove_insert_at) simp
  moreover have "get s' k = Inr (Some x)" unfolding get_els[OF s'(2) ne] c unfolding s'(3) by simp
  ultimately show ?thesis using s'(1) s'' by blast
qed

text \<open>Taking the first element as often as the list is long gives its elements in order.\<close>

lemma take_all_els: "ok s \<Longrightarrow> \<exists>s'. take_all get rem (length (els s)) s = Inr (els s, s') \<and> ok s' \<and> els s' = []"
proof (induction "length (els s)" arbitrary: s)
  case (Suc k)
  then have ne: "els s \<noteq> []" by auto
  obtain s' where s': "rem s 0 = Inr s'" "ok s'" "els s' = tl (els s)"
    using rem_els[OF Suc.prems ne, of 0] by (auto simp: remove_nth_def drop_Suc)
  then have "k = length (els s')" using Suc(2) by simp
  then obtain s'' where "take_all get rem k s' = Inr (els s', s'')" "ok s''" "els s'' = []"
    using Suc.hyps(1)[of s'] s'(2) by auto
  moreover have "get s 0 = Inr (hd (els s))" using get_els[OF Suc.prems ne, of 0] ne by (simp add: hd_conv_nth)
  ultimately show ?case using s' ne unfolding Suc(2)[symmetric] by auto
qed auto

end

text \<open>The functions of \<open>dplist.c\<close> on the list at \<open>l\<close>, with no copies of elements made or freed.\<close>

definition ins_plain :: "addr \<Rightarrow> 'e dmem \<Rightarrow> addr \<Rightarrow> int \<Rightarrow> 'e dmem res" where
  "ins_plain l H x i = bindR (dpl_insert_at_index H (Some l) (Some x) i False) (\<lambda>(_, H'). Inr H')"

definition rem_plain :: "addr \<Rightarrow> 'e dmem \<Rightarrow> int \<Rightarrow> 'e dmem res" where
  "rem_plain l H i = bindR (dpl_remove_at_index H (Some l) i False) (\<lambda>(_, H'). Inr H')"

lemma dpl_insert_returns_list:
  "dpl_insert_at_index H (Some l) x i cpy = Inr (p, H') \<Longrightarrow> p = Some l"
  by (auto simp: dpl_insert_at_index_def bindR_Inr_iff split: option.splits)

lemma dpl_remove_returns_list:
  "dpl_remove_at_index H (Some l) i fr = Inr (p, H') \<Longrightarrow> p = Some l"
  by (auto simp: dpl_remove_at_index_def bindR_Inr_iff split: if_splits)

interpretation dpl: indexed_list "\<lambda>H. dpl_ok H l" "\<lambda>H. dpl_elements H l" "\<lambda>H. avail (nodes H) \<noteq> []"
  "\<lambda>H. dpl_size H (Some l)" "\<lambda>H. dpl_get_element_at_index H (Some l)" "ins_plain l" "rem_plain l"
  for l
proof (unfold_locales, goal_cases)
  case (1 s)
  then show ?case by (auto elim!: dpl_okE simp: dpl_size_rep)
next
  case (2 s i)
  then show ?case by (auto elim!: dpl_okE simp: dpl_element_rep)
next
  case (3 s i)
  then show ?case by (auto elim!: dpl_okE simp: dpl_element_rep)
next
  case (4 s x i)
  obtain cb ns where ns: "dpl_rep s l cb ns" "dpl_elements s l = map snd ns" using 4(1) by (rule dpl_okE)
  obtain a as where "avail (nodes s) = a # as" using 4(2) by (cases "avail (nodes s)") auto
  with dpl_insert_rep[OF ns(1) this, of False x "Some x" "elems s" i] ns(2) show ?case
    by (auto simp: stored_element_def ins_plain_def dpl_rep_elements intro: dpl_okI)
next
  case (5 s i)
  obtain cb ns where ns: "dpl_rep s l cb ns" "dpl_elements s l = map snd ns" using 5(1) by (rule dpl_okE)
  then show ?case
    using dpl_remove_rep[OF ns(1) _ refl, of False i "elems s"] 5(2)
    by (auto simp: freed_element_def rem_plain_def dpl_rep_elements intro: dpl_okI)
next
  case (6 s i)
  then show ?case by (auto elim!: dpl_okE simp: rem_plain_def dpl_remove_Nil)
qed

section \<open>Sorted insertion\<close>

lemma dpl_insert_sorted_elements:
  assumes "dpl_ok H l" "avail (nodes H) \<noteq> []"
    and "stored_element (dpl_callbacks H l) insert_copy (Some x) (elems H) = Inr (e, E)"
    and "\<And>y z. y \<in> insert (Some x) (set (dpl_elements H l)) \<Longrightarrow> z \<in> insert (Some x) (set (dpl_elements H l))
      \<Longrightarrow> element_compare (dpl_callbacks H l) y z (elems H) = Inr (c y z)"
  defines "es \<equiv> bsort c (dpl_elements H l) []"
  shows "\<exists>H'. dpl_insert_sorted H (Some l) (Some x) insert_copy = Inr (Some l, H') \<and> dpl_ok H' l
    \<and> dpl_elements H' l = insert_at (sorted_pos (\<lambda>y. c y (Some x) = 1) es) e es \<and> elems H' = E"
proof -
  obtain cb ns where ns: "dpl_rep H l cb ns" "dpl_elements H l = map snd ns"
    "dpl_callbacks H l = cb\<lparr>dl_head := first_ptr ns NULL\<rparr>"
    using assms(1) by (rule dpl_okE)
  obtain a as where av: "avail (nodes H) = a # as" using assms(2) by (cases "avail (nodes H)") auto
  have cmp: "cmp_on cb (elems H) (insert (Some x) (set (map snd ns))) c"
    using assms(4) ns by (simp add: cmp_on_def)
  have e: "stored_element cb insert_copy (Some x) (elems H) = Inr (e, E)" using assms(3) ns by simp
  let ?k = "sorted_pos (\<lambda>y. c y (Some x) = 1) es"
  obtain H' where H': "dpl_insert_sorted H (Some l) (Some x) insert_copy = Inr (Some l, H')"
    "dpl_rep H' l cb (insert_at ?k (a, e) (re_elem ns es))" "elems H' = E"
    using dpl_insert_sorted_rep[OF ns(1) av e cmp] unfolding es_def ns(2) by blast
  have "length es = length ns" by (simp add: es_def bsort_length ns(2))
  then have "dpl_elements H' l = insert_at ?k e es" using dpl_rep_elements[OF H'(2)] by simp
  then show ?thesis using H' by (auto intro: dpl_okI)
qed

end
