(* ===== verification/Dplist_Props.thy ===== *)
theory Dplist_Props
  imports Dplist_List
begin

text \<open>
  The properties of \<open>lib/dplist.c\<close>, over lists read off the memory, with a concrete run for each.
\<close>

section \<open>A concrete list\<close>

text \<open>Elements are integers on the heap; the callbacks copy, free and compare them.\<close>

definition copy_int :: "ptr \<Rightarrow> int store \<Rightarrow> (ptr \<times> int store) res" where
  "copy_int p E = bindR (load E p) (\<lambda>v. case malloc v E of
      None \<Rightarrow> Inl Exit_Failure | Some (a, E) \<Rightarrow> Inr (Some a, E))"

definition free_int :: "ptr \<Rightarrow> int store \<Rightarrow> (ptr \<times> int store) res" where
  "free_int p E = bindR (free E p) (\<lambda>E. Inr (NULL, E))"

definition cmp_val :: "int \<Rightarrow> int \<Rightarrow> int" where
  "cmp_val x y = (if y < x then 1 else if x = y then 0 else -1)"

definition cmp_int :: "ptr \<Rightarrow> ptr \<Rightarrow> int store \<Rightarrow> int res" where
  "cmp_int x y E = bindR (load E x) (\<lambda>v. bindR (load E y) (\<lambda>w. Inr (cmp_val v w)))"

interpretation cmp_val: element_order cmp_val
  by unfold_locales (auto simp: cmp_val_def split: if_splits)

text \<open>A list with the elements 3 and 1, and an integer 2 that is not in it.\<close>

definition demo_list :: "int dplist_t" where
  "demo_list = \<lparr>dl_head = Some 0, element_copy = copy_int, element_free = free_int,
     element_compare = cmp_int\<rparr>"

definition demo_mem :: "int dmem" where
  "demo_mem = \<lparr>
     lists = \<lparr>cells = [0 \<mapsto> demo_list], avail = [], msize = 1\<rparr>,
     nodes = \<lparr>cells = [0 \<mapsto> \<lparr>nd_prev = NULL, nd_next = Some 1, nd_element = Some 0\<rparr>,
                      1 \<mapsto> \<lparr>nd_prev = Some 0, nd_next = NULL, nd_element = Some 1\<rparr>],
              avail = [2], msize = 3\<rparr>,
     elems = \<lparr>cells = [0 \<mapsto> 3, 1 \<mapsto> 1, 2 \<mapsto> 2], avail = [3], msize = 4\<rparr>\<rparr>"

lemma demo_mem_rep: "dpl_rep demo_mem 0 demo_list [(0, Some 0), (1, Some 1)]"
  by (auto simp: dpl_rep_def demo_mem_def demo_list_def wf_store_def)

lemma demo_mem_ok: "dpl_ok demo_mem 0"
  by (rule dpl_okI[OF demo_mem_rep])

lemma demo_mem_elements: "dpl_elements demo_mem 0 = [Some 0, Some 1]"
  by (simp add: dpl_rep_elements[OF demo_mem_rep])

lemma demo_mem_callbacks [simp]:
  "element_copy (dpl_callbacks demo_mem 0) = copy_int"
  "element_free (dpl_callbacks demo_mem 0) = free_int"
  "element_compare (dpl_callbacks demo_mem 0) = cmp_int"
  by (simp_all add: dpl_callbacks_def demo_mem_def demo_list_def)

lemma demo_mem_sel [simp]:
  "avail (nodes demo_mem) = [2]" "cells (elems demo_mem) = [0 \<mapsto> 3, 1 \<mapsto> 1, 2 \<mapsto> 2]"
  "avail (elems demo_mem) = [3]" "dom (cells (nodes demo_mem)) = {0, 1}"
  by (auto simp add: demo_mem_def)

section \<open>Properties\<close>

text \<open>
  C26: \<open>dpl_insert_at_index\<close> inserts the element, or the copy that \<open>element_copy\<close> makes of it, before
  the element at the index; an index below 1 inserts at the front, one past the end appends. The list
  stays well linked, keeps its callbacks and the other lists and their nodes are not touched. With no
  memory for the node it stops with a failed assertion.
\<close>

theorem dpl_insert_at_index_spec:
  assumes "dpl_ok H l"
  shows "if avail (nodes H) = [] then
      dpl_insert_at_index H (Some l) (Some x) index insert_copy = Inl Assert_Failed
    else \<forall>e E. stored_element (dpl_callbacks H l) insert_copy (Some x) (elems H) = Inr (e, E) \<longrightarrow>
      (\<exists>H'. dpl_insert_at_index H (Some l) (Some x) index insert_copy = Inr (Some l, H') \<and> dpl_ok H' l
        \<and> dpl_elements H' l = insert_at (min (nat index) (length (dpl_elements H l))) e (dpl_elements H l)
        \<and> dpl_callbacks H' l = (dpl_callbacks H l)\<lparr>dl_head := dl_head (dpl_callbacks H' l)\<rparr>
        \<and> elems H' = E \<and> dpl_frame l (insert (hd (avail (nodes H))) (set (addrs (dpl_chain H l)))) H H')"
proof (cases "avail (nodes H)")
  case Nil
  then show ?thesis by (simp add: dpl_insert_at_index_def malloc_def)
next
  case (Cons a as)
  obtain cb ns where ns: "dpl_rep H l cb ns" "dpl_chain H l = ns" "dpl_elements H l = map snd ns"
    "dpl_callbacks H l = cb\<lparr>dl_head := first_ptr ns NULL\<rparr>"
    using assms by (rule dpl_okE)
  show ?thesis
    using dpl_insert_rep[OF ns(1) Cons] ns Cons
    by (fastforce simp: dpl_rep_elements dpl_rep_callbacks ins_pos_def intro: dpl_okI)
qed

theorem dpl_insert_at_index_spec_witness:
  "\<exists>H'. dpl_insert_at_index demo_mem (Some 0) (Some 2) 1 True = Inr (Some 0, H')
     \<and> dpl_elements H' 0 = [Some 0, Some 3, Some 1]"
  using dpl_insert_at_index_spec[OF demo_mem_ok, of 2 1 True]
  by (auto simp: demo_mem_elements stored_element_def copy_int_def mem_simps malloc_def insert_at_def)

text \<open>
  C27: \<open>dpl_remove_at_index\<close> takes out exactly the element at the index, clamped to the list, and passes
  it to \<open>element_free\<close> when \<open>free_element\<close> is set; the node is freed, the list stays well linked, and
  other lists are not touched. On an empty list nothing happens.
\<close>

theorem dpl_remove_at_index_spec:
  assumes "dpl_ok H l"
  shows "if dpl_elements H l = [] then
      dpl_remove_at_index H (Some l) index free_element = Inr (Some l, H)
    else (let k = clamp index (length (dpl_elements H l)) in
        \<forall>E. freed_element (dpl_callbacks H l) free_element (dpl_elements H l ! k) (elems H) = Inr E \<longrightarrow>
        (\<exists>H'. dpl_remove_at_index H (Some l) index free_element = Inr (Some l, H') \<and> dpl_ok H' l
          \<and> dpl_elements H' l = take k (dpl_elements H l) @ drop (Suc k) (dpl_elements H l)
          \<and> elems H' = E \<and> avail (nodes H') = addrs (dpl_chain H l) ! k # avail (nodes H)
          \<and> dpl_frame l (set (addrs (dpl_chain H l))) H H'))"
proof -
  obtain cb ns where ns: "dpl_rep H l cb ns" "dpl_chain H l = ns" "dpl_elements H l = map snd ns"
    "dpl_callbacks H l = cb\<lparr>dl_head := first_ptr ns NULL\<rparr>"
    using assms by (rule dpl_okE)
  show ?thesis
  proof (cases "ns = []")
    case True
    then show ?thesis using ns dpl_remove_Nil[of H l cb] by simp
  next
    case False
    then have k: "clamp index (length ns) < length ns" by simp
    have "\<exists>H'. dpl_remove_at_index H (Some l) index free_element = Inr (Some l, H') \<and> dpl_ok H' l
          \<and> dpl_elements H' l = remove_nth (clamp index (length ns)) (map snd ns)
          \<and> elems H' = E \<and> avail (nodes H') = addrs ns ! clamp index (length ns) # avail (nodes H)
          \<and> dpl_frame l (set (addrs ns)) H H'"
      if "freed_element cb free_element (snd (ns ! clamp index (length ns))) (elems H) = Inr E" for E
      using dpl_remove_rep[OF ns(1) False refl that] k
      by (auto simp: dpl_rep_elements intro: dpl_okI)
    with k False show ?thesis by (simp add: ns remove_nth_def Let_def)
  qed
qed

theorem dpl_remove_at_index_spec_witness:
  "\<exists>H'. dpl_remove_at_index demo_mem (Some 0) 7 True = Inr (Some 0, H')
     \<and> dpl_elements H' 0 = [Some 0] \<and> cells (elems H') 1 = None"
  using dpl_remove_at_index_spec[OF demo_mem_ok, of 7 True]
  by (auto simp: demo_mem_elements freed_element_def free_int_def mem_simps clamp_def)

text \<open>
  \<open>dpl_size\<close> is the number of elements, and access by index returns for every index: the element
  at the index clamped to the list (\<open>NULL\<close> only for an empty list), and a reference whose index is that
  position and whose element is that element.
\<close>

theorem dpl_access_spec:
  assumes "dpl_ok H l"
  shows "dpl_size H (Some l) = Inr (int (length (dpl_elements H l)))
    \<and> dpl_get_element_at_index H (Some l) index = Inr (if dpl_elements H l = [] then NULL
        else dpl_elements H l ! clamp index (length (dpl_elements H l)))
    \<and> (dpl_elements H l \<noteq> [] \<longrightarrow> (\<exists>a. dpl_get_reference_at_index H (Some l) index = Inr (Some a)
        \<and> dpl_get_index_of_reference H (Some l) (Some a)
            = Inr (int (clamp index (length (dpl_elements H l))))
        \<and> dpl_get_element_at_reference H (Some l) (Some a)
            = dpl_get_element_at_index H (Some l) index))"
proof -
  obtain cb ns where ns: "dpl_rep H l cb ns" "dpl_elements H l = map snd ns"
    using assms by (rule dpl_okE)
  have "\<exists>a. dpl_get_reference_at_index H (Some l) index = Inr (Some a)
        \<and> dpl_get_index_of_reference H (Some l) (Some a) = Inr (int (clamp index (length ns)))
        \<and> dpl_get_element_at_reference H (Some l) (Some a) = dpl_get_element_at_index H (Some l) index"
    if ne: "ns \<noteq> []"
  proof -
    have "clamp index (length ns) < length ns" using ne by simp
    then have "ref_index (fst (ns ! clamp index (length ns))) ns = Some (clamp index (length ns))"
      using ns(1) by (intro ref_index_nth) (simp_all add: dpl_rep_def)
    then show ?thesis
      using ne by (simp add: dpl_reference_rep[OF ns(1)] dpl_index_of_reference_rep[OF ns(1)]
          dpl_element_at_reference_rep[OF ns(1)] dpl_element_rep[OF ns(1)])
  qed
  then show ?thesis using ns by (simp add: dpl_size_rep dpl_element_rep)
qed

theorem dpl_access_spec_witness:
  "dpl_size demo_mem (Some 0) = Inr 2 \<and> dpl_get_element_at_index demo_mem (Some 0) 99 = Inr (Some 1)"
  using dpl_access_spec[OF demo_mem_ok, of 99] by (simp add: demo_mem_elements clamp_def)

text \<open>
  Walking by reference: from the reference of position \<open>k\<close>, \<open>next\<close> gives that of \<open>k + 1\<close> (\<open>NULL\<close>
  from the last one) and \<open>previous\<close> leads back; \<open>first\<close> and \<open>last\<close> give the ends; a reference that is
  not in the list gives \<open>NULL\<close>, or -1 as an index.
\<close>

theorem dpl_navigation:
  assumes "dpl_ok H l"
  defines "refs \<equiv> addrs (dpl_chain H l)"
  shows "(\<forall>k. Suc k < length refs \<longrightarrow>
        dpl_get_next_reference H (Some l) (Some (refs ! k)) = Inr (Some (refs ! Suc k))
        \<and> dpl_get_previous_reference H (Some l) (Some (refs ! Suc k)) = Inr (Some (refs ! k)))
    \<and> (refs \<noteq> [] \<longrightarrow> dpl_get_first_reference H (Some l) = Inr (Some (hd refs))
        \<and> dpl_get_last_reference H (Some l) = Inr (Some (last refs))
        \<and> dpl_get_next_reference H (Some l) (Some (last refs)) = Inr NULL
        \<and> dpl_get_previous_reference H (Some l) (Some (hd refs)) = Inr NULL)
    \<and> (\<forall>a. a \<notin> set refs \<longrightarrow> dpl_get_next_reference H (Some l) (Some a) = Inr NULL
        \<and> dpl_get_previous_reference H (Some l) (Some a) = Inr NULL
        \<and> dpl_get_element_at_reference H (Some l) (Some a) = Inr NULL
        \<and> dpl_get_index_of_reference H (Some l) (Some a) = Inr (-1))"
proof -
  obtain cb ns where ns: "dpl_rep H l cb ns" "refs = addrs ns"
    using assms(1) unfolding refs_def by (rule dpl_okE) simp
  have dist: "distinct (addrs ns)" using ns(1) by (simp add: dpl_rep_def)
  note pos = ref_index_nth[OF dist]
  note rep = dpl_next_rep[OF ns(1)] dpl_previous_rep[OF ns(1)] dpl_element_at_reference_rep[OF ns(1)]
    dpl_index_of_reference_rep[OF ns(1)] dpl_first_last_rep[OF ns(1)]
  have "dpl_get_next_reference H (Some l) (Some (refs ! k)) = Inr (Some (refs ! Suc k))
        \<and> dpl_get_previous_reference H (Some l) (Some (refs ! Suc k)) = Inr (Some (refs ! k))"
    if k: "Suc k < length refs" for k
    using k by (simp add: ns(2) rep pos first_ptr_nonempty last_ptr_nonempty hd_drop_conv_nth
        take_Suc_conv_app_nth del: last_ptr_append)
  moreover have "dpl_get_first_reference H (Some l) = Inr (Some (hd refs))
        \<and> dpl_get_last_reference H (Some l) = Inr (Some (last refs))
        \<and> dpl_get_next_reference H (Some l) (Some (last refs)) = Inr NULL
        \<and> dpl_get_previous_reference H (Some l) (Some (hd refs)) = Inr NULL" if ne: "refs \<noteq> []"
    using ne pos[of 0] pos[of "length ns - 1"]
    by (simp add: ns(2) rep first_ptr_nonempty last_ptr_nonempty hd_map last_map hd_conv_nth last_conv_nth)
  moreover have "ref_index a ns = None" if "a \<notin> set refs" for a
    using that by (simp add: ns(2) ref_index_def)
  ultimately show ?thesis by (simp add: rep)
qed

theorem dpl_navigation_witness:
  "dpl_get_next_reference demo_mem (Some 0) (Some 0) = Inr (Some 1)
   \<and> dpl_get_previous_reference demo_mem (Some 0) (Some 1) = Inr (Some 0)
   \<and> dpl_get_index_of_reference demo_mem (Some 0) (Some 2) = Inr (-1)"
  using dpl_navigation[OF demo_mem_ok] by (simp add: dpl_rep_chain[OF demo_mem_rep])

text \<open>
  \<open>dpl_get_index_of_element\<close> returns the index of the first element that the callback finds equal,
  and -1 exactly when there is none.
\<close>

theorem dpl_index_of_element_first:
  assumes "dpl_ok H l"
    and "\<And>e. e \<in> set (dpl_elements H l)
      \<Longrightarrow> element_compare (dpl_callbacks H l) e x (elems H) = Inr (c e)"
  shows "if \<exists>e \<in> set (dpl_elements H l). c e = 0
    then \<exists>k < length (dpl_elements H l). dpl_get_index_of_element H (Some l) x = Inr (int k)
      \<and> c (dpl_elements H l ! k) = 0 \<and> (\<forall>j < k. c (dpl_elements H l ! j) \<noteq> 0)
    else dpl_get_index_of_element H (Some l) x = Inr (-1)"
proof -
  obtain cb ns where ns: "dpl_rep H l cb ns" "dpl_elements H l = map snd ns"
    "dpl_callbacks H l = cb\<lparr>dl_head := first_ptr ns NULL\<rparr>"
    using assms(1) by (rule dpl_okE)
  have "dpl_get_index_of_element H (Some l) x = Inr (first_index (\<lambda>e. c e = 0) (dpl_elements H l) 0)"
    using dpl_index_of_element_rep[OF ns(1), of x c] assms(2) ns by simp
  then show ?thesis using first_index_cases[OF order_refl, of "dpl_elements H l" "\<lambda>e. c e = 0"]
    by (simp only: add_0_left sum.inject)
qed

theorem dpl_index_of_element_first_witness:
  "dpl_get_index_of_element demo_mem (Some 0) (Some 1) = Inr 1"
proof -
  have "element_compare (dpl_callbacks demo_mem 0) e (Some 1) (elems demo_mem)
      = Inr (if e = Some 0 then 1 else 0)" if "e \<in> set (dpl_elements demo_mem 0)" for e
    using that by (auto simp: demo_mem_elements cmp_int_def cmp_val_def mem_simps)
  then show ?thesis
    using dpl_index_of_element_first[OF demo_mem_ok, of "Some 1" "\<lambda>e. if e = Some 0 then 1 else 0"]
    by (auto simp: demo_mem_elements less_Suc_eq)
qed

text \<open>
  C28: \<open>dpl_insert_sorted\<close> with a callback that implements a total order on the elements' values: the
  list that results is sorted and holds the old elements and the new one (or its copy, with the same
  value), whether the list was sorted before or not.
\<close>

theorem dpl_insert_sorted_sorts:
  assumes "dpl_ok H l" "avail (nodes H) \<noteq> []" "element_order compare"
    and "\<And>y z. y \<in> insert (Some x) (set (dpl_elements H l)) \<Longrightarrow> z \<in> insert (Some x) (set (dpl_elements H l))
      \<Longrightarrow> element_compare (dpl_callbacks H l) y z (elems H) = Inr (compare (v y) (v z))"
    and "stored_element (dpl_callbacks H l) insert_copy (Some x) (elems H) = Inr (e, E)" "v e = v (Some x)"
  shows "\<exists>H'. dpl_insert_sorted H (Some l) (Some x) insert_copy = Inr (Some l, H') \<and> dpl_ok H' l
    \<and> sorted_wrt (\<lambda>y z. compare (v y) (v z) \<noteq> 1) (dpl_elements H' l)
    \<and> mset (dpl_elements H' l) = add_mset e (mset (dpl_elements H l)) \<and> elems H' = E"
proof -
  let ?c = "\<lambda>y z. compare (v y) (v z)"
  define es where "es = bsort ?c (dpl_elements H l) []"
  obtain H' where H': "dpl_insert_sorted H (Some l) (Some x) insert_copy = Inr (Some l, H')" "dpl_ok H' l"
    "dpl_elements H' l = insert_at (sorted_pos (\<lambda>y. ?c y (Some x) = 1) es) e es" "elems H' = E"
    using dpl_insert_sorted_elements[OF assms(1,2,5), of ?c] assms(4) unfolding es_def by blast
  have "sorted_wrt (\<lambda>y z. ?c y z \<noteq> 1) es"
    unfolding es_def by (rule element_order.bsort_sorted[OF assms(3)]) simp_all
  then have "sorted_wrt (\<lambda>y z. ?c y z \<noteq> 1) (dpl_elements H' l)"
    unfolding H'(3) insert_at_def using assms(6)
    by (rule element_order.insert_sorted[OF assms(3), of v es e "Some x"])
  with H' show ?thesis by (simp add: es_def bsort_mset)
qed

theorem dpl_insert_sorted_sorts_witness:
  "\<exists>H'. dpl_insert_sorted demo_mem (Some 0) (Some 2) False = Inr (Some 0, H')
     \<and> mset (dpl_elements H' 0) = {#Some 0, Some 1, Some 2#}"
proof -
  let ?v = "\<lambda>p. the (cells (elems demo_mem) (the p))"
  have "element_compare (dpl_callbacks demo_mem 0) y z (elems demo_mem) = Inr (cmp_val (?v y) (?v z))"
    if "y \<in> insert (Some 2) (set (dpl_elements demo_mem 0))"
      "z \<in> insert (Some 2) (set (dpl_elements demo_mem 0))" for y z
    using that by (auto simp: demo_mem_elements cmp_int_def mem_simps)
  from dpl_insert_sorted_sorts[OF demo_mem_ok _ cmp_val.element_order_axioms this,
      where insert_copy = False and e = "Some 2"]
  show ?thesis by (auto simp: demo_mem_elements stored_element_def add_mset_commute)
qed

text \<open>
  C29: Whatever consistent answers the callback gives, order or not, \<open>dpl_insert_sorted\<close> returns: the
  bubble sort ends, and the elements afterwards are the old ones and the new one.
\<close>

theorem dpl_insert_sorted_total:
  assumes "dpl_ok H l" "avail (nodes H) \<noteq> []"
    and "\<And>y z. y \<in> insert (Some x) (set (dpl_elements H l)) \<Longrightarrow> z \<in> insert (Some x) (set (dpl_elements H l))
      \<Longrightarrow> element_compare (dpl_callbacks H l) y z (elems H) = Inr (c y z)"
    and "stored_element (dpl_callbacks H l) insert_copy (Some x) (elems H) = Inr (e, E)"
  shows "\<exists>H'. dpl_insert_sorted H (Some l) (Some x) insert_copy = Inr (Some l, H') \<and> dpl_ok H' l
    \<and> mset (dpl_elements H' l) = add_mset e (mset (dpl_elements H l))"
  using dpl_insert_sorted_elements[OF assms(1,2,4), of c] assms(3) by (fastforce simp: bsort_mset)

theorem dpl_insert_sorted_total_witness:
  "\<exists>H'. dpl_insert_sorted demo_mem (Some 0) (Some 2) True = Inr (Some 0, H') \<and> dpl_ok H' 0
     \<and> mset (dpl_elements H' 0) = {#Some 0, Some 1, Some 3#}"
proof -
  let ?c = "\<lambda>p q. cmp_val (the (cells (elems demo_mem) (the p))) (the (cells (elems demo_mem) (the q)))"
  have "element_compare (dpl_callbacks demo_mem 0) y z (elems demo_mem) = Inr (?c y z)"
    if "y \<in> insert (Some 2) (set (dpl_elements demo_mem 0))"
      "z \<in> insert (Some 2) (set (dpl_elements demo_mem 0))" for y z
    using that by (auto simp: demo_mem_elements cmp_int_def mem_simps)
  from dpl_insert_sorted_total[OF demo_mem_ok _ this, where insert_copy = True and e = "Some 3"]
  show ?thesis
    by (auto simp: demo_mem_elements stored_element_def copy_int_def mem_simps malloc_def add_mset_commute)
qed

text \<open>
  \<open>dpl_free\<close> on a list returns with the caller's pointer set to \<open>NULL\<close>: the list structure and all
  of its nodes are freed, exactly those, and every element goes through \<open>element_free\<close> once, in order,
  when \<open>free_element\<close> is set. Other lists and nodes keep their contents.
\<close>

theorem dpl_free_spec:
  assumes "dpl_ok H l"
    and "free_elements (dpl_callbacks H l) free_element (dpl_elements H l) (elems H) = Inr E"
  shows "\<exists>H'. dpl_free H (Some (Some l)) free_element = Inr (NULL, H') \<and> elems H' = E
    \<and> dom (cells (nodes H')) = dom (cells (nodes H)) - set (addrs (dpl_chain H l))
    \<and> dom (cells (lists H')) = dom (cells (lists H)) - {l}
    \<and> dpl_frame l (set (addrs (dpl_chain H l))) H H'"
proof -
  obtain cb ns where ns: "dpl_rep H l cb ns" "dpl_chain H l = ns" "dpl_elements H l = map snd ns"
    "dpl_callbacks H l = cb\<lparr>dl_head := first_ptr ns NULL\<rparr>"
    using assms(1) by (rule dpl_okE)
  have "free_elements cb free_element (map snd ns) (elems H) = Inr E" using assms(2) ns by simp
  then show ?thesis by (rule dpl_free_rep[OF ns(1)]) (auto simp: ns(2))
qed

theorem dpl_free_spec_witness:
  "\<exists>H'. dpl_free demo_mem (Some (Some 0)) True = Inr (NULL, H') \<and> dom (cells (nodes H')) = {}
     \<and> cells (elems H') = [2 \<mapsto> 2]"
proof -
  have "free_elements (dpl_callbacks demo_mem 0) True (dpl_elements demo_mem 0) (elems demo_mem)
      = Inr ((elems demo_mem)\<lparr>cells := [0 \<mapsto> 3, 1 \<mapsto> 1, 2 \<mapsto> 2](0 := None, 1 := None), avail := [1, 0, 3]\<rparr>)"
    by (simp add: demo_mem_elements freed_element_def free_int_def mem_simps)
  moreover have "[0 \<mapsto> 3, 1 \<mapsto> 1, 2 \<mapsto> 2](0 := None, 1 := None) = [2::nat \<mapsto> 2::int]" by auto
  ultimately show ?thesis
    using dpl_free_spec[OF demo_mem_ok, of True]
    by (auto simp: dpl_rep_chain[OF demo_mem_rep])
qed

text \<open>
  Removing at the position where an element was inserted undoes the insertion, for every index:
  the element can be read there in between, and the list's contents are those of before.
\<close>

theorem dpl_insert_then_remove:
  fixes i :: int
  assumes "dpl_ok H l" "avail (nodes H) \<noteq> []"
  defines "k \<equiv> int (min (nat i) (length (dpl_elements H l)))"
  shows "\<exists>H1 H2. dpl_insert_at_index H (Some l) (Some x) i False = Inr (Some l, H1)
    \<and> dpl_get_element_at_index H1 (Some l) k = Inr (Some x)
    \<and> dpl_remove_at_index H1 (Some l) k False = Inr (Some l, H2)
    \<and> dpl_ok H2 l \<and> dpl_elements H2 l = dpl_elements H l"
proof -
  have k: "k = int (ins_pos i (length (dpl_elements H l)))" by (simp add: k_def ins_pos_def)
  obtain H1 H2 where H: "ins_plain l H x i = Inr H1" "dpl_get_element_at_index H1 (Some l) k = Inr (Some x)"
    "rem_plain l H1 k = Inr H2" "dpl_ok H2 l" "dpl_elements H2 l = dpl_elements H l"
    using dpl.insert_get_remove[OF assms(1,2) k, of x] by blast
  have "dpl_insert_at_index H (Some l) (Some x) i False = Inr (Some l, H1)"
    using H(1) dpl_insert_returns_list[of H l "Some x" i False] by (auto simp: ins_plain_def bindR_Inr_iff)
  moreover have "dpl_remove_at_index H1 (Some l) k False = Inr (Some l, H2)"
    using H(3) dpl_remove_returns_list[of H1 l k False] by (auto simp: rem_plain_def bindR_Inr_iff)
  ultimately show ?thesis using H(2,4,5) by blast
qed

theorem dpl_insert_then_remove_witness:
  "\<exists>H1 H2. dpl_insert_at_index demo_mem (Some 0) (Some 2) 1 False = Inr (Some 0, H1)
     \<and> dpl_remove_at_index H1 (Some 0) 1 False = Inr (Some 0, H2) \<and> dpl_elements H2 0 = [Some 0, Some 1]"
  using dpl_insert_then_remove[OF demo_mem_ok, where i = 1 and x = 2]
  by (auto simp: demo_mem_elements)

lemma first_index_at:
  assumes "k < length xs" "P (xs ! k)" "\<forall>j < k. \<not> P (xs ! j)"
  shows "first_index P xs 0 = int k"
proof -
  have "\<exists>x \<in> set xs. P x" using assms(1,2) nth_mem by blast
  then obtain k' where k': "first_index P xs 0 = int k'" "P (xs ! k')" "\<forall>j < k'. \<not> P (xs ! j)"
    using first_index_cases[OF order_refl, of xs P] by auto
  have "k' = k" using k'(2,3) assms(2,3) by (meson linorder_neqE_nat)
  then show ?thesis using k'(1) by simp
qed

lemma first_index_never: "\<forall>x \<in> set xs. \<not> P x \<Longrightarrow> first_index P xs 0 = -1"
  using first_index_cases[OF order_refl, of xs P] by auto

lemma dpl_remove_element_first:
  assumes "dpl_ok H l"
    and c: "\<forall>e \<in> set (dpl_elements H l). element_compare (dpl_callbacks H l) e x (elems H) = Inr (c e)"
  shows "k < length (dpl_elements H l) \<Longrightarrow> c (dpl_elements H l ! k) = 0 \<Longrightarrow> \<forall>j < k. c (dpl_elements H l ! j) \<noteq> 0
      \<Longrightarrow> dpl_remove_element H (Some l) x fr = dpl_remove_at_index H (Some l) (int k) fr"
    and "\<forall>e \<in> set (dpl_elements H l). c e \<noteq> 0 \<Longrightarrow> dpl_remove_element H (Some l) x fr = Inr (Some l, H)"
proof -
  obtain cb ns where ns: "dpl_rep H l cb ns" "dpl_elements H l = map snd ns"
    "dpl_callbacks H l = cb\<lparr>dl_head := first_ptr ns NULL\<rparr>"
    using assms(1) by (rule dpl_okE)
  have head: "load (lists H) (Some l) = Inr (cb\<lparr>dl_head := first_ptr ns NULL\<rparr>)"
    using ns(1) by (simp add: dpl_rep_def mem_simps)
  have "\<forall>e \<in> set (map snd ns). element_compare cb e x (elems H) = Inr (c e)" using c ns(2,3) by simp
  then have "dpl_get_index_of_element H (Some l) x = Inr (first_index (\<lambda>e. c e = 0) (dpl_elements H l) 0)"
    unfolding ns(2) by (rule dpl_index_of_element_rep[OF ns(1)])
  then have r: "dpl_remove_element H (Some l) x fr = (let i = first_index (\<lambda>e. c e = 0) (dpl_elements H l) 0 in
      if i = -1 then Inr (Some l, H) else dpl_remove_at_index H (Some l) i fr)"
    by (cases "ns = []") (simp_all add: dpl_remove_element_def head ns(2) Let_def)
  show "k < length (dpl_elements H l) \<Longrightarrow> c (dpl_elements H l ! k) = 0 \<Longrightarrow> \<forall>j < k. c (dpl_elements H l ! j) \<noteq> 0
      \<Longrightarrow> dpl_remove_element H (Some l) x fr = dpl_remove_at_index H (Some l) (int k) fr"
    unfolding r using first_index_at[of k "dpl_elements H l" "\<lambda>e. c e = 0"] by (simp add: Let_def)
  show "\<forall>e \<in> set (dpl_elements H l). c e \<noteq> 0 \<Longrightarrow> dpl_remove_element H (Some l) x fr = Inr (Some l, H)"
    unfolding r using first_index_never[of "dpl_elements H l" "\<lambda>e. c e = 0"] by (simp add: Let_def)
qed

text \<open>
  C39: Insertion and removal by reference act at the position of the reference, and leave the list as it is when
  there is none; a \<open>NULL\<close> reference appends, and removes the last element. When the callback answers all
  comparisons, removal by element acts at the first position whose element it finds equal, and leaves the list as
  it is when there is none.
\<close>

theorem dpl_reference_updates:
  assumes "dpl_ok H l"
  defines "n \<equiv> length (dpl_elements H l)"
  shows "dpl_insert_at_reference H (Some l) x NULL cpy = dpl_insert_at_index H (Some l) x (int n) cpy
    \<and> dpl_remove_at_reference H (Some l) NULL fr = dpl_remove_at_index H (Some l) (int n - 1) fr
    \<and> (\<forall>k < n. \<forall>a. a = addrs (dpl_chain H l) ! k \<longrightarrow>
        dpl_insert_at_reference H (Some l) x (Some a) cpy = dpl_insert_at_index H (Some l) x (int k) cpy
        \<and> dpl_remove_at_reference H (Some l) (Some a) fr = dpl_remove_at_index H (Some l) (int k) fr)
    \<and> (\<forall>a. a \<notin> set (addrs (dpl_chain H l)) \<longrightarrow>
        dpl_insert_at_reference H (Some l) x (Some a) cpy = Inr (Some l, H)
        \<and> dpl_remove_at_reference H (Some l) (Some a) fr = Inr (Some l, H))
    \<and> (\<forall>c. (\<forall>e \<in> set (dpl_elements H l). element_compare (dpl_callbacks H l) e x (elems H) = Inr (c e)) \<longrightarrow>
        (\<forall>k < n. c (dpl_elements H l ! k) = 0 \<and> (\<forall>j < k. c (dpl_elements H l ! j) \<noteq> 0) \<longrightarrow>
           dpl_remove_element H (Some l) x fr = dpl_remove_at_index H (Some l) (int k) fr)
        \<and> ((\<forall>e \<in> set (dpl_elements H l). c e \<noteq> 0) \<longrightarrow> dpl_remove_element H (Some l) x fr = Inr (Some l, H)))"
proof -
  obtain cb ns where ns: "dpl_rep H l cb ns" "dpl_chain H l = ns" "dpl_elements H l = map snd ns"
    using assms(1) by (rule dpl_okE)
  have head: "load (lists H) (Some l) = Inr (cb\<lparr>dl_head := first_ptr ns NULL\<rparr>)"
    using ns(1) by (simp add: dpl_rep_def mem_simps)
  have dist: "distinct (addrs ns)" using ns(1) by (simp add: dpl_rep_def)
  note defs = dpl_insert_at_reference_def dpl_remove_at_reference_def
    head dpl_size_rep[OF ns(1)] dpl_index_of_reference_rep[OF ns(1)] n_def ns
  have none: "ns = [] \<Longrightarrow> dpl_remove_at_index H (Some l) i fr = Inr (Some l, H)" for i
    using dpl_remove_Nil[of H l cb] ns by simp
  have hit: "ref_index (fst (ns ! k)) ns = Some k" if "k < length ns" for k
    by (rule ref_index_nth[OF dist that])
  have miss: "ref_index a ns = None" if "a \<notin> set (addrs ns)" for a using that by (simp add: ref_index_def)
  have "dpl_remove_element H (Some l) x fr = dpl_remove_at_index H (Some l) (int k) fr"
    if "\<forall>e \<in> set (dpl_elements H l). element_compare (dpl_callbacks H l) e x (elems H) = Inr (c e)"
      "k < n" "c (dpl_elements H l ! k) = 0" "\<forall>j < k. c (dpl_elements H l ! j) \<noteq> 0" for c k
    using dpl_remove_element_first(1)[OF assms(1) that(1)] that(2-4) by (simp add: n_def)
  note by_element = this dpl_remove_element_first(2)[OF assms(1)]
  have r: "dpl_insert_at_reference H (Some l) x NULL cpy = dpl_insert_at_index H (Some l) x (int n) cpy"
    "dpl_remove_at_reference H (Some l) NULL fr = dpl_remove_at_index H (Some l) (int n - 1) fr"
    "\<forall>k < n. \<forall>a. a = addrs (dpl_chain H l) ! k \<longrightarrow>
        dpl_insert_at_reference H (Some l) x (Some a) cpy = dpl_insert_at_index H (Some l) x (int k) cpy
        \<and> dpl_remove_at_reference H (Some l) (Some a) fr = dpl_remove_at_index H (Some l) (int k) fr"
    "\<forall>a. a \<notin> set (addrs (dpl_chain H l)) \<longrightarrow>
        dpl_insert_at_reference H (Some l) x (Some a) cpy = Inr (Some l, H)
        \<and> dpl_remove_at_reference H (Some l) (Some a) fr = Inr (Some l, H)"
    by (atomize (full), cases "ns = []", simp add: defs none ref_index_def, simp add: defs hit miss)
  show ?thesis
    by (intro conjI, rule r(1), rule r(2), rule r(3), rule r(4), intro allI impI conjI, elim conjE)
      (rule by_element; assumption)+
qed

theorem dpl_reference_updates_witness:
  "dpl_insert_at_reference demo_mem (Some 0) (Some 2) (Some 1) False
     = dpl_insert_at_index demo_mem (Some 0) (Some 2) 1 False"
  using dpl_reference_updates[OF demo_mem_ok, of "Some 2" False False]
  by (auto simp: dpl_rep_chain[OF demo_mem_rep] demo_mem_elements)

end
