(* ===== verification/Stdio.thy ===== *)
theory Stdio
  imports Config
begin

text \<open>
  What the gateway uses of \<open>stdio.h\<close>: the conversions of \<open>printf\<close> (\<open>%ld\<close>, \<open>%d\<close>, \<open>%hu\<close>, \<open>%u\<close>, \<open>%f\<close>) and the
  conversion \<open>%hu\<close> of \<open>sscanf\<close>, \<open>getline\<close> and \<open>fgets\<close> on the contents of a file, and \<open>fread\<close> of the
  measurement fields of a binary file (little endian). Strings are lists of characters.
\<close>

section \<open>Numbers as text\<close>

abbreviation nl :: char where "nl \<equiv> CHR 0x0A"

definition digit_char :: "nat \<Rightarrow> char" where
  "digit_char d = char_of (48 + d)"

definition digit_val :: "char \<Rightarrow> nat option" where
  "digit_val c = (let n = of_char c in if 48 \<le> n \<and> n \<le> 57 then Some (n - 48) else None)"

fun dec :: "nat \<Rightarrow> string" where
  "dec n = (if n < 10 then [digit_char n] else dec (n div 10) @ [digit_char (n mod 10)])"

declare dec.simps [simp del]

definition pr_d :: "int \<Rightarrow> string" where
  "pr_d i = (if i < 0 then ''-'' @ dec (nat (- i)) else dec (nat i))"

definition pr_ld :: "64 word \<Rightarrow> string" where
  "pr_ld w = pr_d (sint w)"

definition pr_hu :: "16 word \<Rightarrow> string" where
  "pr_hu w = dec (unat w)"

text \<open>
  \<open>%f\<close>: six decimals, correctly rounded. The sign of a zero and of a NaN is not kept by the type
  \<open>double\<close> of this development and not printed.
\<close>

fun pr_f :: "double \<Rightarrow> string" where
  "pr_f (Finite n) =
     (let m = nat (rne (\<bar>n\<bar> * 10 ^ 6) one_units); frac = dec (m mod 10 ^ 6)
      in (if n < 0 then ''-'' else []) @ dec (m div 10 ^ 6) @ ''.''
         @ replicate (6 - length frac) (CHR ''0'') @ frac)"
| "pr_f PosInf = ''inf''"
| "pr_f NegInf = ''-inf''"
| "pr_f NaN = ''nan''"

section \<open>Text as numbers\<close>

definition is_space :: "char \<Rightarrow> bool" where
  "is_space c = (let n = of_char c :: nat in n = 32 \<or> (9 \<le> n \<and> n \<le> 13))"

fun scan_digits :: "string \<Rightarrow> nat \<Rightarrow> nat \<times> string" where
  "scan_digits [] n = (n, [])"
| "scan_digits (c # cs) n =
     (case digit_val c of None \<Rightarrow> (n, c # cs) | Some d \<Rightarrow> scan_digits cs (10 * n + d))"

definition starts_with_digit :: "string \<Rightarrow> bool" where
  "starts_with_digit s = (case s of [] \<Rightarrow> False | c # _ \<Rightarrow> digit_val c \<noteq> None)"

text \<open>
  \<open>%hu\<close>: white space is skipped, a sign may precede the digits, the value is read as an
  \<open>unsigned long\<close> (saturating, as \<open>strtoul\<close> does) and stored as an \<open>unsigned short\<close>. \<open>None\<close> is a
  failed conversion, which stores nothing.
\<close>

definition scan_hu :: "string \<Rightarrow> (16 word \<times> string) option" where
  "scan_hu s =
     (let t = dropWhile is_space s;
          minus = (case t of c # _ \<Rightarrow> c = CHR ''-'' | [] \<Rightarrow> False);
          signed = (case t of c # _ \<Rightarrow> c = CHR ''-'' \<or> c = CHR ''+'' | [] \<Rightarrow> False);
          u = (if signed then tl t else t)
      in if starts_with_digit u then
           (let (n, r) = scan_digits u 0
            in Some (if 2 ^ 64 \<le> n then -1 else if minus then - of_nat n else of_nat n, r))
         else None)"

text \<open>\<open>atoi\<close>: zero without digits; the behaviour is undefined when the value is not an \<open>int\<close>.\<close>

definition atoi :: "string \<Rightarrow> int res" where
  "atoi s =
     (let t = dropWhile is_space s;
          minus = (case t of c # _ \<Rightarrow> c = CHR ''-'' | [] \<Rightarrow> False);
          signed = (case t of c # _ \<Rightarrow> c = CHR ''-'' \<or> c = CHR ''+'' | [] \<Rightarrow> False);
          n = int (fst (scan_digits (if signed then tl t else t) 0));
          v = (if minus then - n else n)
      in if v < INT_MIN \<or> INT_MAX < v then Inl Int_Overflow else Inr v)"

section \<open>Files\<close>

text \<open>\<open>getline\<close>: the next line with its newline, and what is left; \<open>None\<close> at the end of the file.\<close>

fun take_line :: "string \<Rightarrow> string \<times> string" where
  "take_line [] = ([], [])"
| "take_line (c # cs) = (if c = nl then ([c], cs) else apfst ((#) c) (take_line cs))"

definition getline :: "string \<Rightarrow> (string \<times> string) option" where
  "getline s = (if s = [] then None else Some (take_line s))"

text \<open>\<open>fgets\<close> with a buffer of \<open>n + 1\<close> bytes: at most \<open>n\<close> characters, up to a newline.\<close>

fun take_upto :: "nat \<Rightarrow> string \<Rightarrow> string \<times> string" where
  "take_upto 0 s = ([], s)"
| "take_upto (Suc n) [] = ([], [])"
| "take_upto (Suc n) (c # cs) = (if c = nl then ([c], cs) else apfst ((#) c) (take_upto n cs))"

text \<open>
  \<open>fread\<close> of one object of \<open>n\<close> bytes: \<open>None\<close> when the file ends inside the object, which leaves
  its value indeterminate; at the end of the file the object keeps its value (\<open>Some None\<close>).
\<close>

type_synonym byte = "8 word"

definition fread :: "nat \<Rightarrow> byte list \<Rightarrow> (byte list option \<times> byte list) option" where
  "fread n bs = (if bs = [] then Some (None, [])
     else if length bs < n then None else Some (Some (take n bs), drop n bs))"

fun le_nat :: "byte list \<Rightarrow> nat" where
  "le_nat [] = 0"
| "le_nat (b # bs) = unat b + 256 * le_nat bs"

section \<open>Facts\<close>

lemma digit_val_char [simp]: "d < 10 \<Longrightarrow> digit_val (digit_char d) = Some d"
  by (simp add: digit_val_def digit_char_def of_char_of)

lemma dec_nonempty [simp]: "dec n \<noteq> []"
  by (subst dec.simps) simp

lemma dec_hd: "\<exists>d < 10. hd (dec n) = digit_char d"
proof (induction n rule: dec.induct)
  case (1 n)
  then show ?case by (cases "n < 10") (auto simp: dec.simps[of n] hd_append)
qed

lemma scan_digits_append:
  "(\<forall>c \<in> set ds. digit_val c \<noteq> None) \<Longrightarrow> scan_digits (ds @ r) n = scan_digits r (fst (scan_digits ds n))"
  by (induction ds arbitrary: n) auto

lemma dec_digits: "\<forall>c \<in> set (dec n). digit_val c \<noteq> None"
proof (induction n rule: dec.induct)
  case (1 n)
  then show ?case by (cases "n < 10") (auto simp: dec.simps[of n])
qed

lemma scan_digits_dec: "fst (scan_digits (dec n) m) = m * 10 ^ length (dec n) + n"
proof (induction n arbitrary: m rule: dec.induct)
  case (1 n)
  show ?case
  proof (cases "n < 10")
    case True
    then show ?thesis by (simp add: dec.simps[of n])
  next
    case False
    then have "fst (scan_digits (dec n) m) = 10 * (m * 10 ^ length (dec (n div 10)) + n div 10) + n mod 10"
      using 1 by (simp add: dec.simps[of n] scan_digits_append[OF dec_digits])
    also have "\<dots> = m * 10 ^ length (dec n) + n"
      using False by (simp add: dec.simps[of n] algebra_simps)
    finally show ?thesis .
  qed
qed

lemma scan_dec: "\<not> starts_with_digit r \<Longrightarrow> scan_digits (dec n @ r) 0 = (n, r)"
proof -
  assume r: "\<not> starts_with_digit r"
  have "scan_digits (dec n @ r) 0 = scan_digits r n"
    using scan_digits_append[OF dec_digits, of n r 0] scan_digits_dec[of n 0] by simp
  also have "\<dots> = (n, r)" using r by (cases r) (auto simp: starts_with_digit_def)
  finally show ?thesis .
qed

text \<open>Printing and reading back.\<close>

lemma unat_16: "unat (w :: 16 word) < 65536"
  using unsigned_less[of w, where 'a = nat] by simp

lemma digit_char_not_space: "d < 10 \<Longrightarrow> \<not> is_space (digit_char d)"
  by (simp add: is_space_def digit_char_def of_char_of)

lemma digit_char_not_sign: "d < 10 \<Longrightarrow> digit_char d \<noteq> CHR ''-'' \<and> digit_char d \<noteq> CHR ''+''"
  using digit_val_char[of d] by (auto simp: digit_val_def)

lemma scan_pr_hu:
  assumes "\<forall>c \<in> set ws. is_space c" "\<not> starts_with_digit r"
  shows "scan_hu (ws @ pr_hu w @ r) = Some (w, r)"
proof -
  obtain d ds where d: "dec (unat w) = digit_char d # ds" "d < 10"
    using dec_hd[of "unat w"] by (metis dec_nonempty list.collapse)
  have small: "\<not> 2 ^ 64 \<le> unat w" using unat_16[of w] by simp
  have "dropWhile is_space (ws @ pr_hu w @ r) = pr_hu w @ r"
    using assms(1) d digit_char_not_space by (simp add: pr_hu_def)
  moreover have "starts_with_digit (pr_hu w @ r)" using d by (simp add: pr_hu_def starts_with_digit_def)
  ultimately show ?thesis
    using d digit_char_not_sign[OF d(2)] scan_dec[OF assms(2), of "unat w"] small
    by (simp add: scan_hu_def pr_hu_def Let_def)
qed

lemma atoi_pr_d:
  assumes "INT_MIN \<le> n" "n \<le> INT_MAX"
  shows "atoi (pr_d n) = Inr n"
proof -
  obtain d ds where d: "dec (nat \<bar>n\<bar>) = digit_char d # ds" "d < 10"
    using dec_hd[of "nat \<bar>n\<bar>"] by (metis dec_nonempty list.collapse)
  have r: "scan_digits (dec k) 0 = (k, [])" for k using scan_dec[of "[]" k] by (simp add: starts_with_digit_def)
  show ?thesis
  proof (cases "n < 0")
    case True
    then have "pr_d n = CHR ''-'' # dec (nat \<bar>n\<bar>)" by (simp add: pr_d_def)
    moreover have "\<not> is_space (CHR ''-'')" by (simp add: is_space_def)
    ultimately show ?thesis using True assms by (simp add: atoi_def r)
  next
    case False
    then have "pr_d n = digit_char d # ds" "scan_digits (digit_char d # ds) 0 = (nat n, [])"
      using d(1) r[of "nat n"] by (simp_all add: pr_d_def)
    then show ?thesis
      using False assms digit_char_not_space[OF d(2)] digit_char_not_sign[OF d(2)] by (simp add: atoi_def)
  qed
qed

lemma take_line_append: "nl \<notin> set l \<Longrightarrow> take_line (l @ nl # r) = (l @ [nl], r)"
  by (induction l) auto

lemma take_upto_line: "nl \<notin> set l \<Longrightarrow> length l < n \<Longrightarrow> take_upto n (l @ nl # r) = (l @ [nl], r)"
proof (induction l arbitrary: n)
  case Nil
  then show ?case by (cases n) auto
next
  case (Cons c l)
  then show ?case by (cases n) auto
qed

lemma take_line_smaller: "s \<noteq> [] \<Longrightarrow> length (snd (take_line s)) < length s"
proof -
  have "length (snd (take_line s)) \<le> length s" for s by (induction s) auto
  then show "s \<noteq> [] \<Longrightarrow> length (snd (take_line s)) < length s"
    by (cases s) (auto simp: less_Suc_eq_le)
qed

lemma take_upto_smaller: "s \<noteq> [] \<Longrightarrow> 0 < n \<Longrightarrow> length (snd (take_upto n s)) < length s"
proof -
  have "length (snd (take_upto n s)) \<le> length s" for n s by (induction n s rule: take_upto.induct) auto
  then show "s \<noteq> [] \<Longrightarrow> 0 < n \<Longrightarrow> length (snd (take_upto n s)) < length s"
    by (cases s; cases n) (auto simp: less_Suc_eq_le)
qed

text \<open>Lengths and characters of printed numbers.\<close>

lemma dec_length: "n < 10 ^ k \<Longrightarrow> 0 < k \<Longrightarrow> length (dec n) \<le> k"
proof (induction n arbitrary: k rule: dec.induct)
  case (1 n)
  show ?case
  proof (cases "n < 10")
    case True
    then show ?thesis using 1 by (simp add: dec.simps[of n])
  next
    case False
    then obtain j where k: "k = Suc j" "0 < j" using 1(2,3) by (cases k; cases "k - 1") auto
    then have "n div 10 < 10 ^ j" using 1(2) by auto
    then show ?thesis using 1(1)[OF False _ k(2)] False k by (simp add: dec.simps[of n])
  qed
qed

lemma pr_hu_length: "length (pr_hu w) \<le> 5"
  unfolding pr_hu_def by (rule dec_length) (use unat_16[of w] in simp_all)

lemma pr_ld_length: "length (pr_ld w) \<le> 20"
proof -
  have "nat (sint w) < 10 ^ 19" "nat (- sint w) < 10 ^ 19"
    using sint_lt[of w] sint_ge[of w] by simp_all
  then have "length (dec (nat (sint w))) \<le> 19" "length (dec (nat (- sint w))) \<le> 19"
    by (simp_all add: dec_length)
  then show ?thesis by (simp add: pr_ld_def pr_d_def)
qed

lemma digit_val_nl [simp]: "digit_val nl = None"
  by (simp add: digit_val_def)

lemma nl_notin_dec [simp]: "nl \<notin> set (dec n)"
  using dec_digits[of n] by auto

lemma nl_notin_pr [simp]: "nl \<notin> set (pr_hu w)" "nl \<notin> set (pr_d i)" "nl \<notin> set (pr_ld x)" "nl \<notin> set (pr_f v)"
  by (simp_all add: pr_hu_def pr_d_def pr_ld_def) (cases v, simp_all add: Let_def)

section \<open>Binary files\<close>

text \<open>The bytes of a number, least significant first.\<close>

fun le_bytes :: "nat \<Rightarrow> nat \<Rightarrow> byte list" where
  "le_bytes 0 n = []"
| "le_bytes (Suc k) n = of_nat (n mod 256) # le_bytes k (n div 256)"

lemma length_le_bytes [simp]: "length (le_bytes k n) = k"
  by (induction k arbitrary: n) auto

lemma unat_byte: "n < 256 \<Longrightarrow> unat (of_nat n :: byte) = n"
  by (simp add: unsigned_of_nat take_bit_nat_eq_self)

lemma le_nat_bytes: "n < 256 ^ k \<Longrightarrow> le_nat (le_bytes k n) = n"
proof (induction k arbitrary: n)
  case (Suc k)
  then have "n div 256 < 256 ^ k" by (simp add: less_mult_imp_div_less mult.commute)
  then show ?case using Suc by (simp add: unat_byte)
qed simp

lemma le_word: "(of_nat (le_nat (le_bytes 8 (unat w))) :: 64 word) = w"
proof -
  have "unat w < 256 ^ 8" using unsigned_less[of w, where 'a = nat] by simp
  then show ?thesis by (simp add: le_nat_bytes)
qed

lemma le_id: "(of_nat (le_nat (le_bytes 2 (unat i))) :: 16 word) = i"
proof -
  have "unat i < 256 ^ 2" using unat_16[of i] by simp
  then show ?thesis by (simp add: le_nat_bytes)
qed

lemma fread_bytes: "length bs = n \<Longrightarrow> 0 < n \<Longrightarrow> fread n (bs @ r) = Some (Some bs, r)"
  by (auto simp: fread_def)

text \<open>A record of a measurement file: id, bits of the value, time.\<close>

definition file_record :: "16 word \<times> 64 word \<times> 64 word \<Rightarrow> byte list" where
  "file_record x = le_bytes 2 (unat (fst x)) @ le_bytes 8 (unat (fst (snd x))) @ le_bytes 8 (unat (snd (snd x)))"

end
