(* ===== verification/Logfifo.thy ===== *)
theory Logfifo
  imports Stdio
begin

text \<open>
  The log events (\<open>write_to_fifo\<close> and \<open>fifo_to_log\<close> of \<open>main.c\<close>). A thread of the main process formats a
  message and writes it to the FIFO; the log process reads the FIFO with \<open>fgets\<close> into a buffer of
  \<open>MAX_BUF = 200\<close> bytes and appends each piece, with a sequence number, to \<open>gateway.log\<close>.

  What the operating system answers (\<open>mkfifo\<close>, \<open>fopen\<close>, \<open>fputs\<close>, \<open>fclose\<close>, \<open>time\<close>, the allocation in
  \<open>asprintf\<close>) is part of the state \<open>world\<close>, as a stream of answers with the number of those used.
\<close>

section \<open>The main process: writing log events\<close>

datatype mkfifo_result = Fifo_Created | Fifo_Exists | Fifo_Error

record fifo_calls =
  mkfifo_call :: mkfifo_result
  fopen_ok :: bool
  fputs_ok :: bool
  fclose_ok :: bool

record world =
  fifo :: string
  fifo_answers :: "nat \<Rightarrow> fifo_calls"
  nwrites :: nat
  clock :: "nat \<Rightarrow> sensor_ts_t"
  ticks :: nat
  heap :: "nat \<Rightarrow> bool"
  nallocs :: nat

text \<open>The check macros of \<open>config.h\<close>: a failed call ends the process.\<close>

definition check_exit :: "bool \<Rightarrow> unit res" where
  "check_exit ok = (if ok then Inr () else Inl Exit_Failure)"

definition write_to_fifo :: "string \<Rightarrow> world \<Rightarrow> world res" where
  "write_to_fifo info_message w =
     (let c = fifo_answers w (nwrites w); w = w\<lparr>nwrites := Suc (nwrites w)\<rparr> in
      bindR (check_exit (mkfifo_call c \<noteq> Fifo_Error)) (\<lambda>_.
      bindR (check_exit (fopen_ok c)) (\<lambda>_.
      bindR (check_exit (fputs_ok c)) (\<lambda>_.
      bindR (check_exit (fclose_ok c)) (\<lambda>_.
      Inr (w\<lparr>fifo := fifo w @ info_message\<rparr>))))))"

definition time_now :: "world \<Rightarrow> sensor_ts_t \<times> world" where
  "time_now w = (clock w (ticks w), w\<lparr>ticks := Suc (ticks w)\<rparr>)"

text \<open>An allocation on the heap by \<open>malloc\<close> or \<open>asprintf\<close>, of memory that the caller frees again.\<close>

definition heap_alloc :: "world \<Rightarrow> bool \<times> world" where
  "heap_alloc w = (heap w (nallocs w), w\<lparr>nallocs := Suc (nallocs w)\<rparr>)"

text \<open>
  The block that logs an event: \<open>asprintf\<close> with the time, then \<open>write_to_fifo\<close> under the mutex. The
  result of \<open>asprintf\<close> is not checked; when it fails the message pointer is undefined.
\<close>

definition log_event :: "(sensor_ts_t \<Rightarrow> string) \<Rightarrow> world \<Rightarrow> world res" where
  "log_event fmt w =
     (let (t, w) = time_now w; (ok, w) = heap_alloc w
      in if ok then write_to_fifo (fmt t) w else Inl Uninit_Read)"

text \<open>The messages.\<close>

definition msg_invalid_id :: "sensor_id_t \<Rightarrow> sensor_ts_t \<Rightarrow> string" where
  "msg_invalid_id i t = pr_ld t @ '' Received sensor data with invalid sensor node ID '' @ pr_hu i @ [nl]"

definition msg_too_cold :: "sensor_id_t \<Rightarrow> double \<Rightarrow> sensor_ts_t \<Rightarrow> string" where
  "msg_too_cold i avg t = pr_ld t @ '' The sensor node with '' @ pr_hu i
     @ '' reports it's too cold (running avg temperature = '' @ pr_f avg @ '')'' @ [nl]"

definition msg_too_hot :: "sensor_id_t \<Rightarrow> double \<Rightarrow> sensor_ts_t \<Rightarrow> string" where
  "msg_too_hot i avg t = pr_ld t @ '' The sensor node with '' @ pr_hu i
     @ '' reports it's too hot (running avg temperature = '' @ pr_f avg @ '')'' @ [nl]"

definition msg_opened :: "sensor_id_t \<Rightarrow> sensor_ts_t \<Rightarrow> string" where
  "msg_opened i t = pr_ld t @ '' A sensor node with '' @ pr_hu i @ '' has opened a new connection'' @ [nl]"

definition msg_closed :: "sensor_id_t \<Rightarrow> sensor_ts_t \<Rightarrow> string" where
  "msg_closed i t = pr_ld t @ '' The sensor node with '' @ pr_hu i @ '' has closed the connection'' @ [nl]"

definition msg_sql_unable :: "sensor_ts_t \<Rightarrow> string" where
  "msg_sql_unable t = pr_ld t @ '' Unable to connect to SQL server.'' @ [nl]"

definition msg_sql_connected :: "sensor_ts_t \<Rightarrow> string" where
  "msg_sql_connected t = pr_ld t @ '' Connection to SQL server established.'' @ [nl]"

definition msg_new_table :: "string \<Rightarrow> sensor_ts_t \<Rightarrow> string" where
  "msg_new_table table_name t = pr_ld t @ '' New table '' @ table_name @ '' created.'' @ [nl]"

definition msg_sql_lost :: "sensor_ts_t \<Rightarrow> string" where
  "msg_sql_lost t = pr_ld t @ '' Connection to SQL server lost.'' @ [nl]"

section \<open>The log process\<close>

text \<open>
  The log process's end of the FIFO with the end-of-file indicator of its stream, its sequence number, the bytes
  that wait in the buffer of the stream of \<open>gateway.log\<close>, and the contents of that file.
\<close>

record logproc =
  lp_fifo :: string
  lp_eof :: bool
  sequence_number :: int
  log_buf :: string
  gateway_log :: string

text \<open>All that the log process has passed to \<open>fputs\<close>.\<close>

definition log_out :: "logproc \<Rightarrow> string" where
  "log_out p = gateway_log p @ log_buf p"

text \<open>
  \<open>fgets(recv_buf, MAX, fifo_pointer)\<close>. With nothing in the FIFO and no writer it returns \<open>NULL\<close> and sets
  the end-of-file indicator. \<open>sticky\<close> tells what the C library does when the indicator is set: the C
  standard and newer versions of glibc return \<open>NULL\<close> at once (\<open>True\<close>), older ones try to read again
  (\<open>False\<close>).
\<close>

definition MAX_BUF :: nat where "MAX_BUF = 200"

definition log_fgets :: "bool \<Rightarrow> logproc \<Rightarrow> string option \<times> logproc" where
  "log_fgets sticky p =
     (if sticky \<and> lp_eof p then (None, p)
      else if lp_fifo p = [] then (None, p\<lparr>lp_eof := True\<rparr>)
      else (let (s, r) = take_upto (MAX_BUF - 1) (lp_fifo p) in (Some s, p\<lparr>lp_fifo := r\<rparr>)))"

lemma log_fgets_smaller:
  "log_fgets sticky p = (Some s, p') \<Longrightarrow> length (lp_fifo p') < length (lp_fifo p)"
  using take_upto_smaller[of "lp_fifo p" "MAX_BUF - 1"]
  by (auto simp: log_fgets_def MAX_BUF_def split: if_splits prod.splits)

text \<open>
  \<open>fputs\<close> to the log file, in which the stream's buffer gives its first \<open>k\<close> bytes to the file, and \<open>fclose\<close>, which
  gives all.
\<close>

definition log_fputs :: "nat \<Rightarrow> string \<Rightarrow> logproc \<Rightarrow> logproc" where
  "log_fputs k s p = (let b = log_buf p @ s in p\<lparr>log_buf := drop k b, gateway_log := gateway_log p @ take k b\<rparr>)"

definition log_fclose :: "logproc \<Rightarrow> logproc" where
  "log_fclose p = p\<lparr>log_buf := [], gateway_log := log_out p\<rparr>"

text \<open>
  One iteration of the inner loop; the result tells whether there was a message. \<open>io n\<close> is \<open>None\<close> when \<open>asprintf\<close> or
  \<open>fputs\<close> fails for the entry with sequence number \<open>n\<close>, and otherwise the number of bytes that \<open>fputs\<close> makes the stream
  write out.
\<close>

definition log_read :: "bool \<Rightarrow> (int \<Rightarrow> nat option) \<Rightarrow> logproc \<Rightarrow> (bool \<times> logproc) res" where
  "log_read sticky io p =
     (case log_fgets sticky p of
        (None, p) \<Rightarrow> Inr (False, p)
      | (Some info_message, p) \<Rightarrow>
          (let n = sequence_number p + 1 in
           if INT_MAX < n then Inl Int_Overflow
           else case io n of
             None \<Rightarrow> Inl Exit_Failure
           | Some k \<Rightarrow> Inr (True, log_fputs k (pr_d n @ '' '' @ info_message) (p\<lparr>sequence_number := n\<rparr>))))"

lemma log_read_smaller: "log_read sticky io p = Inr (True, p') \<Longrightarrow> length (lp_fifo p') < length (lp_fifo p)"
  by (auto simp: log_read_def log_fputs_def Let_def dest!: log_fgets_smaller split: prod.splits option.splits if_splits)

text \<open>The inner loop, up to the \<open>NULL\<close> of \<open>fgets\<close>.\<close>

function log_drain :: "bool \<Rightarrow> (int \<Rightarrow> nat option) \<Rightarrow> logproc \<Rightarrow> logproc res" where
  "log_drain sticky io p =
     (case log_read sticky io p of
        Inl f \<Rightarrow> Inl f
      | Inr (got, p) \<Rightarrow> if got then log_drain sticky io p else Inr p)"
  by pat_completeness auto
termination
  by (relation "measure (\<lambda>(sticky, io, p). length (lp_fifo p))") (auto intro: log_read_smaller dest: sym)

declare log_drain.simps [simp del]

text \<open>
  The outer loop: one round for each element of \<open>rounds\<close>, which holds the bytes that the main process
  has written since the round before; SIGTERM comes in the last one.
\<close>

fun log_rounds :: "bool \<Rightarrow> (int \<Rightarrow> nat option) \<Rightarrow> string list \<Rightarrow> logproc \<Rightarrow> logproc res" where
  "log_rounds sticky io [] p = Inr p"
| "log_rounds sticky io (b # bs) p =
     bindR (log_drain sticky io (p\<lparr>lp_fifo := lp_fifo p @ b\<rparr>)) (log_rounds sticky io bs)"

record logproc_calls =
  lp_mkfifo :: mkfifo_result
  lp_fopen_fifo :: bool
  lp_fopen_log :: bool
  lp_fclose_fifo :: bool
  lp_fclose_log :: bool

definition log_start :: logproc where
  "log_start = \<lparr>lp_fifo = [], lp_eof = False, sequence_number = 0, log_buf = [], gateway_log = []\<rparr>"

definition fifo_to_log :: "bool \<Rightarrow> logproc_calls \<Rightarrow> (int \<Rightarrow> nat option) \<Rightarrow> string list \<Rightarrow> logproc res" where
  "fifo_to_log sticky c io rounds =
     bindR (check_exit (lp_mkfifo c \<noteq> Fifo_Error)) (\<lambda>_.
     bindR (check_exit (lp_fopen_fifo c)) (\<lambda>_.
     bindR (check_exit (lp_fopen_log c)) (\<lambda>_.
     bindR (log_rounds sticky io rounds log_start) (\<lambda>p.
     bindR (check_exit (lp_fclose_fifo c)) (\<lambda>_.
     bindR (check_exit (lp_fclose_log c)) (\<lambda>_.
     Inr (log_fclose p)))))))"

section \<open>Facts about the main process\<close>

definition calls_ok :: "fifo_calls \<Rightarrow> bool" where
  "calls_ok c \<longleftrightarrow> mkfifo_call c \<noteq> Fifo_Error \<and> fopen_ok c \<and> fputs_ok c \<and> fclose_ok c"

definition world_ok :: "world \<Rightarrow> bool" where
  "world_ok w \<longleftrightarrow> (\<forall>n. calls_ok (fifo_answers w n)) \<and> (\<forall>n. heap w n)"

lemma world_ok_nallocs [simp]: "world_ok (w\<lparr>nallocs := k\<rparr>) = world_ok w"
  by (simp add: world_ok_def)

text \<open>What no operation changes: the answers of the system, which are only used up.\<close>

definition same_answers :: "world \<Rightarrow> world \<Rightarrow> bool" where
  "same_answers w w' \<longleftrightarrow> fifo_answers w' = fifo_answers w \<and> clock w' = clock w \<and> heap w' = heap w"

lemma same_answers_refl [simp]: "same_answers w w"
  by (simp add: same_answers_def)

lemma same_answers_trans: "same_answers w w' \<Longrightarrow> same_answers w' w'' \<Longrightarrow> same_answers w w''"
  by (simp add: same_answers_def)

lemma world_ok_same: "same_answers w w' \<Longrightarrow> world_ok w \<Longrightarrow> world_ok w'"
  by (simp add: same_answers_def world_ok_def)

lemma log_event_Inr:
  "log_event fmt w = Inr w' \<Longrightarrow>
   fifo w' = fifo w @ fmt (clock w (ticks w)) \<and> ticks w' = Suc (ticks w) \<and> same_answers w w'"
  by (auto simp: log_event_def time_now_def heap_alloc_def write_to_fifo_def Let_def bindR_Inr_iff
      same_answers_def split: if_splits)

lemma log_event_returns: "world_ok w \<Longrightarrow> \<exists>w'. log_event fmt w = Inr w'"
  by (simp add: log_event_def time_now_def heap_alloc_def write_to_fifo_def Let_def world_ok_def
      calls_ok_def check_exit_def)

lemma log_event_ok:
  assumes "world_ok w"
  obtains w' where "log_event fmt w = Inr w'" "fifo w' = fifo w @ fmt (clock w (ticks w))"
    "ticks w' = Suc (ticks w)" "same_answers w w'" "world_ok w'"
  using log_event_returns[OF assms, of fmt] log_event_Inr world_ok_same[OF _ assms] by blast

text \<open>
  The bytes that a sequence of events leaves in the FIFO, each with the next reading \<open>k\<close> of the clock,
  and the change of the world by such a sequence.
\<close>

fun stamped :: "(nat \<Rightarrow> sensor_ts_t) \<Rightarrow> nat \<Rightarrow> (sensor_ts_t \<Rightarrow> string) list \<Rightarrow> string" where
  "stamped c k [] = []"
| "stamped c k (f # fs) = f (c k) @ stamped c (Suc k) fs"

definition logs :: "world \<Rightarrow> (sensor_ts_t \<Rightarrow> string) list \<Rightarrow> world \<Rightarrow> bool" where
  "logs w fs w' \<longleftrightarrow> fifo w' = fifo w @ stamped (clock w) (ticks w) fs
     \<and> ticks w' = ticks w + length fs \<and> same_answers w w'"

lemma stamped_append: "stamped c k (fs @ gs) = stamped c k fs @ stamped c (k + length fs) gs"
  by (induction fs arbitrary: k) auto

lemma logs_Nil [simp]: "logs w [] w"
  by (simp add: logs_def)

lemma logs_append: "logs w fs w' \<Longrightarrow> logs w' gs w'' \<Longrightarrow> logs w (fs @ gs) w''"
  by (auto simp: logs_def stamped_append same_answers_def)

lemma logs_ok: "logs w fs w' \<Longrightarrow> world_ok w \<Longrightarrow> world_ok w'"
  by (auto simp: logs_def intro: world_ok_same)

lemma logs_nallocs [simp]: "logs w [] (w\<lparr>nallocs := n\<rparr>)"
  by (simp add: logs_def same_answers_def)

lemma log_event_logs: "world_ok w \<Longrightarrow> \<exists>w'. log_event fmt w = Inr w' \<and> logs w [fmt] w'"
  using log_event_returns[of w fmt] log_event_Inr[of fmt w] by (auto simp: logs_def)

section \<open>Facts about the log process\<close>

text \<open>The pieces in which \<open>fgets\<close> delivers a text.\<close>

function pieces :: "string \<Rightarrow> string list" where
  "pieces s = (if s = [] then [] else fst (take_upto (MAX_BUF - 1) s) # pieces (snd (take_upto (MAX_BUF - 1) s)))"
  by pat_completeness auto
termination
  by (relation "measure length") (auto simp: MAX_BUF_def take_upto_smaller)

declare pieces.simps [simp del]

lemma pieces_Nil [simp]: "pieces [] = []"
  by (simp add: pieces.simps)

lemma take_upto_append: "fst (take_upto n s) @ snd (take_upto n s) = s"
  by (induction n s rule: take_upto.induct) auto

lemma concat_pieces: "concat (pieces s) = s"
proof (induction s rule: pieces.induct)
  case (1 s)
  then show ?case by (cases "s = []") (simp_all add: pieces.simps[of s] take_upto_append)
qed

lemma take_upto_bounds:
  "length (fst (take_upto n s)) \<le> n" "nl \<notin> set (butlast (fst (take_upto n s)))"
  "s \<noteq> [] \<Longrightarrow> 0 < n \<Longrightarrow> fst (take_upto n s) \<noteq> []"
  by (induction n s rule: take_upto.induct) auto

lemma pieces_bounds:
  "x \<in> set (pieces s) \<Longrightarrow> x \<noteq> [] \<and> length x < MAX_BUF \<and> nl \<notin> set (butlast x)"
proof (induction s rule: pieces.induct)
  case (1 s)
  have "length (fst (take_upto (MAX_BUF - 1) s)) < MAX_BUF"
    using take_upto_bounds(1)[of "MAX_BUF - 1" s] by (simp add: MAX_BUF_def)
  then show ?case
    using 1 take_upto_bounds(2)[of "MAX_BUF - 1" s] take_upto_bounds(3)[of s "MAX_BUF - 1"]
    by (cases "s = []") (auto simp: pieces.simps[of s] MAX_BUF_def)
qed

text \<open>Log entries: the pieces, numbered.\<close>

fun numbered :: "int \<Rightarrow> string list \<Rightarrow> string" where
  "numbered n [] = []"
| "numbered n (s # ss) = pr_d n @ '' '' @ s @ numbered (n + 1) ss"

lemma numbered_append: "numbered n (xs @ ys) = numbered n xs @ numbered (n + int (length xs)) ys"
  by (induction xs arbitrary: n) (auto simp: algebra_simps)

lemma log_fputs_sel [simp]:
  "lp_fifo (log_fputs k s p) = lp_fifo p" "lp_eof (log_fputs k s p) = lp_eof p"
  "sequence_number (log_fputs k s p) = sequence_number p" "log_out (log_fputs k s p) = log_out p @ s"
  by (simp_all add: log_fputs_def log_out_def Let_def del: take_append drop_append)

lemma log_fclose_sel [simp]:
  "lp_fifo (log_fclose p) = lp_fifo p" "sequence_number (log_fclose p) = sequence_number p"
  "gateway_log (log_fclose p) = log_out p" "log_buf (log_fclose p) = []" "log_out (log_fclose p) = log_out p"
  by (simp_all add: log_fclose_def log_out_def)

lemma log_start_sel [simp]:
  "lp_fifo log_start = []" "\<not> lp_eof log_start" "sequence_number log_start = 0" "log_out log_start = []"
  by (simp_all add: log_start_def log_out_def)

lemma log_out_upd [simp]:
  "log_out (p\<lparr>lp_fifo := x\<rparr>) = log_out p" "log_out (p\<lparr>lp_eof := e\<rparr>) = log_out p"
  "log_out (p\<lparr>sequence_number := n\<rparr>) = log_out p"
  by (simp_all add: log_out_def)

text \<open>The inner loop puts the pieces into the log, with their numbers, unless the counter overflows.\<close>

lemma log_drain_pieces:
  assumes "\<forall>n. io n \<noteq> None" "\<not> (sticky \<and> lp_eof p)"
    and "sequence_number p + int (length (pieces (lp_fifo p))) \<le> INT_MAX"
  shows "\<exists>q. log_drain sticky io p = Inr q \<and> lp_fifo q = [] \<and> lp_eof q
    \<and> sequence_number q = sequence_number p + int (length (pieces (lp_fifo p)))
    \<and> log_out q = log_out p @ numbered (sequence_number p + 1) (pieces (lp_fifo p))"
  using assms
proof (induction "lp_fifo p" arbitrary: p rule: pieces.induct)
  case 1
  show ?case
  proof (cases "lp_fifo p = []")
    case True
    then show ?thesis using "1.prems" by (auto simp: log_drain.simps[of sticky io p] log_read_def log_fgets_def)
  next
    case False
    obtain s r where sr: "take_upto (MAX_BUF - 1) (lp_fifo p) = (s, r)"
      by (cases "take_upto (MAX_BUF - 1) (lp_fifo p)")
    have ps: "pieces (lp_fifo p) = s # pieces r" using False sr by (simp add: pieces.simps[of "lp_fifo p"])
    let ?n = "sequence_number p + 1"
    obtain k where k: "io ?n = Some k" using "1.prems"(1) by blast
    let ?p = "log_fputs k (pr_d ?n @ '' '' @ s) (p\<lparr>lp_fifo := r, sequence_number := ?n\<rparr>)"
    have "?n \<le> INT_MAX" using "1.prems"(3) ps by simp
    then have "log_drain sticky io p = log_drain sticky io ?p"
      using False "1.prems"(2) sr k by (auto simp: log_drain.simps[of sticky io p] log_read_def log_fgets_def Let_def)
    moreover have "\<exists>q. log_drain sticky io ?p = Inr q \<and> lp_fifo q = [] \<and> lp_eof q
        \<and> sequence_number q = sequence_number ?p + int (length (pieces (lp_fifo ?p)))
        \<and> log_out q = log_out ?p @ numbered (sequence_number ?p + 1) (pieces (lp_fifo ?p))"
      using False "1.prems" sr ps by (intro "1.hyps") auto
    ultimately show ?thesis using ps by (auto simp: add.commute add.left_commute)
  qed
qed

text \<open>Whole messages that fit the buffer are delivered one by one.\<close>

definition log_line :: "string \<Rightarrow> bool" where
  "log_line m \<longleftrightarrow> (\<exists>l. m = l @ [nl] \<and> nl \<notin> set l) \<and> length m < MAX_BUF"

lemma pieces_line: "log_line m \<Longrightarrow> pieces (m @ s) = m # pieces s"
  by (auto simp: log_line_def pieces.simps[of "_ @ nl # s"] take_upto_line MAX_BUF_def)

lemma pieces_lines: "\<forall>m \<in> set ms. log_line m \<Longrightarrow> pieces (concat ms) = ms"
  by (induction ms) (auto simp: pieces_line)

end
