(* ===== verification/Log_Props.thy ===== *)
theory Log_Props
  imports Logfifo
begin

text \<open>
  What the log process makes of the events that the threads write: numbering, order, completeness,
  and the lengths for which one event is one line.
\<close>

section \<open>Rounds of the log process\<close>

lemma length_concat_ge: "\<forall>s \<in> set ss. s \<noteq> [] \<Longrightarrow> length ss \<le> length (concat ss)"
  by (induction ss) (auto simp: Suc_le_eq intro: add_le_less_mono simp flip: length_greater_0_conv)

lemma log_rounds_lenient:
  assumes "\<forall>n. io n \<noteq> None" "\<forall>ms \<in> set mss. \<forall>m \<in> set ms. log_line m" "lp_fifo p = []"
    and "sequence_number p + int (length (concat mss)) \<le> INT_MAX"
  shows "\<exists>p'. log_rounds False io (map concat mss) p = Inr p' \<and> lp_fifo p' = []
    \<and> sequence_number p' = sequence_number p + int (length (concat mss))
    \<and> log_out p' = log_out p @ numbered (sequence_number p + 1) (concat mss)"
  using assms
proof (induction mss arbitrary: p)
  case (Cons ms mss)
  let ?q = "p\<lparr>lp_fifo := concat ms\<rparr>"
  have ps: "pieces (lp_fifo ?q) = ms" using Cons.prems(2) by (simp add: pieces_lines)
  obtain r where r: "log_drain False io ?q = Inr r" "lp_fifo r = []"
      "sequence_number r = sequence_number p + int (length ms)"
      "log_out r = log_out p @ numbered (sequence_number p + 1) ms"
    using log_drain_pieces[of io False ?q] Cons.prems(1,4) unfolding ps by auto
  obtain p' where p': "log_rounds False io (map concat mss) r = Inr p'" "lp_fifo p' = []"
    "sequence_number p' = sequence_number r + int (length (concat mss))"
    "log_out p' = log_out r @ numbered (sequence_number r + 1) (concat mss)"
    using Cons.IH[OF Cons.prems(1), of r] Cons.prems(2,4) r(2,3) by auto
  have "log_rounds False io (map concat (ms # mss)) p = Inr p'"
    using r(1) p'(1) Cons.prems(3) by simp
  then show ?case using p'(2-) r(3,4) by (simp add: numbered_append algebra_simps)
qed simp

lemma log_rounds_sticky:
  assumes "lp_eof p"
  shows "log_rounds True io bs p = Inr (p\<lparr>lp_fifo := lp_fifo p @ concat bs\<rparr>)"
  using assms
proof (induction bs arbitrary: p)
  case (Cons b bs)
  have "log_drain True io (p\<lparr>lp_fifo := lp_fifo p @ b\<rparr>) = Inr (p\<lparr>lp_fifo := lp_fifo p @ b\<rparr>)"
    using Cons.prems by (simp add: log_drain.simps log_read_def log_fgets_def)
  then show ?case using Cons.IH[of "p\<lparr>lp_fifo := lp_fifo p @ b\<rparr>"] Cons.prems by simp
qed simp

definition calls_succeed :: "logproc_calls \<Rightarrow> bool" where
  "calls_succeed c \<longleftrightarrow> lp_mkfifo c \<noteq> Fifo_Error \<and> lp_fopen_fifo c \<and> lp_fopen_log c
     \<and> lp_fclose_fifo c \<and> lp_fclose_log c"

definition all_succeed :: logproc_calls where
  "all_succeed = \<lparr>lp_mkfifo = Fifo_Exists, lp_fopen_fifo = True, lp_fopen_log = True,
     lp_fclose_fifo = True, lp_fclose_log = True\<rparr>"

lemma calls_succeed_all: "calls_succeed all_succeed"
  by (simp add: calls_succeed_def all_succeed_def)

lemma fifo_to_log_rounds:
  "calls_succeed c \<Longrightarrow> fifo_to_log sticky c io rounds
     = bindR (log_rounds sticky io rounds log_start) (\<lambda>p. Inr (log_fclose p))"
  by (simp add: fifo_to_log_def calls_succeed_def check_exit_def)

definition demo_event :: string where
  "demo_event = msg_sql_lost 0"

section \<open>Lengths\<close>

lemma pr_f_length:
  assumes "\<bar>n\<bar> \<le> one_units * 10 ^ 9"
  shows "length (pr_f (Finite n)) \<le> 18"
proof -
  have pos: "0 < one_units" by (simp add: one_units_def)
  define m where "m = nat (rne (\<bar>n\<bar> * 10 ^ 6) one_units)"
  have "rne (\<bar>n\<bar> * 10 ^ 6) one_units \<le> 10 ^ 15"
    using assms by (intro rne_upper[OF pos]) (simp add: mult.commute)
  then have "m div 10 ^ 6 < 10 ^ 10" unfolding m_def by simp
  then have whole: "length (dec (m div 10 ^ 6)) \<le> 10" by (rule dec_length) simp
  have frac: "length (dec (m mod 10 ^ 6)) \<le> 6" by (rule dec_length) simp_all
  show ?thesis unfolding pr_f.simps Let_def m_def[symmetric] using whole frac by simp
qed

lemma pr_f_length_special: "v \<in> {PosInf, NegInf, NaN} \<Longrightarrow> length (pr_f v) \<le> 18"
  by auto

lemma log_lineI: "nl \<notin> set l \<Longrightarrow> length l < 199 \<Longrightarrow> log_line (l @ [nl])"
  by (auto simp: log_line_def MAX_BUF_def)

lemma demo_event_line: "log_line demo_event"
  using pr_ld_length[of 0]
  unfolding demo_event_def msg_sql_lost_def append_assoc[symmetric]
  by (intro log_lineI) simp_all

section \<open>Properties\<close>

text \<open>
  C40: Every log event that the connection manager and the storage manager write, and every average
  alarm about a temperature of at most 10^9 degrees (or none at all), is one line that fits the buffer
  of the log process.
\<close>

theorem events_are_lines:
  assumes "length table_name < 100" "nl \<notin> set table_name"
  shows "log_line (msg_opened i t) \<and> log_line (msg_closed i t) \<and> log_line (msg_invalid_id i t)
    \<and> log_line (msg_sql_unable t) \<and> log_line (msg_sql_connected t) \<and> log_line (msg_sql_lost t)
    \<and> log_line (msg_new_table table_name t)
    \<and> (\<forall>v. v \<in> {PosInf, NegInf, NaN} \<or> (\<exists>n. v = Finite n \<and> \<bar>n\<bar> \<le> one_units * 10 ^ 9)
        \<longrightarrow> log_line (msg_too_cold i v t) \<and> log_line (msg_too_hot i v t))"
proof -
  note len = pr_ld_length[of t] pr_hu_length[of i]
  have 1: "log_line (msg_opened i t)" "log_line (msg_closed i t)" "log_line (msg_invalid_id i t)"
    unfolding msg_opened_def msg_closed_def msg_invalid_id_def append_assoc[symmetric]
    by (intro log_lineI; use len in simp)+
  have 2: "log_line (msg_sql_unable t)" "log_line (msg_sql_connected t)" "log_line (msg_sql_lost t)"
    "log_line (msg_new_table table_name t)"
    unfolding msg_sql_unable_def msg_sql_connected_def msg_sql_lost_def msg_new_table_def
      append_assoc[symmetric]
    by (intro log_lineI; use len assms in simp)+
  have 3: "log_line (msg_too_cold i v t)" "log_line (msg_too_hot i v t)" if "length (pr_f v) \<le> 18" for v
    unfolding msg_too_cold_def msg_too_hot_def append_assoc[symmetric]
    by (intro log_lineI; use len that in simp)+
  have "length (pr_f v) \<le> 18"
    if "v \<in> {PosInf, NegInf, NaN} \<or> (\<exists>n. v = Finite n \<and> \<bar>n\<bar> \<le> one_units * 10 ^ 9)" for v
    using that pr_f_length pr_f_length_special by blast
  then show ?thesis using 1 2 3 by blast
qed

theorem events_are_lines_witness: "log_line (msg_new_table ''SensorData'' 0)"
  using events_are_lines[of "''SensorData''" 0 0] by simp



text \<open>
  C32: With a C library whose end-of-file indicator is sticky, as the C standard has it, the log process
  logs the first round only (here one of at most \<open>INT_MAX\<close> events): the first time that it finds the FIFO empty without
  a writer ends the logging, and all later events stay in the FIFO.
\<close>

theorem log_stops_at_eof:
  assumes "calls_succeed c" "\<forall>n. io n \<noteq> None" "\<forall>m \<in> set ms. log_line m" "int (length ms) \<le> INT_MAX"
  shows "\<exists>p. fifo_to_log True c io (concat ms # later) = Inr p
    \<and> gateway_log p = numbered 1 ms \<and> lp_fifo p = concat later"
proof -
  let ?p = "log_start\<lparr>lp_fifo := concat ms\<rparr>"
  have ps: "pieces (lp_fifo ?p) = ms" using assms(3) by (simp add: pieces_lines)
  obtain q where "log_drain True io ?p = Inr q" "lp_fifo q = []" "lp_eof q" "log_out q = numbered 1 ms"
    using log_drain_pieces[of io True ?p] assms(2,4) unfolding ps by auto
  then show ?thesis by (simp add: fifo_to_log_rounds[OF assms(1)] log_rounds_sticky)
qed

theorem log_stops_at_eof_witness:
  "\<exists>p. fifo_to_log True all_succeed (\<lambda>_. Some 0) [demo_event, demo_event] = Inr p
    \<and> gateway_log p = numbered 1 [demo_event] \<and> lp_fifo p = demo_event"
  using log_stops_at_eof[OF calls_succeed_all, of "\<lambda>_. Some 0" "[demo_event]" "[demo_event]"]
    demo_event_line by (auto simp: INT_MAX_def)

text \<open>
  Whatever bytes arrive in a round, the log process returns to waiting with all of them passed to the log:
  they are cut into pieces of fewer than \<open>MAX\<close> bytes, at every newline, and each piece gets the next
  number. So an event longer than 199 bytes becomes several numbered entries.
\<close>

theorem log_round_complete:
  assumes "\<forall>n. io n \<noteq> None" "\<not> (sticky \<and> lp_eof p)" "sequence_number p + int (length (lp_fifo p)) \<le> INT_MAX"
  shows "\<exists>ss p'. log_drain sticky io p = Inr p' \<and> concat ss = lp_fifo p \<and> lp_fifo p' = []
    \<and> log_out p' = log_out p @ numbered (sequence_number p + 1) ss
    \<and> sequence_number p' = sequence_number p + int (length ss)
    \<and> (\<forall>s \<in> set ss. 0 < length s \<and> length s < MAX_BUF \<and> nl \<notin> set (butlast s))"
proof -
  have "length (pieces (lp_fifo p)) \<le> length (concat (pieces (lp_fifo p)))"
    using pieces_bounds by (intro length_concat_ge) blast
  then have "sequence_number p + int (length (pieces (lp_fifo p))) \<le> INT_MAX" using assms(3) by (simp add: concat_pieces)
  from log_drain_pieces[OF assms(1,2) this] obtain q where "log_drain sticky io p = Inr q" "lp_fifo q = []"
      "sequence_number q = sequence_number p + int (length (pieces (lp_fifo p)))"
      "log_out q = log_out p @ numbered (sequence_number p + 1) (pieces (lp_fifo p))" by blast
  then show ?thesis using pieces_bounds
    by (intro exI[of _ "pieces (lp_fifo p)"] exI[of _ q]) (simp add: concat_pieces)
qed

theorem log_round_complete_witness:
  "\<exists>ss p'. log_drain True (\<lambda>_. Some 3) (log_start\<lparr>lp_fifo := ''ab'' @ [nl] @ ''c'', sequence_number := 7\<rparr>) = Inr p'
    \<and> concat ss = ''ab'' @ [nl] @ ''c'' \<and> log_out p' = numbered 8 ss"
  using log_round_complete[of "\<lambda>_. Some 3" True "log_start\<lparr>lp_fifo := ''ab'' @ [nl] @ ''c'', sequence_number := 7\<rparr>"]
  by (auto simp: INT_MAX_def)

end
