(* ===== verification/Datamgr.thy ===== *)
theory Datamgr
  imports Sbuffer Dplist Logfifo
begin

text \<open>
  The data manager (\<open>datamgr.h\<close>, \<open>datamgr.c\<close>). It keeps one \<open>sensor_node_t\<close> per line of the room map in
  the pointer list \<open>sensor_list\<close>, reads measurements from the shared buffer (or a file), keeps the last
  \<open>RUN_AVG_LENGTH\<close> of each sensor in a ring, and logs an event when their average leaves the range
  from \<open>SET_MIN_TEMP\<close> to \<open>SET_MAX_TEMP\<close> (the parameters \<open>lo\<close> and \<open>hi\<close>, set when the program is built).
\<close>

section \<open>Types and callbacks\<close>

definition RUN_AVG_LENGTH :: int where "RUN_AVG_LENGTH = 5"

text \<open>A slot of \<open>temperatures\<close> is \<open>None\<close> as long as it has not been written.\<close>

record sensor_node_t =
  sensor_id :: sensor_id_t
  room_id :: sensor_id_t
  running_avg :: sensor_value_t
  temperatures :: "sensor_value_t option list"
  timestamp :: sensor_ts_t
  nr_of_meass :: int

record dm_state =
  sensor_list :: ptr
  dm_mem :: "sensor_node_t dmem"
  dm_world :: world

text \<open>Contents of a node that \<open>malloc\<close> returns; the other fields are written before they are read.\<close>

definition junk_sensor_node :: sensor_node_t where
  "junk_sensor_node = \<lparr>sensor_id = 0, room_id = 0, running_avg = Finite 0,
     temperatures = replicate (nat RUN_AVG_LENGTH) None, timestamp = 0, nr_of_meass = 0\<rparr>"

definition element_copy_datamgr :: "ptr \<Rightarrow> sensor_node_t store \<Rightarrow> (ptr \<times> sensor_node_t store) res" where
  "element_copy_datamgr element E =
     (case malloc junk_sensor_node E of
        None \<Rightarrow> Inl Exit_Failure
      | Some (copy_element, E) \<Rightarrow>
          if element \<noteq> NULL then
            bindR (load E element) (\<lambda>v.
            bindR (assign (\<lambda>_. v) E (Some copy_element)) (\<lambda>E.
            Inr (Some copy_element, E)))
          else Inl Exit_Failure)"

definition element_free_datamgr :: "ptr \<Rightarrow> sensor_node_t store \<Rightarrow> (ptr \<times> sensor_node_t store) res" where
  "element_free_datamgr element E = bindR (free E element) (\<lambda>E. Inr (NULL, E))"

definition cmp_sensor :: "sensor_node_t \<Rightarrow> sensor_node_t \<Rightarrow> int" where
  "cmp_sensor x y = (if sensor_id y < sensor_id x then 1 else if sensor_id x = sensor_id y then 0 else -1)"

definition element_compare_datamgr :: "ptr \<Rightarrow> ptr \<Rightarrow> sensor_node_t store \<Rightarrow> int res" where
  "element_compare_datamgr x y E = bindR (load E x) (\<lambda>v. bindR (load E y) (\<lambda>w. Inr (cmp_sensor v w)))"

section \<open>The room map\<close>

text \<open>\<open>sscanf(line, "%hu%hu\n", &id_room, &id_sensor)\<close>: a conversion that fails leaves the rest alone.\<close>

definition scan_map_line :: "string \<Rightarrow> sensor_id_t \<Rightarrow> sensor_id_t \<Rightarrow> sensor_id_t \<times> sensor_id_t" where
  "scan_map_line line id_room id_sensor =
     (case scan_hu line of
        None \<Rightarrow> (id_room, id_sensor)
      | Some (r, rest) \<Rightarrow> (case scan_hu rest of
          None \<Rightarrow> (r, id_sensor)
        | Some (s, _) \<Rightarrow> (r, s)))"

text \<open>The body of the loop over the lines of the map: a node is filled, inserted as a copy, and freed.\<close>

definition add_sensor :: "sensor_id_t \<Rightarrow> sensor_id_t \<Rightarrow> int \<Rightarrow> dm_state \<Rightarrow> dm_state res" where
  "add_sensor id_room id_sensor nr_of_lines M =
     (case malloc junk_sensor_node (elems (dm_mem M)) of
        None \<Rightarrow> Inl Exit_Failure
      | Some (this, E) \<Rightarrow>
          (let (t, w) = time_now (dm_world M) in
           bindR (assign (\<lambda>n. n\<lparr>sensor_id := id_sensor, room_id := id_room, running_avg := Finite 0,
                    timestamp := t, nr_of_meass := 0\<rparr>) E (Some this)) (\<lambda>E.
           bindR (dpl_insert_at_index ((dm_mem M)\<lparr>elems := E\<rparr>) (sensor_list M) (Some this)
                    nr_of_lines True) (\<lambda>(l, H).
           bindR (free (elems H) (Some this)) (\<lambda>E.
           Inr (M\<lparr>sensor_list := l, dm_mem := H\<lparr>elems := E\<rparr>, dm_world := w\<rparr>))))))"

function map_loop :: "string \<Rightarrow> int \<Rightarrow> sensor_id_t \<Rightarrow> sensor_id_t \<Rightarrow> dm_state \<Rightarrow> dm_state res" where
  "map_loop file nr_of_lines id_room id_sensor M =
     (case getline file of
        None \<Rightarrow> Inr M
      | Some (line, file) \<Rightarrow>
          (let (id_room, id_sensor) = scan_map_line line id_room id_sensor in
           bindR (add_sensor id_room id_sensor (nr_of_lines + 1) M)
             (map_loop file (nr_of_lines + 1) id_room id_sensor)))"
  by pat_completeness auto
termination
  by (relation "measure (\<lambda>(file, _). length file)")
    (auto simp: getline_def split: if_splits dest: take_line_smaller)

declare map_loop.simps [simp del]

text \<open>
  The first part of \<open>datamgr_parse_sensor_data\<close> and of \<open>datamgr_parse_sensor_files\<close>: a new list with
  the sensors of the map. The map is \<open>None\<close> for a \<open>NULL\<close> file pointer.
\<close>

definition datamgr_read_map :: "string option \<Rightarrow> dm_state \<Rightarrow> dm_state res" where
  "datamgr_read_map fp_sensor_map M =
     bindR (dpl_create element_copy_datamgr element_free_datamgr element_compare_datamgr (dm_mem M)) (\<lambda>(l, H).
     bindR (check_exit (l \<noteq> NULL)) (\<lambda>_.
     case fp_sensor_map of
       None \<Rightarrow> Inl Exit_Failure
     | Some file \<Rightarrow> map_loop file 0 (-1) (-1) (M\<lparr>sensor_list := l, dm_mem := H\<rparr>)))"

section \<open>Finding a sensor\<close>

fun sensor_loop :: "nat \<Rightarrow> sensor_node_t dmem \<Rightarrow> ptr \<Rightarrow> ptr \<Rightarrow> int \<Rightarrow> ptr res" where
  "sensor_loop 0 H list this index = Inl Diverges"
| "sensor_loop (Suc k) H list this index =
     bindR (dpl_size H list) (\<lambda>n.
     if index < n then
       bindR (dpl_get_element_at_index H list index) (\<lambda>dummy.
       bindR (element_compare_datamgr this dummy (elems H)) (\<lambda>c.
       if c = 0 then Inr dummy else sensor_loop k H list this (index + 1)))
     else Inr NULL)"

definition get_sensor_node_with_id :: "dm_state \<Rightarrow> sensor_id_t \<Rightarrow> (ptr \<times> dm_state) res" where
  "get_sensor_node_with_id M id_of_sensor =
     (case malloc junk_sensor_node (elems (dm_mem M)) of
        None \<Rightarrow> Inl Exit_Failure
      | Some (this, E) \<Rightarrow>
          bindR (assign (\<lambda>n. n\<lparr>sensor_id := id_of_sensor\<rparr>) E (Some this)) (\<lambda>E.
          bindR (sensor_loop (fuel (nodes (dm_mem M))) ((dm_mem M)\<lparr>elems := E\<rparr>) (sensor_list M)
                   (Some this) 0) (\<lambda>p.
          bindR (free E (Some this)) (\<lambda>E.
          Inr (p, M\<lparr>dm_mem := (dm_mem M)\<lparr>elems := E\<rparr>\<rparr>)))))"

section \<open>The running average\<close>

fun sum_temperatures :: "sensor_value_t option list \<Rightarrow> sensor_value_t \<Rightarrow> sensor_value_t res" where
  "sum_temperatures [] tot = Inr tot"
| "sum_temperatures (None # vs) tot = Inl Uninit_Read"
| "sum_temperatures (Some v # vs) tot = sum_temperatures vs (d_add tot v)"

definition set_sensor :: "(sensor_node_t \<Rightarrow> sensor_node_t) \<Rightarrow> dm_state \<Rightarrow> ptr \<Rightarrow> dm_state res" where
  "set_sensor f M p = bindR (assign f (elems (dm_mem M)) p) (\<lambda>E. Inr (M\<lparr>dm_mem := (dm_mem M)\<lparr>elems := E\<rparr>\<rparr>))"

definition dm_log :: "(sensor_ts_t \<Rightarrow> string) \<Rightarrow> dm_state \<Rightarrow> dm_state res" where
  "dm_log fmt M = bindR (log_event fmt (dm_world M)) (\<lambda>w. Inr (M\<lparr>dm_world := w\<rparr>))"

definition datamgr_get_avg ::
  "sensor_value_t \<Rightarrow> sensor_value_t \<Rightarrow> dm_state \<Rightarrow> sensor_id_t \<Rightarrow> (sensor_value_t \<times> dm_state) res" where
  "datamgr_get_avg lo hi M i =
     bindR (get_sensor_node_with_id M i) (\<lambda>(p, M).
     bindR (load (elems (dm_mem M)) p) (\<lambda>n.
     if RUN_AVG_LENGTH \<le> nr_of_meass n then
       bindR (sum_temperatures (take (nat RUN_AVG_LENGTH) (temperatures n)) (Finite 0)) (\<lambda>tot.
       let average = d_div_int tot RUN_AVG_LENGTH in
       bindR (if d_less average lo then dm_log (msg_too_cold (sensor_id n) average) M else Inr M) (\<lambda>M.
       bindR (if d_less hi average then dm_log (msg_too_hot (sensor_id n) average) M else Inr M) (\<lambda>M.
       bindR (set_sensor (\<lambda>n. n\<lparr>running_avg := average\<rparr>) M p) (\<lambda>M.
       Inr (average, M)))))
     else Inr (Finite 0, M)))"

section \<open>One measurement\<close>

text \<open>
  Where the measurement goes. \<open>array_position\<close> is not initialised by the code: \<open>None\<close> until it is set.
\<close>

function ring_loop :: "int \<Rightarrow> int option \<Rightarrow> int option" where
  "ring_loop nr_of_meass_minus_1 array_position =
     (if RUN_AVG_LENGTH \<le> nr_of_meass_minus_1 then
        (let n = nr_of_meass_minus_1 - RUN_AVG_LENGTH
         in ring_loop n (if n < RUN_AVG_LENGTH then Some n else array_position))
      else array_position)"
  by pat_completeness auto
termination
  by (relation "measure (\<lambda>(n, _). nat n)") (auto simp: RUN_AVG_LENGTH_def)

declare ring_loop.simps [simp del]

definition ring_position :: "int \<Rightarrow> int option" where
  "ring_position nr = (if nr < RUN_AVG_LENGTH then Some nr else ring_loop nr None)"

text \<open>
  The branch for a known sensor, with the node \<open>p\<close>: \<open>new_ts\<close> is what the code stores as the timestamp
  and \<open>value\<close> is \<open>None\<close> when it is indeterminate.
\<close>

definition record_measurement ::
  "sensor_value_t \<Rightarrow> sensor_value_t \<Rightarrow> dm_state \<Rightarrow> ptr \<Rightarrow> sensor_id_t \<Rightarrow> sensor_ts_t \<Rightarrow> sensor_value_t
   \<Rightarrow> dm_state res" where
  "record_measurement lo hi M p i new_ts v =
     bindR (set_sensor (\<lambda>n. n\<lparr>timestamp := new_ts\<rparr>) M p) (\<lambda>M.
     bindR (load (elems (dm_mem M)) p) (\<lambda>n.
     case ring_position (nr_of_meass n) of
       None \<Rightarrow> Inl Uninit_Read
     | Some array_position \<Rightarrow>
         if array_position < 0 \<or> RUN_AVG_LENGTH \<le> array_position then Inl Bad_Pointer
         else
           bindR (set_sensor (\<lambda>n. n\<lparr>temperatures := (temperatures n)[nat array_position := Some v]\<rparr>) M p) (\<lambda>M.
           if nr_of_meass n = INT_MAX then Inl Int_Overflow
           else
             bindR (set_sensor (\<lambda>n. n\<lparr>nr_of_meass := nr_of_meass n + 1\<rparr>) M p) (\<lambda>M.
             bindR (datamgr_get_avg lo hi M i) (\<lambda>(average, M).
             set_sensor (\<lambda>n. n\<lparr>running_avg := average\<rparr>) M p)))))"

text \<open>A measurement from the buffer. The timestamp is set to the measurement's sensor id.\<close>

definition process_data :: "sensor_value_t \<Rightarrow> sensor_value_t \<Rightarrow> dm_state \<Rightarrow> sensor_data_t \<Rightarrow> dm_state res" where
  "process_data lo hi M d =
     (if id d \<noteq> 0 then
        bindR (get_sensor_node_with_id M (id d)) (\<lambda>(p, M).
        if p = NULL then dm_log (msg_invalid_id (id d)) M
        else record_measurement lo hi M p (id d) (ucast (id d)) (val d))
      else Inr M)"

section \<open>The loop over the buffer\<close>

text \<open>
  One iteration is two critical sections: \<open>datamgr_poll\<close> looks for a first node, and if there is one
  \<open>datamgr_take\<close> reads a measurement and processes it. Other threads may run in between.
\<close>

definition datamgr_poll :: "sbmem \<Rightarrow> ptr \<Rightarrow> bool res" where
  "datamgr_poll B buffer = bindR (sbuffer_get_first_node B buffer) (\<lambda>p. Inr (p \<noteq> NULL))"

definition datamgr_take ::
  "pthread_t \<Rightarrow> pthread_t \<Rightarrow> sensor_value_t \<Rightarrow> sensor_value_t \<Rightarrow> dm_state \<Rightarrow> sbmem \<Rightarrow> ptr
   \<Rightarrow> (dm_state \<times> sbmem) res" where
  "datamgr_take D S lo hi M B buffer =
     (let (ok, w) = heap_alloc (dm_world M); M = M\<lparr>dm_world := w\<rparr> in
      bindR (check_exit ok) (\<lambda>_.
      bindR (sbuffer_remove D S D B buffer no_data) (\<lambda>(err, d, B).
      bindR (check_exit (err \<noteq> SBUFFER_FAILURE)) (\<lambda>_.
      bindR (process_data lo hi M d) (\<lambda>M. Inr (M, B))))))"

definition datamgr_iteration ::
  "pthread_t \<Rightarrow> pthread_t \<Rightarrow> sensor_value_t \<Rightarrow> sensor_value_t \<Rightarrow> ptr \<Rightarrow> dm_state \<times> sbmem
   \<Rightarrow> (dm_state \<times> sbmem) res" where
  "datamgr_iteration D S lo hi buffer MB =
     bindR (datamgr_poll (snd MB) buffer) (\<lambda>found.
     if found then datamgr_take D S lo hi (fst MB) (snd MB) buffer else Inr MB)"

text \<open>
  The do-while loop. \<open>others\<close> holds what the other threads do to the buffer between two iterations;
  after its last element \<open>run_datamgr\<close> is false.
\<close>

fun datamgr_loop ::
  "pthread_t \<Rightarrow> pthread_t \<Rightarrow> sensor_value_t \<Rightarrow> sensor_value_t \<Rightarrow> ptr \<Rightarrow> (sbmem \<Rightarrow> sbmem) list
   \<Rightarrow> dm_state \<times> sbmem \<Rightarrow> (dm_state \<times> sbmem) res" where
  "datamgr_loop D S lo hi buffer [] MB = datamgr_iteration D S lo hi buffer MB"
| "datamgr_loop D S lo hi buffer (f # others) MB =
     bindR (datamgr_iteration D S lo hi buffer MB) (\<lambda>(M, B).
     datamgr_loop D S lo hi buffer others (M, f B))"

definition datamgr_parse_sensor_data ::
  "pthread_t \<Rightarrow> pthread_t \<Rightarrow> sensor_value_t \<Rightarrow> sensor_value_t \<Rightarrow> string option \<Rightarrow> ptr
   \<Rightarrow> (sbmem \<Rightarrow> sbmem) list \<Rightarrow> dm_state \<times> sbmem \<Rightarrow> (dm_state \<times> sbmem) res" where
  "datamgr_parse_sensor_data D S lo hi fp_sensor_map buffer others MB =
     bindR (datamgr_read_map fp_sensor_map (fst MB)) (\<lambda>M.
     bindR (check_exit (buffer \<noteq> NULL)) (\<lambda>_.
     datamgr_loop D S lo hi buffer others (M, snd MB)))"

section \<open>The loop over a file\<close>

text \<open>
  \<open>fread\<close> of a value and of a timestamp into variables that keep their contents at the end of the file
  and are indeterminate (\<open>None\<close>) when the file ends inside the object.
\<close>

definition fread_value :: "byte list \<Rightarrow> sensor_value_t option \<Rightarrow> sensor_value_t option \<times> byte list" where
  "fread_value bs old = (case fread 8 bs of
      None \<Rightarrow> (None, [])
    | Some (None, r) \<Rightarrow> (old, r)
    | Some (Some b, r) \<Rightarrow> (Some (double_of_bits (of_nat (le_nat b))), r))"

definition fread_ts :: "byte list \<Rightarrow> sensor_ts_t option \<Rightarrow> sensor_ts_t option \<times> byte list" where
  "fread_ts bs old = (case fread 8 bs of
      None \<Rightarrow> (None, [])
    | Some (None, r) \<Rightarrow> (old, r)
    | Some (Some b, r) \<Rightarrow> (Some (of_nat (le_nat b)), r))"

definition fread_id :: "byte list \<Rightarrow> (sensor_id_t \<times> byte list) option" where
  "fread_id bs = (case fread 2 bs of Some (Some b, r) \<Rightarrow> Some (of_nat (le_nat b), r) | _ \<Rightarrow> None)"

definition process_record ::
  "sensor_value_t \<Rightarrow> sensor_value_t \<Rightarrow> sensor_id_t \<Rightarrow> sensor_value_t option \<Rightarrow> sensor_ts_t option \<Rightarrow> dm_state
   \<Rightarrow> dm_state res" where
  "process_record lo hi i temperature t M =
     bindR (get_sensor_node_with_id M i) (\<lambda>(p, M).
     if p = NULL then Inr M
     else case (temperature, t) of
       (Some v, Some new_ts) \<Rightarrow> record_measurement lo hi M p i new_ts v
     | _ \<Rightarrow> Inl Uninit_Read)"

lemma fread_shorter: "fread n bs = Some (b, r) \<Longrightarrow> length r \<le> length bs"
  by (auto simp: fread_def split: if_splits)

lemma fread_id_shorter: "fread_id bs = Some (i, r) \<Longrightarrow> length r < length bs"
  by (auto simp: fread_id_def fread_def split: if_splits option.splits)

lemma fread_field_shorter:
  "length (snd (fread_value bs v)) \<le> length bs" "length (snd (fread_ts bs t)) \<le> length bs"
  by (auto simp: fread_value_def fread_ts_def split: option.splits dest: fread_shorter)

function file_loop ::
  "sensor_value_t \<Rightarrow> sensor_value_t \<Rightarrow> byte list \<Rightarrow> sensor_value_t option \<Rightarrow> sensor_ts_t option \<Rightarrow> dm_state
   \<Rightarrow> dm_state res" where
  "file_loop lo hi bs temperature t M =
     (case fread_id bs of
        None \<Rightarrow> Inr M
      | Some (i, r) \<Rightarrow>
          bindR (process_record lo hi i (fst (fread_value r temperature))
                   (fst (fread_ts (snd (fread_value r temperature)) t)) M)
            (file_loop lo hi (snd (fread_ts (snd (fread_value r temperature)) t))
               (fst (fread_value r temperature))
               (fst (fread_ts (snd (fread_value r temperature)) t))))"
  by pat_completeness auto
termination
proof (relation "measure (\<lambda>(lo, hi, bs, _). length bs)", goal_cases)
  case (2 lo hi bs temperature t M x i r)
  then have "length r < length bs" by (auto dest: fread_id_shorter)
  moreover have "length (snd (fread_ts (snd (fread_value r temperature)) t)) \<le> length r"
    using fread_field_shorter order_trans by blast
  ultimately show ?case by simp
qed simp

declare file_loop.simps [simp del]

definition datamgr_parse_sensor_files ::
  "sensor_value_t \<Rightarrow> sensor_value_t \<Rightarrow> string option \<Rightarrow> byte list option \<Rightarrow> dm_state \<Rightarrow> dm_state res" where
  "datamgr_parse_sensor_files lo hi fp_sensor_map fp_sensor_data M =
     bindR (datamgr_read_map fp_sensor_map M) (\<lambda>M.
     case fp_sensor_data of
       None \<Rightarrow> Inl Exit_Failure
     | Some bs \<Rightarrow> file_loop lo hi bs (Some (Finite 0)) (Some 0) M)"

section \<open>Queries and release\<close>

definition datamgr_get_room_id :: "dm_state \<Rightarrow> sensor_id_t \<Rightarrow> (sensor_id_t \<times> dm_state) res" where
  "datamgr_get_room_id M i =
     bindR (get_sensor_node_with_id M i) (\<lambda>(p, M).
     bindR (load (elems (dm_mem M)) p) (\<lambda>n. Inr (room_id n, M)))"

definition datamgr_get_last_modified :: "dm_state \<Rightarrow> sensor_id_t \<Rightarrow> (sensor_ts_t \<times> dm_state) res" where
  "datamgr_get_last_modified M i =
     bindR (get_sensor_node_with_id M i) (\<lambda>(p, M).
     bindR (load (elems (dm_mem M)) p) (\<lambda>n. Inr (timestamp n, M)))"

definition datamgr_get_total_sensors :: "dm_state \<Rightarrow> int res" where
  "datamgr_get_total_sensors M =
     (if sensor_list M = NULL then Inr 0 else dpl_size (dm_mem M) (sensor_list M))"

definition datamgr_free :: "dm_state \<Rightarrow> dm_state res" where
  "datamgr_free M =
     bindR (dpl_free (dm_mem M) (Some (sensor_list M)) True) (\<lambda>(l, H).
     let M = M\<lparr>sensor_list := l, dm_mem := H\<rparr> in
     bindR (datamgr_get_total_sensors M) (\<lambda>n.
     if n = 0 then
       bindR (free (lists (dm_mem M)) (sensor_list M)) (\<lambda>L.
       Inr (M\<lparr>sensor_list := NULL, dm_mem := (dm_mem M)\<lparr>lists := L\<rparr>\<rparr>))
     else Inr M))"

end
