(* ===== verification/Owned_List.thy ===== *)
theory Owned_List
  imports Dplist_List
begin

text \<open>
  A pointer list that owns its elements: it was built with \<open>insert_copy\<close> and is released with
  \<open>free_element\<close>, and its callbacks copy and free an element as a whole. That is how the data manager
  keeps its sensors and the connection manager its clients. The interface \<open>owning_callbacks\<close> states what
  the two callbacks have to do; its lemmas say what insertion, removal and release do to the list of
  values.
\<close>

section \<open>The representation\<close>

text \<open>
  An entry has the address of the list node, that of the element, and the element. The list owns all
  elements and nodes of its memory.
\<close>

type_synonym 'e owned = "(addr \<times> addr \<times> 'e) list"

abbreviation s_node :: "addr \<times> addr \<times> 'e \<Rightarrow> addr" where "s_node s \<equiv> fst s"
abbreviation s_elem :: "addr \<times> addr \<times> 'e \<Rightarrow> addr" where "s_elem s \<equiv> fst (snd s)"
abbreviation s_val :: "addr \<times> addr \<times> 'e \<Rightarrow> 'e" where "s_val s \<equiv> snd (snd s)"

definition chain_of :: "'e owned \<Rightarrow> (addr \<times> ptr) list" where
  "chain_of ss = map (\<lambda>s. (s_node s, Some (s_elem s))) ss"

definition own_rep :: "'e dmem \<Rightarrow> addr \<Rightarrow> 'e dplist_t \<Rightarrow> 'e owned \<Rightarrow> bool" where
  "own_rep H l cb ss \<longleftrightarrow> dpl_rep H l cb (chain_of ss)
     \<and> wf_store (elems H) \<and> distinct (map s_elem ss)
     \<and> (\<forall>s \<in> set ss. cells (elems H) (s_elem s) = Some (s_val s))
     \<and> dom (cells (elems H)) = s_elem ` set ss
     \<and> dom (cells (nodes H)) = s_node ` set ss"

lemma chain_of_simps [simp]:
  "chain_of [] = []" "chain_of (s # ss) = (s_node s, Some (s_elem s)) # chain_of ss"
  "chain_of (ss @ rs) = chain_of ss @ chain_of rs" "length (chain_of ss) = length ss"
  "map fst (chain_of ss) = map s_node ss" "map snd (chain_of ss) = map (Some \<circ> s_elem) ss"
  "chain_of ss = [] \<longleftrightarrow> ss = []"
  by (simp_all add: chain_of_def)

lemma chain_of_nth [simp]: "i < length ss \<Longrightarrow> chain_of ss ! i = (s_node (ss ! i), Some (s_elem (ss ! i)))"
  by (simp add: chain_of_def)

lemma dpl_rep_elems [simp]: "dpl_rep (H\<lparr>elems := E\<rparr>) l cb ns = dpl_rep H l cb ns"
  by (simp add: dpl_rep_def)

lemma own_size: "own_rep H l cb ss \<Longrightarrow> dpl_size H (Some l) = Inr (int (length ss))"
  using dpl_size_rep[of H l cb "chain_of ss"] by (simp add: own_rep_def)

lemma own_length: "own_rep H l cb ss \<Longrightarrow> length ss < fuel (nodes H)"
  using dpl_rep_length[of H l cb "chain_of ss"] by (simp add: own_rep_def)

lemma dpl_rep_get:
  assumes "dpl_rep H l cb (chain_of (xs @ y # ys))"
  shows "dpl_get_element_at_index H (Some l) (int (length xs)) = Inr (Some (s_elem y))"
proof -
  have "clamp (int (length xs)) (length (xs @ y # ys)) = length xs" by (simp add: clamp_def)
  then show ?thesis
    using dpl_element_rep[OF assms, of "int (length xs)"] chain_of_nth[of "length xs" "xs @ y # ys"]
    by (simp del: chain_of_simps(2,3))
qed

lemma own_get:
  "own_rep H l cb (xs @ y # ys) \<Longrightarrow> dpl_get_element_at_index H (Some l) (int (length xs)) = Inr (Some (s_elem y))"
  unfolding own_rep_def by (blast intro: dpl_rep_get)

lemma own_load: "own_rep H l cb ss \<Longrightarrow> s \<in> set ss \<Longrightarrow> load (elems H) (Some (s_elem s)) = Inr (s_val s)"
  by (auto simp: own_rep_def mem_simps)

lemma own_set:
  assumes rep: "own_rep H l cb (xs @ (a, p, v) # ys)"
  shows "\<exists>E. assign f (elems H) (Some p) = Inr E \<and> own_rep (H\<lparr>elems := E\<rparr>) l cb (xs @ (a, p, f v) # ys)
    \<and> avail E = avail (elems H) \<and> msize E = msize (elems H)"
proof -
  let ?E = "(elems H)\<lparr>cells := (cells (elems H))(p \<mapsto> f v)\<rparr>"
  have p: "cells (elems H) p = Some v" and wf: "wf_store (elems H)" using rep by (auto simp: own_rep_def)
  have "assign f (elems H) (Some p) = Inr ?E" using p by (simp add: mem_simps)
  moreover have "own_rep (H\<lparr>elems := ?E\<rparr>) l cb (xs @ (a, p, f v) # ys)"
    using rep p wf_update[OF wf, of p "f v"] by (auto simp: own_rep_def)
  ultimately show ?thesis by (intro exI[of _ ?E]) simp
qed

lemma insert_at_end: "insert_at (length xs) x xs = xs @ [x]"
  by (simp add: insert_at_def)

lemma remove_nth_mid: "remove_nth (length xs) (xs @ y # ys) = xs @ ys"
  by (simp add: remove_nth_def)

section \<open>The interface\<close>

locale owning_callbacks =
  fixes cb :: "'e dplist_t"
  assumes copies: "cells E a = Some v \<Longrightarrow> a \<noteq> b \<Longrightarrow> avail E = b # as
      \<Longrightarrow> element_copy cb (Some a) E = Inr (Some b, E\<lparr>cells := (cells E)(b \<mapsto> v), avail := as\<rparr>)"
    and frees: "cells E a = Some v
      \<Longrightarrow> element_free cb (Some a) E = Inr (NULL, E\<lparr>cells := (cells E)(a := None), avail := a # avail E\<rparr>)"
begin

text \<open>
  A value in a temporary cell \<open>a\<close> is appended as a copy, and the temporary cell is freed afterwards.
\<close>

lemma own_append:
  assumes rep: "own_rep H l cb ss" and el: "avail (elems H) = a # b # as"
    and nd: "avail (nodes H) = c # cs" and nr: "int (length ss) \<le> nr"
    and E_def: "E = (elems H)\<lparr>cells := (cells (elems H))(a \<mapsto> v), avail := b # as\<rparr>"
  shows "\<exists>H' E'. dpl_insert_at_index (H\<lparr>elems := E\<rparr>) (Some l) (Some a) nr True = Inr (Some l, H')
    \<and> free (elems H') (Some a) = Inr E' \<and> own_rep (H'\<lparr>elems := E'\<rparr>) l cb (ss @ [(c, b, v)])
    \<and> avail E' = a # as \<and> msize E' = msize (elems H) \<and> avail (nodes H') = cs
    \<and> msize (nodes H') = msize (nodes H) \<and> dom (cells (lists H')) = dom (cells (lists H))"
proof -
  have wf: "wf_store (elems H)" using rep by (simp add: own_rep_def)
  have new: "a \<notin> dom (cells (elems H))" "b \<notin> dom (cells (elems H))" "a \<noteq> b"
    using wf el by (auto simp: wf_store_def)
  define E3 where "E3 = E\<lparr>cells := (cells E)(b \<mapsto> v), avail := as\<rparr>"
  have "element_copy cb (Some a) E = Inr (Some b, E3)"
    unfolding E3_def using new(3) by (intro copies) (simp_all add: E_def)
  then have st: "stored_element cb True (Some a) (elems (H\<lparr>elems := E\<rparr>)) = Inr (Some b, E3)"
    by (simp add: stored_element_def)
  have "dpl_rep (H\<lparr>elems := E\<rparr>) l cb (chain_of ss)" using rep by (simp add: own_rep_def)
  from dpl_insert_rep[OF this _ st, of c cs nr] nd
  obtain H' where H': "dpl_insert_at_index (H\<lparr>elems := E\<rparr>) (Some l) (Some a) nr True = Inr (Some l, H')"
    "dpl_rep H' l cb (insert_at (ins_pos nr (length (chain_of ss))) (c, Some b) (chain_of ss))"
    "elems H' = E3" "avail (nodes H') = cs" "dom (cells (nodes H')) = insert c (dom (cells (nodes H)))"
    "msize (nodes H') = msize (nodes H)" "dom (cells (lists H')) = dom (cells (lists H))" by auto
  have pos: "insert_at (ins_pos nr (length (chain_of ss))) (c, Some b) (chain_of ss) = chain_of (ss @ [(c, b, v)])"
    using nr by (simp add: ins_pos_def insert_at_def)
  define E4 where "E4 = E3\<lparr>cells := (cells E3)(a := None), avail := a # avail E3\<rparr>"
  have f: "free (elems H') (Some a) = Inr E4"
    unfolding H'(3) using new(3) by (simp add: mem_simps E4_def E3_def E_def)
  have c4: "cells E4 = (cells (elems H))(b \<mapsto> v)"
    using new by (auto simp: E4_def E3_def E_def fun_eq_iff)
  have "wf_store E3" using wf el new unfolding E3_def E_def wf_store_def by auto
  then have wf4: "wf_store E4" unfolding E4_def by (rule wf_release) (simp add: E3_def E_def new(3))
  have "own_rep (H'\<lparr>elems := E4\<rparr>) l cb (ss @ [(c, b, v)])"
    unfolding own_rep_def
  proof (intro conjI)
    show "dpl_rep (H'\<lparr>elems := E4\<rparr>) l cb (chain_of (ss @ [(c, b, v)]))"
      using H'(2) unfolding pos by simp
    show "distinct (map s_elem (ss @ [(c, b, v)]))" using rep new by (auto simp: own_rep_def)
    show "\<forall>x \<in> set (ss @ [(c, b, v)]). cells (elems (H'\<lparr>elems := E4\<rparr>)) (s_elem x) = Some (s_val x)"
    proof
      fix x assume "x \<in> set (ss @ [(c, b, v)])"
      then consider "x = (c, b, v)" | "x \<in> set ss" by auto
      then show "cells (elems (H'\<lparr>elems := E4\<rparr>)) (s_elem x) = Some (s_val x)"
      proof cases
        case 2
        then have "cells (elems H) (s_elem x) = Some (s_val x)" using rep by (simp add: own_rep_def)
        then show ?thesis using new by (auto simp: c4)
      qed (simp add: c4)
    qed
    show "dom (cells (elems (H'\<lparr>elems := E4\<rparr>))) = s_elem ` set (ss @ [(c, b, v)])"
      using rep by (simp add: own_rep_def c4)
    show "dom (cells (nodes (H'\<lparr>elems := E4\<rparr>))) = s_node ` set (ss @ [(c, b, v)])"
      using rep H'(5) by (simp add: own_rep_def)
  qed (simp_all add: wf4)
  moreover have "avail E4 = a # as" "msize E4 = msize (elems H)" by (simp_all add: E4_def E3_def E_def)
  ultimately show ?thesis using H' f by blast
qed

lemma freed_element_owning:
  "cells E a = Some v
   \<Longrightarrow> freed_element cb True (Some a) E = Inr (E\<lparr>cells := (cells E)(a := None), avail := a # avail E\<rparr>)"
  by (simp add: freed_element_def frees)

lemma own_remove:
  assumes rep: "own_rep H l cb (xs @ (a, p, v) # ys)"
  shows "\<exists>H'. dpl_remove_at_index H (Some l) (int (length xs)) True = Inr (Some l, H')
    \<and> own_rep H' l cb (xs @ ys) \<and> msize (nodes H') = msize (nodes H) \<and> msize (elems H') = msize (elems H)"
proof -
  let ?ss = "xs @ (a, p, v) # ys"
  let ?E = "(elems H)\<lparr>cells := (cells (elems H))(p := None), avail := p # avail (elems H)\<rparr>"
  have r: "dpl_rep H l cb (chain_of ?ss)" and wf: "wf_store (elems H)" and p: "cells (elems H) p = Some v"
    using rep by (auto simp: own_rep_def)
  have k: "length xs = clamp (int (length xs)) (length (chain_of ?ss))" by (simp add: clamp_def)
  have nth: "chain_of ?ss ! length xs = (a, Some p)"
    using chain_of_nth[of "length xs" ?ss] by (simp del: chain_of_simps(2,3))
  have e: "freed_element cb True (snd (chain_of ?ss ! length xs)) (elems H) = Inr ?E"
    unfolding nth using freed_element_owning[OF p] by simp
  obtain H' where H': "dpl_remove_at_index H (Some l) (int (length xs)) True = Inr (Some l, H')"
    "dpl_rep H' l cb (remove_nth (length xs) (chain_of ?ss))" "elems H' = ?E"
    "dom (cells (nodes H')) = dom (cells (nodes H)) - {a}" "msize (nodes H') = msize (nodes H)"
    using dpl_remove_rep[OF r _ k e] unfolding nth by auto
  have rem: "remove_nth (length xs) (chain_of ?ss) = chain_of (xs @ ys)"
    using remove_nth_mid[of "chain_of xs" "(a, Some p)" "chain_of ys"] by simp
  have d: "distinct (map s_elem ?ss)" "distinct (map s_node ?ss)"
    using rep by (auto simp: own_rep_def dpl_rep_def)
  have "own_rep H' l cb (xs @ ys)"
    unfolding own_rep_def
  proof (intro conjI)
    show "dpl_rep H' l cb (chain_of (xs @ ys))" using H'(2) unfolding rem .
    show "wf_store (elems H')" unfolding H'(3) by (rule wf_release[OF wf]) (simp add: p)
    show "distinct (map s_elem (xs @ ys))" using d(1) by simp
    show "\<forall>s \<in> set (xs @ ys). cells (elems H') (s_elem s) = Some (s_val s)"
      using rep d(1) unfolding H'(3) by (auto simp: own_rep_def)
    show "dom (cells (elems H')) = s_elem ` set (xs @ ys)"
      using rep d(1) unfolding H'(3) by (auto simp: own_rep_def)
    show "dom (cells (nodes H')) = s_node ` set (xs @ ys)"
      using rep d(2) unfolding H'(4) by (auto simp: own_rep_def)
  qed
  then show ?thesis using H'(1,3,5) by auto
qed

lemma free_elements_owning:
  assumes "distinct as" "\<forall>a \<in> set as. cells E a \<noteq> None"
  shows "\<exists>E'. free_elements cb True (map Some as) E = Inr E' \<and> dom (cells E') = dom (cells E) - set as"
  using assms
proof (induction as arbitrary: E)
  case (Cons a as)
  then obtain v where v: "cells E a = Some v" by auto
  let ?E = "E\<lparr>cells := (cells E)(a := None), avail := a # avail E\<rparr>"
  have "freed_element cb True (Some a) E = Inr ?E" using v by (rule freed_element_owning)
  moreover have "\<forall>b \<in> set as. cells ?E b \<noteq> None" using Cons.prems by auto
  then obtain E' where "free_elements cb True (map Some as) ?E = Inr E'"
    "dom (cells E') = dom (cells ?E) - set as"
    using Cons.IH[of ?E] Cons.prems(1) by (auto simp del: fun_upd_apply)
  ultimately show ?case by auto
qed simp

lemma own_free:
  assumes rep: "own_rep H l cb ss"
  shows "\<exists>H'. dpl_free H (Some (Some l)) True = Inr (NULL, H') \<and> dom (cells (elems H')) = {}
    \<and> dom (cells (nodes H')) = {} \<and> dom (cells (lists H')) = dom (cells (lists H)) - {l}"
proof -
  have r: "dpl_rep H l cb (chain_of ss)" "dom (cells (elems H)) = s_elem ` set ss"
    "dom (cells (nodes H)) = s_node ` set ss" "distinct (map s_elem ss)"
    "\<forall>a \<in> set (map s_elem ss). cells (elems H) a \<noteq> None"
    using rep by (auto simp: own_rep_def)
  obtain E where E: "free_elements cb True (map snd (chain_of ss)) (elems H) = Inr E" "dom (cells E) = {}"
    using free_elements_owning[OF r(4,5)] r(2) by (auto simp: comp_def)
  obtain H' where H': "dpl_free H (Some (Some l)) True = Inr (NULL, H')" "elems H' = E"
    "dom (cells (nodes H')) = dom (cells (nodes H)) - set (addrs (chain_of ss))"
    "dom (cells (lists H')) = dom (cells (lists H)) - {l}"
    by (rule dpl_free_rep[OF r(1) E(1)])
  then show ?thesis using E(2) r(3) by auto
qed

end

end
