(* ===== verification/Datamgr_Rep.thy ===== *)
theory Datamgr_Rep
  imports Datamgr Owned_List
begin

text \<open>
  The data manager's memory as a list of sensors, and the effect of its operations on that list. The
  interface \<open>element_order\<close> of the pointer list is interpreted on the data manager's callback.
\<close>

section \<open>The callback is an order\<close>

interpretation dm_order: element_order cmp_sensor
  by unfold_locales (auto simp: cmp_sensor_def split: if_splits)

section \<open>Sensors in the memory\<close>

text \<open>The list of the data manager owns its sensors.\<close>

type_synonym sensors = "sensor_node_t owned"

definition dm_callbacks :: "sensor_node_t dplist_t" where
  "dm_callbacks = \<lparr>dl_head = NULL, element_copy = element_copy_datamgr,
     element_free = element_free_datamgr, element_compare = element_compare_datamgr\<rparr>"

interpretation dm_own: owning_callbacks dm_callbacks
  by unfold_locales
    (auto simp: dm_callbacks_def element_copy_datamgr_def element_free_datamgr_def malloc_def mem_simps)

definition dm_rep :: "dm_state \<Rightarrow> addr \<Rightarrow> sensors \<Rightarrow> bool" where
  dm_rep_own: "dm_rep M l ss \<longleftrightarrow> sensor_list M = Some l \<and> own_rep (dm_mem M) l dm_callbacks ss"

lemma dm_rep_def: "dm_rep M l ss \<longleftrightarrow> sensor_list M = Some l
     \<and> dpl_rep (dm_mem M) l dm_callbacks (chain_of ss)
     \<and> wf_store (elems (dm_mem M)) \<and> distinct (map s_elem ss)
     \<and> (\<forall>s \<in> set ss. cells (elems (dm_mem M)) (s_elem s) = Some (s_val s))
     \<and> dom (cells (elems (dm_mem M))) = s_elem ` set ss
     \<and> dom (cells (nodes (dm_mem M))) = s_node ` set ss"
  by (simp add: dm_rep_own own_rep_def)

text \<open>The elements in the list, read off the memory.\<close>

definition dm_sensors :: "dm_state \<Rightarrow> sensor_node_t list" where
  "dm_sensors M = map (\<lambda>p. the (cells (elems (dm_mem M)) (the p))) (dpl_elements (dm_mem M) (the (sensor_list M)))"

lemma dm_rep_sensors: "dm_rep M l ss \<Longrightarrow> dm_sensors M = map s_val ss"
  by (auto simp: dm_rep_def dm_sensors_def dpl_rep_elements)

lemma dm_rep_load: "dm_rep M l ss \<Longrightarrow> s \<in> set ss \<Longrightarrow> load (elems (dm_mem M)) (Some (s_elem s)) = Inr (s_val s)"
  by (auto simp: dm_rep_def mem_simps)

lemma dm_rep_world [simp]: "dm_rep (M\<lparr>dm_world := w\<rparr>) l ss = dm_rep M l ss"
  by (simp add: dm_rep_def)

lemma dm_rep_world_set: "dm_rep M l ss \<Longrightarrow> dm_rep (M\<lparr>dm_world := w\<rparr>) l ss"
  by simp

section \<open>Finding a sensor\<close>

text \<open>A temporary element that is freed again leaves the store as it was.\<close>

lemma malloc_then_free:
  assumes "wf_store E" "malloc v E = Some (a, E1)"
  shows "free (E1\<lparr>cells := (cells E1)(a \<mapsto> w)\<rparr>) (Some a) = Inr E"
proof -
  have "cells E a = None" using wf_malloc_fresh[OF assms] by blast
  then have "(cells E)(a := None) = cells E" by auto
  then show ?thesis using assms(2) by (auto simp: malloc_def mem_simps split: list.splits)
qed

definition find_sensor :: "sensor_id_t \<Rightarrow> sensors \<Rightarrow> (addr \<times> addr \<times> sensor_node_t) option" where
  "find_sensor i ss = List.find (\<lambda>s. sensor_id (s_val s) = i) ss"

lemma find_sensor_NoneD: "find_sensor i ss = None \<Longrightarrow> s \<in> set ss \<Longrightarrow> sensor_id (s_val s) \<noteq> i"
  unfolding find_sensor_def find_None_iff by blast

lemma find_sensor_SomeE:
  assumes "find_sensor i ss = Some s"
  obtains xs ys where "ss = xs @ s # ys" "sensor_id (s_val s) = i"
    "\<forall>x \<in> set xs. sensor_id (s_val x) \<noteq> i"
proof -
  obtain k where k: "k < length ss" "sensor_id (s_val (ss ! k)) = i" "s = ss ! k"
    "\<forall>j < k. sensor_id (s_val (ss ! j)) \<noteq> i"
    using assms by (auto simp: find_sensor_def find_Some_iff)
  show ?thesis
  proof (rule that[of "take k ss" "drop (Suc k) ss"])
    show "ss = take k ss @ s # drop (Suc k) ss" using k split_at by blast
    show "\<forall>x \<in> set (take k ss). sensor_id (s_val x) \<noteq> i"
    proof
      fix x assume "x \<in> set (take k ss)"
      then obtain j where "j < k" "x = ss ! j" by (auto simp: in_set_conv_nth)
      then show "sensor_id (s_val x) \<noteq> i" using k(4) by blast
    qed
  qed (simp add: k(2,3))
qed

lemma sensor_loop_rep:
  assumes rep: "dpl_rep H l cb (chain_of (xs @ ys))"
    and new: "cells (elems H) p = Some v" "sensor_id v = i"
    and vals: "\<forall>s \<in> set (xs @ ys). cells (elems H) (s_elem s) = Some (s_val s)"
    and fuel: "length ys < k"
  shows "sensor_loop k H (Some l) (Some p) (int (length xs))
    = Inr (map_option s_elem (find_sensor i ys))"
  using rep vals fuel
proof (induction ys arbitrary: xs k)
  case Nil
  then obtain j where "k = Suc j" by (cases k) auto
  then show ?case using dpl_size_rep[OF Nil(1)] by (simp add: find_sensor_def)
next
  case (Cons y ys)
  obtain j where k: "k = Suc j" using Cons.prems(3) by (cases k) auto
  have size: "dpl_size H (Some l) = Inr (int (length (xs @ y # ys)))"
    using dpl_size_rep[OF Cons.prems(1)] by simp
  have get: "dpl_get_element_at_index H (Some l) (int (length xs)) = Inr (Some (s_elem y))"
    by (rule dpl_rep_get[OF Cons.prems(1)])
  have cmp: "element_compare_datamgr (Some p) (Some (s_elem y)) (elems H) = Inr (cmp_sensor v (s_val y))"
    using new Cons.prems(2) by (simp add: element_compare_datamgr_def mem_simps)
  have "sensor_loop j H (Some l) (Some p) (int (length (xs @ [y])))
      = Inr (map_option s_elem (find_sensor i ys))"
    using Cons.prems k by (intro Cons.IH) simp_all
  then show ?case
    using k size get cmp new(2) by (auto simp: find_sensor_def cmp_sensor_def add.commute)
qed

lemma get_sensor_node_rep:
  assumes rep: "dm_rep M l ss" and room: "avail (elems (dm_mem M)) \<noteq> []"
  shows "get_sensor_node_with_id M i = Inr (map_option s_elem (find_sensor i ss), M)"
proof -
  let ?E = "elems (dm_mem M)"
  obtain p E1 where E1: "malloc junk_sensor_node ?E = Some (p, E1)"
    using room by (cases "avail ?E") (auto simp: malloc_def)
  have wf: "wf_store ?E" using rep by (simp add: dm_rep_def)
  have p: "p \<notin> dom (cells ?E)" by (rule wf_malloc_fresh[OF wf E1])
  have E1c: "cells E1 = (cells ?E)(p \<mapsto> junk_sensor_node)"
    using E1 by (auto simp: malloc_def split: list.splits)
  define v where "v = junk_sensor_node\<lparr>sensor_id := i\<rparr>"
  define E2 where "E2 = E1\<lparr>cells := (cells E1)(p \<mapsto> v)\<rparr>"
  have as: "assign (\<lambda>n. n\<lparr>sensor_id := i\<rparr>) E1 (Some p) = Inr E2"
    using E1c by (simp add: mem_simps E2_def v_def)
  have vals: "\<forall>s \<in> set ([] @ ss). cells (elems ((dm_mem M)\<lparr>elems := E2\<rparr>)) (s_elem s) = Some (s_val s)"
    using rep p E1c by (auto simp: dm_rep_def E2_def)
  have rep2: "dpl_rep ((dm_mem M)\<lparr>elems := E2\<rparr>) l dm_callbacks (chain_of ([] @ ss))"
    using rep by (simp add: dm_rep_def)
  have "length ss < fuel (nodes (dm_mem M))" using dpl_rep_length[OF rep2] by simp
  then have loop: "sensor_loop (fuel (nodes (dm_mem M))) ((dm_mem M)\<lparr>elems := E2\<rparr>) (Some l) (Some p) 0
      = Inr (map_option s_elem (find_sensor i ss))"
    using sensor_loop_rep[OF rep2 _ _ vals, of p v i] by (simp add: E2_def v_def)
  have "free E2 (Some p) = Inr ?E" unfolding E2_def by (rule malloc_then_free[OF wf E1])
  then show ?thesis using E1 as loop rep
    by (simp add: get_sensor_node_with_id_def dm_rep_def)
qed

section \<open>Writing to a sensor\<close>

lemma dm_rep_set:
  assumes rep: "dm_rep M l (xs @ (a, p, v) # ys)"
  shows "\<exists>M'. set_sensor f M (Some p) = Inr M' \<and> dm_rep M' l (xs @ (a, p, f v) # ys)
    \<and> dm_world M' = dm_world M \<and> avail (elems (dm_mem M')) = avail (elems (dm_mem M))"
proof -
  have "own_rep (dm_mem M) l dm_callbacks (xs @ (a, p, v) # ys)" using rep by (simp add: dm_rep_own)
  from own_set[OF this, of f] rep show ?thesis by (auto simp: set_sensor_def dm_rep_own)
qed

lemma dm_log_ok:
  assumes "world_ok (dm_world M)"
  obtains w where "dm_log fmt M = Inr (M\<lparr>dm_world := w\<rparr>)" "logs (dm_world M) [fmt] w"
  using log_event_logs[OF assms, of fmt] that by (auto simp: dm_log_def)

section \<open>The ring of measurements\<close>

lemma ring_loop_mod: "RUN_AVG_LENGTH \<le> n \<Longrightarrow> ring_loop n pos = Some (n mod RUN_AVG_LENGTH)"
proof (induction n pos rule: ring_loop.induct)
  case (1 n pos)
  have r: "ring_loop n pos = ring_loop (n - RUN_AVG_LENGTH)
      (if n - RUN_AVG_LENGTH < RUN_AVG_LENGTH then Some (n - RUN_AVG_LENGTH) else pos)"
    using "1.prems" by (subst ring_loop.simps) (simp add: Let_def)
  show ?case
  proof (cases "n - RUN_AVG_LENGTH < RUN_AVG_LENGTH")
    case True
    then have "ring_loop n pos = Some (n - RUN_AVG_LENGTH)"
      unfolding r by (subst ring_loop.simps) simp
    moreover have "(n - RUN_AVG_LENGTH) mod RUN_AVG_LENGTH = n - RUN_AVG_LENGTH"
      using True "1.prems" by (intro mod_pos_pos_trivial) simp_all
    ultimately show ?thesis by simp
  next
    case False
    then show ?thesis using "1.IH"[OF "1.prems" refl] r by (simp add: RUN_AVG_LENGTH_def)
  qed
qed

lemma ring_position_mod: "0 \<le> n \<Longrightarrow> ring_position n = Some (n mod RUN_AVG_LENGTH)"
  by (auto simp: ring_position_def ring_loop_mod RUN_AVG_LENGTH_def)

text \<open>
  A node with the history \<open>hs\<close> of all measurements of its sensor: the last five are in the ring, each
  at its number modulo 5.
\<close>

definition node_hist :: "sensor_node_t \<Rightarrow> sensor_value_t list \<Rightarrow> bool" where
  "node_hist v hs \<longleftrightarrow> nr_of_meass v = int (length hs) \<and> length (temperatures v) = 5
     \<and> (\<forall>j < length hs. length hs \<le> j + 5 \<longrightarrow> temperatures v ! (j mod 5) = Some (hs ! j))"

text \<open>The last five measurements in the order of the ring, and their average as the code computes it.\<close>

definition window :: "sensor_value_t list \<Rightarrow> sensor_value_t list" where
  "window hs = rotate (5 - length hs mod 5) (drop (length hs - 5) hs)"

definition avg_of :: "sensor_value_t list \<Rightarrow> sensor_value_t" where
  "avg_of hs = (if 5 \<le> length hs then d_div_int (foldl d_add (Finite 0) (window hs)) 5 else Finite 0)"

lemma mod5_diff: "a < b \<Longrightarrow> b < a + 5 \<Longrightarrow> a mod 5 \<noteq> b mod (5::nat)"
  using mod_eq_dvd_iff_nat[of a b 5] by (auto dest!: dvd_imp_le)

text \<open>The slot \<open>i\<close> holds the latest measurement whose number is \<open>i\<close> modulo 5.\<close>

lemma slot_number:
  fixes n i :: nat
  assumes "5 \<le> n" "i < 5"
  defines "j \<equiv> n - 5 + (5 - n mod 5 + i) mod 5"
  shows "j < n" "n \<le> j + 5" "j mod 5 = i"
proof -
  obtain q r where n: "n = 5 * q + r" "r < 5" by (metis mult.commute div_mult_mod_eq mod_less_divisor zero_less_numeral)
  obtain q' where q: "q = Suc q'" using assms(1) n by (cases q) auto
  have m: "n mod 5 = r" using n by simp
  have j: "j = (if i < r then 5 * q + i else 5 * q' + i)"
  proof (cases "i < r")
    case True
    then have "(5 - r + i) mod 5 = 5 - r + i" using n(2) by simp
    then show ?thesis using True n q unfolding j_def m by simp
  next
    case False
    then have "5 - r + i = 5 + (i - r)" using n(2) by simp
    then have "(5 - r + i) mod 5 = (i - r) mod 5" by simp
    then have "(5 - r + i) mod 5 = i - r" using assms(2) by simp
    then show ?thesis using False n q unfolding j_def m by simp
  qed
  then show "j < n" "n \<le> j + 5" using n q assms(2) by auto
  have "(5 * k + i) mod 5 = i" for k using assms(2) by simp
  then show "j mod 5 = i" unfolding j by (simp split: if_split)
qed

lemma node_hist_add:
  assumes "node_hist v hs"
  shows "node_hist (v\<lparr>timestamp := t, temperatures := (temperatures v)[length hs mod 5 := Some x],
    nr_of_meass := nr_of_meass v + 1\<rparr>) (hs @ [x])"
proof -
  have "(temperatures v)[length hs mod 5 := Some x] ! (j mod 5) = Some ((hs @ [x]) ! j)"
    if "j < Suc (length hs)" "Suc (length hs) \<le> j + 5" for j
  proof (cases "j = length hs")
    case True
    then show ?thesis using assms by (simp add: node_hist_def)
  next
    case False
    then have j: "j < length hs" "length hs < j + 5" using that by simp_all
    then have "j mod 5 \<noteq> length hs mod 5" using mod5_diff[of j "length hs"] by blast
    then show ?thesis using assms j by (simp add: node_hist_def nth_append)
  qed
  then show ?thesis using assms by (simp add: node_hist_def)
qed

lemma window_nth:
  assumes "5 \<le> length hs" "i < 5"
  shows "window hs ! i = hs ! (length hs - 5 + (5 - length hs mod 5 + i) mod 5)"
  using assms by (simp add: window_def nth_rotate)

lemma node_hist_window:
  assumes "node_hist v hs" "5 \<le> length hs"
  shows "temperatures v = map Some (window hs)"
proof (rule nth_equalityI)
  show "length (temperatures v) = length (map Some (window hs))"
    using assms by (simp add: node_hist_def window_def)
next
  fix i assume "i < length (temperatures v)"
  then have i: "i < 5" using assms(1) by (simp add: node_hist_def)
  define j where "j = length hs - 5 + (5 - length hs mod 5 + i) mod 5"
  have j: "j < length hs" "length hs \<le> j + 5" "j mod 5 = i"
    unfolding j_def by (rule slot_number[OF assms(2) i])+
  have "i < length (window hs)" using assms(2) i by (simp add: window_def)
  then show "temperatures v ! i = map Some (window hs) ! i"
    using assms j window_nth[OF assms(2) i] unfolding node_hist_def j_def[symmetric] by auto
qed

lemma sum_temperatures_map: "sum_temperatures (map Some vs) t = Inr (foldl d_add t vs)"
  by (induction vs arbitrary: t) auto

end
