(* ===== verification/Datamgr_Ops.thy ===== *)
theory Datamgr_Ops
  imports Datamgr_Rep
begin

text \<open>
  The data manager's operations refine a small machine: a table of sensors, each with the history of
  its measurements, in which a measurement is appended to the first sensor with its id and may raise an
  alarm. \<open>dm_inv M hss\<close> says that the memory of \<open>M\<close> holds sensors with the histories \<open>hss\<close>.
\<close>

section \<open>The abstract machine\<close>

definition alarms ::
  "sensor_value_t \<Rightarrow> sensor_value_t \<Rightarrow> sensor_id_t \<Rightarrow> sensor_value_t list \<Rightarrow> (sensor_ts_t \<Rightarrow> string) list" where
  "alarms lo hi i hs =
     (if length hs < 5 then []
      else (if d_less (avg_of hs) lo then [msg_too_cold i (avg_of hs)] else [])
         @ (if d_less hi (avg_of hs) then [msg_too_hot i (avg_of hs)] else []))"

fun index_of :: "'x \<Rightarrow> 'x list \<Rightarrow> nat option" where
  "index_of x [] = None"
| "index_of x (y # ys) = (if y = x then Some 0 else map_option Suc (index_of x ys))"

definition spec_step ::
  "sensor_value_t \<Rightarrow> sensor_value_t \<Rightarrow> sensor_id_t list \<Rightarrow> sensor_data_t \<Rightarrow> sensor_value_t list list
   \<Rightarrow> sensor_value_t list list \<times> (sensor_ts_t \<Rightarrow> string) list" where
  "spec_step lo hi ids d hss =
     (if id d = 0 then (hss, [])
      else case index_of (id d) ids of
        None \<Rightarrow> (hss, [msg_invalid_id (id d)])
      | Some k \<Rightarrow> (hss[k := hss ! k @ [val d]], alarms lo hi (id d) (hss ! k @ [val d])))"

fun spec_run ::
  "sensor_value_t \<Rightarrow> sensor_value_t \<Rightarrow> sensor_id_t list \<Rightarrow> sensor_data_t list \<Rightarrow> sensor_value_t list list
   \<Rightarrow> sensor_value_t list list \<times> (sensor_ts_t \<Rightarrow> string) list" where
  "spec_run lo hi ids [] hss = (hss, [])"
| "spec_run lo hi ids (d # ds) hss =
     (let (hss, fs) = spec_step lo hi ids d hss; (hss, gs) = spec_run lo hi ids ds hss in (hss, fs @ gs))"

lemma spec_step_length [simp]: "length (fst (spec_step lo hi ids d hss)) = length hss"
  by (auto simp: spec_step_def split: option.splits)

section \<open>The invariant\<close>

definition dm_ids :: "dm_state \<Rightarrow> sensor_id_t list" where
  "dm_ids M = map sensor_id (dm_sensors M)"

definition dm_rooms :: "dm_state \<Rightarrow> sensor_id_t list" where
  "dm_rooms M = map room_id (dm_sensors M)"

definition node_ok :: "sensor_node_t \<Rightarrow> sensor_value_t list \<Rightarrow> bool" where
  "node_ok v hs \<longleftrightarrow> node_hist v hs \<and> running_avg v = avg_of hs"

definition dm_inv :: "dm_state \<Rightarrow> sensor_value_t list list \<Rightarrow> bool" where
  "dm_inv M hss \<longleftrightarrow> (\<exists>l ss. dm_rep M l ss \<and> list_all2 (\<lambda>s hs. node_ok (s_val s) hs) ss hss)
     \<and> avail (elems (dm_mem M)) \<noteq> [] \<and> world_ok (dm_world M)"

lemma dm_invE:
  assumes "dm_inv M hss"
  obtains l ss where "dm_rep M l ss" "list_all2 (\<lambda>s hs. node_ok (s_val s) hs) ss hss"
    "dm_sensors M = map s_val ss" "dm_ids M = map (sensor_id \<circ> s_val) ss"
    "avail (elems (dm_mem M)) \<noteq> []" "world_ok (dm_world M)"
  using assms by (auto simp: dm_inv_def dm_ids_def dm_rep_sensors)

lemma dm_inv_length: "dm_inv M hss \<Longrightarrow> length (dm_sensors M) = length hss"
  by (auto elim!: dm_invE dest: list_all2_lengthD)

lemma find_sensor_index:
  assumes "index_of i (map (sensor_id \<circ> s_val) ss) = Some k"
  shows "k < length ss \<and> find_sensor i ss = Some (ss ! k) \<and> sensor_id (s_val (ss ! k)) = i"
  using assms
proof (induction ss arbitrary: k)
  case (Cons s ss)
  then show ?case by (auto simp: find_sensor_def split: if_splits)
qed simp

lemma find_sensor_no_index: "index_of i (map (sensor_id \<circ> s_val) ss) = None \<Longrightarrow> find_sensor i ss = None"
  by (induction ss) (auto simp: find_sensor_def split: if_splits)

section \<open>The running average\<close>

lemma dm_log_if:
  assumes "world_ok (dm_world M)"
  shows "\<exists>w. (if b then dm_log fmt M else Inr M) = Inr (M\<lparr>dm_world := w\<rparr>)
    \<and> logs (dm_world M) (if b then [fmt] else []) w"
proof (cases b)
  case True
  then show ?thesis using dm_log_ok[OF assms, of fmt] by auto
next
  case False
  then show ?thesis by (auto intro: exI[of _ "dm_world M"])
qed

lemma get_avg_rep:
  assumes rep: "dm_rep M l (xs @ (a, p, v) # ys)" and hist: "node_hist v hs"
    and room: "avail (elems (dm_mem M)) \<noteq> []" and w: "world_ok (dm_world M)"
    and find: "find_sensor i (xs @ (a, p, v) # ys) = Some (a, p, v)"
  defines "v' \<equiv> if 5 \<le> length hs then v\<lparr>running_avg := avg_of hs\<rparr> else v"
  shows "\<exists>M'. datamgr_get_avg lo hi M i = Inr (avg_of hs, M') \<and> dm_rep M' l (xs @ (a, p, v') # ys)
    \<and> logs (dm_world M) (alarms lo hi (sensor_id v) hs) (dm_world M')
    \<and> avail (elems (dm_mem M')) = avail (elems (dm_mem M))"
proof -
  have get: "get_sensor_node_with_id M i = Inr (Some p, M)"
    using get_sensor_node_rep[OF rep room, of i] find by simp
  have ld: "load (elems (dm_mem M)) (Some p) = Inr v"
    using dm_rep_load[OF rep, of "(a, p, v)"] by simp
  show ?thesis
  proof (cases "5 \<le> length hs")
    case False
    then show ?thesis using get ld hist rep
      by (auto simp: datamgr_get_avg_def node_hist_def RUN_AVG_LENGTH_def v'_def alarms_def avg_of_def)
  next
    case True
    let ?avg = "avg_of hs"
    have sum: "sum_temperatures (take (nat RUN_AVG_LENGTH) (temperatures v)) (Finite 0)
        = Inr (foldl d_add (Finite 0) (window hs))"
      using node_hist_window[OF hist True] hist
      by (simp add: node_hist_def RUN_AVG_LENGTH_def sum_temperatures_map)
    have avg: "d_div_int (foldl d_add (Finite 0) (window hs)) RUN_AVG_LENGTH = ?avg"
      using True by (simp add: avg_of_def RUN_AVG_LENGTH_def)
    obtain w1 where w1: "(if d_less ?avg lo then dm_log (msg_too_cold (sensor_id v) ?avg) M else Inr M)
        = Inr (M\<lparr>dm_world := w1\<rparr>)"
      "logs (dm_world M) (if d_less ?avg lo then [msg_too_cold (sensor_id v) ?avg] else []) w1"
      using dm_log_if[OF w] by blast
    let ?M1 = "M\<lparr>dm_world := w1\<rparr>"
    have "world_ok w1" using logs_ok[OF w1(2) w] .
    then obtain w2 where w2: "(if d_less hi ?avg then dm_log (msg_too_hot (sensor_id v) ?avg) ?M1 else Inr ?M1)
        = Inr (?M1\<lparr>dm_world := w2\<rparr>)"
      "logs w1 (if d_less hi ?avg then [msg_too_hot (sensor_id v) ?avg] else []) w2"
      using dm_log_if[of ?M1] by auto
    let ?M2 = "M\<lparr>dm_world := w2\<rparr>"
    have "dm_rep ?M2 l (xs @ (a, p, v) # ys)" using rep by simp
    from dm_rep_set[OF this, of "\<lambda>n. n\<lparr>running_avg := ?avg\<rparr>"]
    obtain M3 where M3: "set_sensor (\<lambda>n. n\<lparr>running_avg := ?avg\<rparr>) ?M2 (Some p) = Inr M3"
      "dm_rep M3 l (xs @ (a, p, v\<lparr>running_avg := ?avg\<rparr>) # ys)" "dm_world M3 = w2"
      "avail (elems (dm_mem M3)) = avail (elems (dm_mem M))" by auto
    have ge: "RUN_AVG_LENGTH \<le> nr_of_meass v" using True hist by (simp add: node_hist_def RUN_AVG_LENGTH_def)
    have upd: "?M1\<lparr>dm_world := w2\<rparr> = ?M2" by simp
    have "datamgr_get_avg lo hi M i = Inr (?avg, M3)"
      unfolding datamgr_get_avg_def get
      by (simp only: bindR.simps prod.case ld if_P[OF ge] sum Let_def avg w1(1) w2(1) upd M3(1))
    moreover have "logs (dm_world M) (alarms lo hi (sensor_id v) hs) (dm_world M3)"
      using logs_append[OF w1(2) w2(2)] True M3(3) by (simp add: alarms_def)
    ultimately show ?thesis using M3(2,4) True by (auto simp: v'_def)
  qed
qed

section \<open>One measurement\<close>

lemma find_sensor_set:
  assumes "find_sensor i (xs @ (a, p, v) # ys) = Some (a, p, v)" "distinct (map s_elem (xs @ (a, p, v) # ys))"
    and "sensor_id v' = sensor_id v"
  shows "find_sensor i (xs @ (a, p, v') # ys) = Some (a, p, v')"
proof -
  have "find_sensor i xs = None"
  proof (rule ccontr)
    assume "find_sensor i xs \<noteq> None"
    then obtain s where s: "find_sensor i xs = Some s" by blast
    then have "s \<in> set xs" by (auto elim: find_sensor_SomeE)
    moreover have "find_sensor i (xs @ (a, p, v) # ys) = Some s"
      using s unfolding find_sensor_def by (induction xs) auto
    ultimately show False using assms(1,2) by force
  qed
  then have "find_sensor i (xs @ n # ys) = find_sensor i (n # ys)" for n
    unfolding find_sensor_def by (induction xs) (auto split: if_splits)
  moreover have "sensor_id v = i" using assms(1) by (auto elim: find_sensor_SomeE)
  ultimately show ?thesis using assms(3) by (simp add: find_sensor_def)
qed

lemma record_measurement_rep:
  fixes t :: sensor_ts_t and x :: sensor_value_t
  assumes rep: "dm_rep M l (xs @ (a, p, v) # ys)" and hist: "node_hist v hs"
    and room: "avail (elems (dm_mem M)) \<noteq> []" and w: "world_ok (dm_world M)"
    and find: "find_sensor i (xs @ (a, p, v) # ys) = Some (a, p, v)"
    and bound: "int (length hs) < INT_MAX"
  defines "v' \<equiv> v\<lparr>timestamp := t, temperatures := (temperatures v)[length hs mod 5 := Some x],
      nr_of_meass := nr_of_meass v + 1, running_avg := avg_of (hs @ [x])\<rparr>"
  shows "\<exists>M'. record_measurement lo hi M (Some p) i t x = Inr M' \<and> dm_rep M' l (xs @ (a, p, v') # ys)
    \<and> logs (dm_world M) (alarms lo hi (sensor_id v) (hs @ [x])) (dm_world M')
    \<and> avail (elems (dm_mem M')) = avail (elems (dm_mem M))"
proof -
  have n: "nr_of_meass v = int (length hs)" using hist by (simp add: node_hist_def)
  have pos: "ring_position (nr_of_meass v) = Some (int (length hs mod 5))"
    using ring_position_mod[of "int (length hs)"] n by (simp add: RUN_AVG_LENGTH_def zmod_int)
  let ?v1 = "v\<lparr>timestamp := t\<rparr>"
  let ?v2 = "?v1\<lparr>temperatures := (temperatures v)[length hs mod 5 := Some x]\<rparr>"
  let ?v3 = "?v2\<lparr>nr_of_meass := nr_of_meass v + 1\<rparr>"
  obtain M1 where M1: "set_sensor (\<lambda>n. n\<lparr>timestamp := t\<rparr>) M (Some p) = Inr M1"
    "dm_rep M1 l (xs @ (a, p, ?v1) # ys)" "dm_world M1 = dm_world M"
    "avail (elems (dm_mem M1)) = avail (elems (dm_mem M))"
    using dm_rep_set[OF rep, of "\<lambda>n. n\<lparr>timestamp := t\<rparr>"] by blast
  obtain M2 where M2: "set_sensor (\<lambda>n. n\<lparr>temperatures := (temperatures n)[length hs mod 5 := Some x]\<rparr>)
      M1 (Some p) = Inr M2" "dm_rep M2 l (xs @ (a, p, ?v2) # ys)" "dm_world M2 = dm_world M"
    "avail (elems (dm_mem M2)) = avail (elems (dm_mem M))"
    using dm_rep_set[OF M1(2), of "\<lambda>n. n\<lparr>temperatures := (temperatures n)[length hs mod 5 := Some x]\<rparr>"]
      M1(3,4) by auto
  obtain M3 where M3: "set_sensor (\<lambda>n. n\<lparr>nr_of_meass := nr_of_meass n + 1\<rparr>) M2 (Some p) = Inr M3"
    "dm_rep M3 l (xs @ (a, p, ?v3) # ys)" "dm_world M3 = dm_world M"
    "avail (elems (dm_mem M3)) = avail (elems (dm_mem M))"
    using dm_rep_set[OF M2(2), of "\<lambda>n. n\<lparr>nr_of_meass := nr_of_meass n + 1\<rparr>"] M2(3,4) by auto
  have hist3: "node_hist ?v3 (hs @ [x])" using node_hist_add[OF hist] by simp
  have find3: "find_sensor i (xs @ (a, p, ?v3) # ys) = Some (a, p, ?v3)"
    using rep by (intro find_sensor_set[OF find]) (simp_all add: dm_rep_def)
  have room3: "avail (elems (dm_mem M3)) \<noteq> []" and w3: "world_ok (dm_world M3)"
    using room w M3(3,4) by simp_all
  obtain M4 v4 where M4: "datamgr_get_avg lo hi M3 i = Inr (avg_of (hs @ [x]), M4)"
    "dm_rep M4 l (xs @ (a, p, v4) # ys)" "v4\<lparr>running_avg := avg_of (hs @ [x])\<rparr> = v'"
    "logs (dm_world M) (alarms lo hi (sensor_id v) (hs @ [x])) (dm_world M4)"
    "avail (elems (dm_mem M4)) = avail (elems (dm_mem M))"
    using get_avg_rep[OF M3(2) hist3 room3 w3 find3, of lo hi] M3(3,4)
    by (auto simp: v'_def split: if_splits)
  obtain M5 where M5: "set_sensor (\<lambda>n. n\<lparr>running_avg := avg_of (hs @ [x])\<rparr>) M4 (Some p) = Inr M5"
    "dm_rep M5 l (xs @ (a, p, v') # ys)" "dm_world M5 = dm_world M4"
    "avail (elems (dm_mem M5)) = avail (elems (dm_mem M4))"
    using dm_rep_set[OF M4(2), of "\<lambda>n. n\<lparr>running_avg := avg_of (hs @ [x])\<rparr>"] M4(3) by auto
  have ld: "load (elems (dm_mem M1)) (Some p) = Inr ?v1" using dm_rep_load[OF M1(2), of "(a, p, ?v1)"] by simp
  have range: "\<not> (int (length hs mod 5) < 0 \<or> RUN_AVG_LENGTH \<le> int (length hs mod 5))"
    by (simp add: RUN_AVG_LENGTH_def)
  have "record_measurement lo hi M (Some p) i t x = Inr M5"
    using M1(1) ld pos range M2(1) bound n M3(1) M4(1) M5(1)
    by (simp add: record_measurement_def del: of_nat_mod)
  then show ?thesis using M5 M4 by auto
qed

text \<open>What a measurement does to its sensor.\<close>

definition measured ::
  "sensor_node_t \<Rightarrow> sensor_value_t list \<Rightarrow> sensor_ts_t \<Rightarrow> sensor_value_t \<Rightarrow> sensor_node_t" where
  "measured v hs t x = v\<lparr>timestamp := t, temperatures := (temperatures v)[length hs mod 5 := Some x],
     nr_of_meass := nr_of_meass v + 1, running_avg := avg_of (hs @ [x])\<rparr>"

lemma measured_sel [simp]:
  "sensor_id (measured v hs t x) = sensor_id v" "room_id (measured v hs t x) = room_id v"
  "timestamp (measured v hs t x) = t" "running_avg (measured v hs t x) = avg_of (hs @ [x])"
  by (simp_all add: measured_def)

lemma measured_ok: "node_ok v hs \<Longrightarrow> node_ok (measured v hs t x) (hs @ [x])"
  using node_hist_add[where v = v and hs = hs and t = t and x = x] by (simp add: node_ok_def measured_def node_hist_def)

lemma dm_inv_room: "dm_inv M hss \<Longrightarrow> avail (elems (dm_mem M)) \<noteq> []"
  by (simp add: dm_inv_def)

lemma get_unknown:
  assumes "dm_inv M hss" "index_of i (dm_ids M) = None"
  shows "get_sensor_node_with_id M i = Inr (NULL, M)"
  using assms by (auto elim!: dm_invE simp: get_sensor_node_rep find_sensor_no_index)

lemma get_known:
  assumes inv: "dm_inv M hss" and idx: "index_of i (dm_ids M) = Some k"
  obtains l xs a p v ys where "dm_rep M l (xs @ (a, p, v) # ys)" "length xs = k"
    "find_sensor i (xs @ (a, p, v) # ys) = Some (a, p, v)" "sensor_id v = i" "dm_sensors M ! k = v"
    "dm_sensors M = map s_val xs @ v # map s_val ys"
    "list_all2 (\<lambda>s hs. node_ok (s_val s) hs) (xs @ (a, p, v) # ys) hss"
    "get_sensor_node_with_id M i = Inr (Some p, M)"
    "load (elems (dm_mem M)) (Some p) = Inr v"
proof -
  obtain l ss where ss: "dm_rep M l ss" "list_all2 (\<lambda>s hs. node_ok (s_val s) hs) ss hss"
    "dm_sensors M = map s_val ss" "dm_ids M = map (sensor_id \<circ> s_val) ss"
    using inv by (rule dm_invE) blast
  have k: "k < length ss" "find_sensor i ss = Some (ss ! k)" "sensor_id (s_val (ss ! k)) = i"
    using find_sensor_index[of i ss k] idx ss(4) by simp_all
  obtain a p v where n: "ss ! k = (a, p, v)" by (cases "ss ! k")
  have split: "ss = take k ss @ (a, p, v) # drop (Suc k) ss" using split_at[OF k(1)] n by simp
  have get: "get_sensor_node_with_id M i = Inr (Some p, M)"
    using get_sensor_node_rep[OF ss(1) dm_inv_room[OF inv], of i] k n by simp
  have ld: "load (elems (dm_mem M)) (Some p) = Inr v"
    using dm_rep_load[OF ss(1), of "(a, p, v)"] k(1) n nth_mem by fastforce
  have v: "dm_sensors M ! k = v" using ss(3) k(1) n by simp
  have vs: "dm_sensors M = map s_val (take k ss) @ v # map s_val (drop (Suc k) ss)"
    using ss(3) arg_cong[OF split, of "map s_val"] by (simp only: map_append list.map snd_conv)
  have sym: "take k ss @ (a, p, v) # drop (Suc k) ss = ss" by (rule split[symmetric])
  show ?thesis
  proof (rule that[of l "take k ss" a p v "drop (Suc k) ss"], unfold sym)
    show "dm_rep M l ss" "list_all2 (\<lambda>s hs. node_ok (s_val s) hs) ss hss" by (rule ss)+
    show "length (take k ss) = k" using k(1) by simp
    show "find_sensor i ss = Some (a, p, v)" "sensor_id v = i" using k n by simp_all
  qed (rule v vs get ld)+
qed

lemma list_update_at: "length xs = k \<Longrightarrow> (xs @ v # ys)[k := w] = xs @ w # ys"
  by (induction xs arbitrary: k) auto

lemma dm_inv_append_hist:
  assumes "list_all2 P (xs @ s # ys) hss" "length xs = k" "P s' (hss ! k @ [x])"
  shows "list_all2 P (xs @ s' # ys) (hss[k := hss ! k @ [x]])"
  using list_all2_update_cong[OF assms(1,3), of k] assms(2) by (simp add: list_update_at)

lemma record_known:
  assumes inv: "dm_inv M hss" and idx: "index_of i (dm_ids M) = Some k"
    and bound: "int (length (hss ! k)) < INT_MAX"
  obtains p M' where "get_sensor_node_with_id M i = Inr (Some p, M)"
    "record_measurement lo hi M (Some p) i t x = Inr M'"
    "dm_inv M' (hss[k := hss ! k @ [x]])"
    "dm_sensors M' = (dm_sensors M)[k := measured (dm_sensors M ! k) (hss ! k) t x]"
    "logs (dm_world M) (alarms lo hi i (hss ! k @ [x])) (dm_world M')"
proof -
  obtain l xs a p v ys where n: "dm_rep M l (xs @ (a, p, v) # ys)" "length xs = k"
    "find_sensor i (xs @ (a, p, v) # ys) = Some (a, p, v)" "sensor_id v = i" "dm_sensors M ! k = v"
    "dm_sensors M = map s_val xs @ v # map s_val ys"
    "list_all2 (\<lambda>s hs. node_ok (s_val s) hs) (xs @ (a, p, v) # ys) hss"
    "get_sensor_node_with_id M i = Inr (Some p, M)"
    using get_known[OF inv idx] by metis
  have ok: "node_ok v (hss ! k)" using list_all2_nthD[OF n(7), of "length xs"] by (simp add: n(2)[symmetric])
  have w: "world_ok (dm_world M)" using inv by (simp add: dm_inv_def)
  obtain M' where M': "record_measurement lo hi M (Some p) i t x = Inr M'"
    "dm_rep M' l (xs @ (a, p, measured v (hss ! k) t x) # ys)"
    "logs (dm_world M) (alarms lo hi i (hss ! k @ [x])) (dm_world M')"
    "avail (elems (dm_mem M')) = avail (elems (dm_mem M))"
    using record_measurement_rep[OF n(1) _ dm_inv_room[OF inv] w n(3) bound, of lo hi t x] ok n(4)
    unfolding measured_def node_ok_def by blast
  have "list_all2 (\<lambda>s hs. node_ok (s_val s) hs) (xs @ (a, p, measured v (hss ! k) t x) # ys)
      (hss[k := hss ! k @ [x]])"
    by (rule dm_inv_append_hist[OF n(7,2)]) (simp add: measured_ok[OF ok])
  then have "dm_inv M' (hss[k := hss ! k @ [x]])"
    using M'(2,4) dm_inv_room[OF inv] logs_ok[OF M'(3) w] unfolding dm_inv_def by auto
  moreover have "dm_sensors M' = (dm_sensors M)[k := measured (dm_sensors M ! k) (hss ! k) t x]"
    unfolding dm_rep_sensors[OF M'(2)] n(5) unfolding n(6) using n(2) by (simp add: list_update_at)
  ultimately show ?thesis using that n(8) M'(1,3) by blast
qed

section \<open>The data manager refines the machine\<close>

lemma ids_measured:
  "k < length vs \<Longrightarrow> map sensor_id (vs[k := measured (vs ! k) hs t x]) = map sensor_id vs"
  "k < length vs \<Longrightarrow> map room_id (vs[k := measured (vs ! k) hs t x]) = map room_id vs"
  by (simp_all add: map_update list_update_same_conv)

lemma index_of_less: "index_of x xs = Some k \<Longrightarrow> k < length xs \<and> xs ! k = x"
  by (induction xs arbitrary: k) (auto split: if_splits)

lemma process_data_refines:
  assumes inv: "dm_inv M hss" and bound: "\<forall>hs \<in> set hss. int (length hs) < INT_MAX"
  shows "\<exists>M'. process_data lo hi M d = Inr M' \<and> dm_inv M' (fst (spec_step lo hi (dm_ids M) d hss))
    \<and> logs (dm_world M) (snd (spec_step lo hi (dm_ids M) d hss)) (dm_world M')
    \<and> dm_ids M' = dm_ids M \<and> dm_rooms M' = dm_rooms M"
proof (cases "id d = 0")
  case True
  then show ?thesis using inv by (simp add: process_data_def spec_step_def)
next
  case nz: False
  show ?thesis
  proof (cases "index_of (id d) (dm_ids M)")
    case None
    obtain w where w: "dm_log (msg_invalid_id (id d)) M = Inr (M\<lparr>dm_world := w\<rparr>)"
      "logs (dm_world M) [msg_invalid_id (id d)] w"
      using inv dm_log_ok[of M "msg_invalid_id (id d)"] by (auto simp: dm_inv_def)
    have "dm_inv (M\<lparr>dm_world := w\<rparr>) hss"
      using inv logs_ok[OF w(2)] by (simp add: dm_inv_def)
    then show ?thesis using nz None w get_unknown[OF inv None]
      by (simp add: process_data_def spec_step_def dm_ids_def dm_rooms_def dm_sensors_def)
  next
    case (Some k)
    then have k: "k < length (dm_sensors M)" using index_of_less by (fastforce simp: dm_ids_def)
    then have "hss ! k \<in> set hss" using dm_inv_length[OF inv] by simp
    then have b: "int (length (hss ! k)) < INT_MAX" using bound by blast
    obtain p M' where M': "get_sensor_node_with_id M (id d) = Inr (Some p, M)"
      "record_measurement lo hi M (Some p) (id d) (ucast (id d)) (val d) = Inr M'"
      "dm_inv M' (hss[k := hss ! k @ [val d]])"
      "dm_sensors M' = (dm_sensors M)[k := measured (dm_sensors M ! k) (hss ! k) (ucast (id d)) (val d)]"
      "logs (dm_world M) (alarms lo hi (id d) (hss ! k @ [val d])) (dm_world M')"
      using record_known[OF inv Some b] by metis
    then show ?thesis using nz Some ids_measured[OF k]
      by (simp add: process_data_def spec_step_def dm_ids_def dm_rooms_def)
  qed
qed

text \<open>A sequence of measurements.\<close>

fun process_all :: "sensor_value_t \<Rightarrow> sensor_value_t \<Rightarrow> sensor_data_t list \<Rightarrow> dm_state \<Rightarrow> dm_state res" where
  "process_all lo hi [] M = Inr M"
| "process_all lo hi (d # ds) M = bindR (process_data lo hi M d) (process_all lo hi ds)"

lemma update_bound:
  "\<forall>hs \<in> set hss. length hs \<le> n \<Longrightarrow> \<forall>hs \<in> set (hss[k := hss ! k @ [x]]). length hs \<le> Suc n"
  by (cases "k < length hss")
    (auto simp: list_update_beyond intro: le_SucI dest!: set_update_subset_insert[THEN subsetD])

lemma spec_step_bound:
  "\<forall>hs \<in> set hss. length hs \<le> n \<Longrightarrow> \<forall>hs \<in> set (fst (spec_step lo hi ids d hss)). length hs \<le> Suc n"
  using update_bound[of hss n] by (auto simp: spec_step_def intro: le_SucI split: option.splits)

lemma process_all_refines:
  assumes "dm_inv M hss" "\<forall>hs \<in> set hss. length hs \<le> n" "int (n + length ds) < INT_MAX"
  shows "\<exists>M'. process_all lo hi ds M = Inr M' \<and> dm_inv M' (fst (spec_run lo hi (dm_ids M) ds hss))
    \<and> logs (dm_world M) (snd (spec_run lo hi (dm_ids M) ds hss)) (dm_world M')
    \<and> dm_ids M' = dm_ids M \<and> dm_rooms M' = dm_rooms M"
  using assms
proof (induction ds arbitrary: M hss n)
  case (Cons d ds)
  have "\<forall>hs \<in> set hss. int (length hs) < INT_MAX" using Cons.prems(2,3) by fastforce
  from process_data_refines[OF Cons.prems(1) this, of lo hi d]
  obtain M1 where M1: "process_data lo hi M d = Inr M1"
    "dm_inv M1 (fst (spec_step lo hi (dm_ids M) d hss))"
    "logs (dm_world M) (snd (spec_step lo hi (dm_ids M) d hss)) (dm_world M1)"
    "dm_ids M1 = dm_ids M" "dm_rooms M1 = dm_rooms M" by blast
  obtain M2 where M2: "process_all lo hi ds M1 = Inr M2"
    "dm_inv M2 (fst (spec_run lo hi (dm_ids M) ds (fst (spec_step lo hi (dm_ids M) d hss))))"
    "logs (dm_world M1) (snd (spec_run lo hi (dm_ids M) ds (fst (spec_step lo hi (dm_ids M) d hss)))) (dm_world M2)"
    "dm_ids M2 = dm_ids M" "dm_rooms M2 = dm_rooms M"
    using Cons.IH[OF M1(2) spec_step_bound[OF Cons.prems(2)]] Cons.prems(3) M1(4,5) by auto
  show ?case using M1(1) M2 logs_append[OF M1(3) M2(3)]
    by (auto simp: Let_def split: prod.splits)
qed simp

end
