(* ===== verification/Datamgr_Start.thy ===== *)
theory Datamgr_Start
  imports Datamgr_Ops
begin

text \<open>
  The beginning and the end of the data manager: reading the room map into the sensor list, the queries,
  and the release of all memory.
\<close>

section \<open>The room map\<close>

text \<open>The entries (room, sensor) of a map file as the code reads them, line by line.\<close>

function map_entries :: "string \<Rightarrow> sensor_id_t \<Rightarrow> sensor_id_t \<Rightarrow> (sensor_id_t \<times> sensor_id_t) list" where
  "map_entries file r s = (case getline file of None \<Rightarrow> []
     | Some (line, file) \<Rightarrow> scan_map_line line r s
         # map_entries file (fst (scan_map_line line r s)) (snd (scan_map_line line r s)))"
  by pat_completeness auto
termination
  by (relation "measure (\<lambda>(file, _). length file)")
    (auto simp: getline_def split: if_splits dest: take_line_smaller)

declare map_entries.simps [simp del]

text \<open>A map file as it is meant to be written.\<close>

definition map_line :: "sensor_id_t \<times> sensor_id_t \<Rightarrow> string" where
  "map_line e = pr_hu (fst e) @ '' '' @ pr_hu (snd e) @ [nl]"

lemma scan_map_line_line: "scan_map_line (map_line e) r s = e"
proof -
  have "scan_hu ([] @ pr_hu (fst e) @ '' '' @ pr_hu (snd e) @ [nl])
      = Some (fst e, '' '' @ pr_hu (snd e) @ [nl])"
    by (rule scan_pr_hu) (simp_all add: starts_with_digit_def digit_val_def)
  moreover have "scan_hu ('' '' @ pr_hu (snd e) @ [nl]) = Some (snd e, [nl])"
    by (rule scan_pr_hu) (simp_all add: starts_with_digit_def is_space_def)
  ultimately show ?thesis by (simp add: scan_map_line_def map_line_def)
qed

lemma map_entries_lines: "map_entries (concat (map map_line es)) r s = es"
proof (induction es arbitrary: r s)
  case Nil
  then show ?case by (simp add: map_entries.simps getline_def)
next
  case (Cons e es)
  have "take_line (map_line e @ concat (map map_line es)) = (map_line e, concat (map map_line es))"
    using take_line_append[of "pr_hu (fst e) @ '' '' @ pr_hu (snd e)" "concat (map map_line es)"]
    by (simp add: map_line_def)
  moreover have "map_line e \<noteq> []" by (simp add: map_line_def)
  ultimately show ?case
    using Cons scan_map_line_line[of e r s] by (subst map_entries.simps) (simp add: getline_def)
qed

definition new_sensor :: "sensor_id_t \<Rightarrow> sensor_id_t \<Rightarrow> sensor_ts_t \<Rightarrow> sensor_node_t" where
  "new_sensor r s t = junk_sensor_node\<lparr>sensor_id := s, room_id := r, running_avg := Finite 0,
     timestamp := t, nr_of_meass := 0\<rparr>"

lemma new_sensor_sel [simp]: "sensor_id (new_sensor r s t) = s" "room_id (new_sensor r s t) = r"
  by (simp_all add: new_sensor_def)

lemma new_sensor_ok: "node_ok (new_sensor r s t) []"
  by (simp add: node_ok_def node_hist_def new_sensor_def junk_sensor_node_def avg_of_def RUN_AVG_LENGTH_def)

lemma add_sensor_rep:
  assumes rep: "dm_rep M l ss" and el: "avail (elems (dm_mem M)) = a # b # as"
    and nd: "avail (nodes (dm_mem M)) = c # cs" and nr: "int (length ss) \<le> nr"
  shows "\<exists>M'. add_sensor r s nr M = Inr M'
    \<and> dm_rep M' l (ss @ [(c, b, new_sensor r s (clock (dm_world M) (ticks (dm_world M))))])
    \<and> dm_world M' = (dm_world M)\<lparr>ticks := Suc (ticks (dm_world M))\<rparr>
    \<and> avail (elems (dm_mem M')) = a # as \<and> avail (nodes (dm_mem M')) = cs"
proof -
  let ?E = "elems (dm_mem M)"
  define v where "v = new_sensor r s (clock (dm_world M) (ticks (dm_world M)))"
  define E where "E = ?E\<lparr>cells := (cells ?E)(a \<mapsto> v), avail := b # as\<rparr>"
  have own: "own_rep (dm_mem M) l dm_callbacks ss" and sl: "sensor_list M = Some l"
    using rep by (simp_all add: dm_rep_own)
  have m: "malloc junk_sensor_node ?E = Some (a, ?E\<lparr>cells := (cells ?E)(a \<mapsto> junk_sensor_node), avail := b # as\<rparr>)"
    using el by (simp add: malloc_def)
  have a1: "assign (\<lambda>n. n\<lparr>sensor_id := s, room_id := r, running_avg := Finite 0,
      timestamp := clock (dm_world M) (ticks (dm_world M)), nr_of_meass := 0\<rparr>)
      (?E\<lparr>cells := (cells ?E)(a \<mapsto> junk_sensor_node), avail := b # as\<rparr>) (Some a) = Inr E"
    by (simp add: mem_simps E_def v_def new_sensor_def)
  obtain H' E' where H': "dpl_insert_at_index ((dm_mem M)\<lparr>elems := E\<rparr>) (Some l) (Some a) nr True = Inr (Some l, H')"
    "free (elems H') (Some a) = Inr E'" "own_rep (H'\<lparr>elems := E'\<rparr>) l dm_callbacks (ss @ [(c, b, v)])"
    "avail E' = a # as" "avail (nodes H') = cs"
    using dm_own.own_append[OF own el nd nr E_def] by blast
  have "add_sensor r s nr M = Inr (M\<lparr>sensor_list := Some l, dm_mem := H'\<lparr>elems := E'\<rparr>,
      dm_world := (dm_world M)\<lparr>ticks := Suc (ticks (dm_world M))\<rparr>\<rparr>)"
    using m a1 H'(1,2) sl by (simp add: add_sensor_def time_now_def)
  then show ?thesis using H'(3-5) by (auto simp: dm_rep_own v_def)
qed

lemma map_loop_rep:
  assumes "dm_rep M l ss" "length (map_entries fl r s) < length (avail (elems (dm_mem M)))"
    and "length (map_entries fl r s) \<le> length (avail (nodes (dm_mem M)))"
  shows "\<exists>M' rs k. map_loop fl (int (length ss)) r s M = Inr M' \<and> dm_rep M' l (ss @ rs)
    \<and> map (\<lambda>x. (room_id (s_val x), sensor_id (s_val x))) rs = map_entries fl r s
    \<and> (\<forall>x \<in> set rs. node_ok (s_val x) []) \<and> avail (elems (dm_mem M')) \<noteq> []
    \<and> dm_world M' = (dm_world M)\<lparr>ticks := k\<rparr>"
  using assms
proof (induction fl r s arbitrary: M ss rule: map_entries.induct)
  case (1 fl r s)
  show ?case
  proof (cases "getline fl")
    case None
    then show ?thesis using "1.prems"
      by (intro exI[of _ M] exI[of _ "[]"] exI[of _ "ticks (dm_world M)"])
        (auto simp: map_loop.simps[of fl] map_entries.simps[of fl])
  next
    case (Some lf)
    obtain line rest where lf: "lf = (line, rest)" by (cases lf)
    obtain r' s' where rs: "scan_map_line line r s = (r', s')" by (cases "scan_map_line line r s")
    have ent: "map_entries fl r s = (r', s') # map_entries rest r' s'"
      using Some lf rs by (simp add: map_entries.simps[of fl])
    obtain a b as where el: "avail (elems (dm_mem M)) = a # b # as"
      using "1.prems"(2) ent by (cases "avail (elems (dm_mem M))"; cases "tl (avail (elems (dm_mem M)))") auto
    obtain c cs where nd: "avail (nodes (dm_mem M)) = c # cs"
      using "1.prems"(3) ent by (cases "avail (nodes (dm_mem M))") auto
    let ?v = "new_sensor r' s' (clock (dm_world M) (ticks (dm_world M)))"
    obtain M1 where M1: "add_sensor r' s' (int (length ss) + 1) M = Inr M1"
      "dm_rep M1 l (ss @ [(c, b, ?v)])" "dm_world M1 = (dm_world M)\<lparr>ticks := Suc (ticks (dm_world M))\<rparr>"
      "avail (elems (dm_mem M1)) = a # as" "avail (nodes (dm_mem M1)) = cs"
      using add_sensor_rep[OF "1.prems"(1) el nd, of "int (length ss) + 1" r' s'] by auto
    have "length (map_entries rest r' s') < length (avail (elems (dm_mem M1)))"
      "length (map_entries rest r' s') \<le> length (avail (nodes (dm_mem M1)))"
      using "1.prems"(2,3) ent el nd M1(4,5) by simp_all
    with "1.IH"[OF Some lf[symmetric], of M1 "ss @ [(c, b, ?v)]"] M1(2) rs
    obtain M' xs k where M': "map_loop rest (int (length (ss @ [(c, b, ?v)]))) r' s' M1 = Inr M'"
      "dm_rep M' l ((ss @ [(c, b, ?v)]) @ xs)"
      "map (\<lambda>x. (room_id (s_val x), sensor_id (s_val x))) xs = map_entries rest r' s'"
      "\<forall>x \<in> set xs. node_ok (s_val x) []" "avail (elems (dm_mem M')) \<noteq> []"
      "dm_world M' = (dm_world M1)\<lparr>ticks := k\<rparr>" by auto
    have "map_loop fl (int (length ss)) r s M = Inr M'"
      using Some lf rs M1(1) M'(1) by (simp add: map_loop.simps[of fl] add.commute)
    moreover have "dm_rep M' l (ss @ (c, b, ?v) # xs)" using M'(2) by simp
    ultimately show ?thesis
      using M'(3,4,5,6) M1(3) ent new_sensor_ok
      by (intro exI[of _ M'] exI[of _ "(c, b, ?v) # xs"] exI[of _ k]) auto
  qed
qed

section \<open>Start of the data manager\<close>

text \<open>A memory with nothing allocated in it.\<close>

definition dm_fresh :: "nat \<Rightarrow> nat \<Rightarrow> world \<Rightarrow> dm_state" where
  "dm_fresh nn ne w = \<lparr>sensor_list = NULL,
     dm_mem = \<lparr>lists = empty_store 1, nodes = empty_store nn, elems = empty_store ne\<rparr>, dm_world = w\<rparr>"

lemma read_map_rep:
  assumes "world_ok w" "length (map_entries fl (-1) (-1)) < ne" "length (map_entries fl (-1) (-1)) \<le> nn"
  shows "\<exists>M k. datamgr_read_map (Some fl) (dm_fresh nn ne w) = Inr M
    \<and> dm_inv M (replicate (length (map_entries fl (-1) (-1))) [])
    \<and> zip (dm_rooms M) (dm_ids M) = map_entries fl (-1) (-1)
    \<and> dm_ids M = map snd (map_entries fl (-1) (-1)) \<and> dm_rooms M = map fst (map_entries fl (-1) (-1))
    \<and> dm_world M = w\<lparr>ticks := k\<rparr>"
proof -
  let ?H = "dm_mem (dm_fresh nn ne w)"
  obtain H where H: "dpl_create element_copy_datamgr element_free_datamgr element_compare_datamgr ?H
      = Inr (Some 0, H)"
    "dpl_rep H 0 dm_callbacks []" "nodes H = nodes ?H" "elems H = elems ?H"
    by (rule dpl_create_rep[of ?H 0 "[]" element_copy_datamgr element_free_datamgr
          element_compare_datamgr]) (auto simp: dm_fresh_def dm_callbacks_def)
  let ?M = "(dm_fresh nn ne w)\<lparr>sensor_list := Some 0, dm_mem := H\<rparr>"
  have rep: "dm_rep ?M 0 []" using H by (simp add: dm_rep_def dm_fresh_def)
  have room: "length (avail (elems (dm_mem ?M))) = ne" "length (avail (nodes (dm_mem ?M))) = nn"
    using H by (simp_all add: dm_fresh_def)
  obtain M ss k where M: "map_loop fl 0 (-1) (-1) ?M = Inr M" "dm_rep M 0 ss"
    "map (\<lambda>x. (room_id (s_val x), sensor_id (s_val x))) ss = map_entries fl (-1) (-1)"
    "\<forall>x \<in> set ss. node_ok (s_val x) []" "avail (elems (dm_mem M)) \<noteq> []"
    "dm_world M = (dm_world ?M)\<lparr>ticks := k\<rparr>"
    using map_loop_rep[OF rep, of fl "-1" "-1"] assms(2,3) room by auto
  have len: "length ss = length (map_entries fl (-1) (-1))" using arg_cong[OF M(3), of length] by simp
  have "list_all2 (\<lambda>x hs. node_ok (s_val x) hs) ss (replicate (length ss) [])"
    using M(4) by (auto simp: list_all2_conv_all_nth)
  then have inv: "dm_inv M (replicate (length (map_entries fl (-1) (-1))) [])"
    using M(2,5,6) assms(1) len by (auto simp: dm_inv_def dm_fresh_def world_ok_def)
  have ids: "dm_ids M = map snd (map_entries fl (-1) (-1))" "dm_rooms M = map fst (map_entries fl (-1) (-1))"
    using M(3) by (auto simp: dm_ids_def dm_rooms_def dm_rep_sensors[OF M(2)] simp flip: M(3))
  have "datamgr_read_map (Some fl) (dm_fresh nn ne w) = Inr M"
    using H(1) M(1) by (simp add: datamgr_read_map_def check_exit_def)
  moreover have "zip (dm_rooms M) (dm_ids M) = map_entries fl (-1) (-1)"
    unfolding ids by (rule zip_map_fst_snd)
  moreover have "dm_world M = w\<lparr>ticks := k\<rparr>" using M(6) by (simp add: dm_fresh_def)
  ultimately show ?thesis using inv ids by blast
qed

section \<open>Queries\<close>

lemma get_known_field:
  assumes "dm_inv M hss" "index_of i (dm_ids M) = Some k"
  shows "datamgr_get_room_id M i = Inr (room_id (dm_sensors M ! k), M)"
    and "datamgr_get_last_modified M i = Inr (timestamp (dm_sensors M ! k), M)"
  by (rule get_known[OF assms],
      simp add: datamgr_get_room_id_def datamgr_get_last_modified_def)+

lemma get_unknown_field:
  assumes "dm_inv M hss" "index_of i (dm_ids M) = None"
  shows "datamgr_get_room_id M i = Inl Null_Deref" "datamgr_get_last_modified M i = Inl Null_Deref"
    "datamgr_get_avg lo hi M i = Inl Null_Deref"
  using get_unknown[OF assms]
  by (simp_all add: datamgr_get_room_id_def datamgr_get_last_modified_def datamgr_get_avg_def mem_simps)

lemma get_total_rep:
  assumes "dm_inv M hss"
  shows "datamgr_get_total_sensors M = Inr (int (length hss))"
proof -
  obtain l ss where ss: "dm_rep M l ss" "list_all2 (\<lambda>s hs. node_ok (s_val s) hs) ss hss"
    using assms by (rule dm_invE)
  have "dpl_rep (dm_mem M) l dm_callbacks (chain_of ss)" "sensor_list M = Some l"
    using ss(1) by (simp_all add: dm_rep_def)
  then show ?thesis
    using dpl_size_rep[of "dm_mem M" l dm_callbacks "chain_of ss"] list_all2_lengthD[OF ss(2)]
    by (simp add: datamgr_get_total_sensors_def)
qed

section \<open>Release\<close>

lemma datamgr_free_rep:
  assumes "dm_inv M hss"
  shows "\<exists>M'. datamgr_free M = Inr M' \<and> sensor_list M' = NULL
    \<and> dom (cells (elems (dm_mem M'))) = {} \<and> dom (cells (nodes (dm_mem M'))) = {}
    \<and> dom (cells (lists (dm_mem M'))) = dom (cells (lists (dm_mem M))) - {the (sensor_list M)}
    \<and> datamgr_get_total_sensors M' = Inr 0 \<and> dm_world M' = dm_world M"
proof -
  obtain l ss where ss: "dm_rep M l ss" using assms by (rule dm_invE)
  have own: "own_rep (dm_mem M) l dm_callbacks ss" and sl: "sensor_list M = Some l"
    using ss by (simp_all add: dm_rep_own)
  obtain H where H: "dpl_free (dm_mem M) (Some (Some l)) True = Inr (NULL, H)" "dom (cells (elems H)) = {}"
    "dom (cells (nodes H)) = {}" "dom (cells (lists H)) = dom (cells (lists (dm_mem M))) - {l}"
    using dm_own.own_free[OF own] by (elim exE conjE)
  let ?M = "M\<lparr>sensor_list := NULL, dm_mem := H\<rparr>"
  have "datamgr_free M = Inr ?M"
    using H(1) sl by (simp add: datamgr_free_def datamgr_get_total_sensors_def Let_def mem_simps)
  then show ?thesis using H(2-4) sl
    by (intro exI[of _ ?M]) (simp add: datamgr_get_total_sensors_def)
qed

end
