(* ===== verification/Datamgr_Avg.thy ===== *)
theory Datamgr_Avg
  imports Datamgr_Start
begin

text \<open>
  What the average computed in floating point is worth: exact for whole degrees, up to the final
  rounding of the division, and inside any range that holds the measurements.
\<close>

lemma d_of_int_0: "Finite 0 = d_of_int 0"
  by (simp add: d_of_int_exact)

lemma foldl_add_ints:
  "\<bar>a\<bar> + (\<Sum>z\<leftarrow>zs. \<bar>z\<bar>) < 2 ^ 52 \<Longrightarrow> foldl d_add (d_of_int a) (map d_of_int zs) = d_of_int (a + sum_list zs)"
proof (induction zs arbitrary: a)
  case (Cons z zs)
  have nn: "0 \<le> (\<Sum>z\<leftarrow>zs. \<bar>z\<bar>)" by (rule sum_list_nonneg) auto
  then have "d_add (d_of_int a) (d_of_int z) = d_of_int (a + z)"
    using Cons.prems by (intro d_add_of_int) auto
  moreover have "\<bar>a + z\<bar> + (\<Sum>z\<leftarrow>zs. \<bar>z\<bar>) < 2 ^ 52" using Cons.prems by simp
  ultimately show ?case using Cons.IH[of "a + z"] by (simp add: add.assoc)
qed simp

lemma mset_rotate: "mset (rotate n xs) = mset xs"
proof -
  have "mset (drop k xs @ take k xs) = mset (take k xs @ drop k xs)" for k
    by (simp only: mset_append add.commute)
  then show ?thesis by (simp add: rotate_drop_take del: mset_append)
qed

lemma sum_list_rotate: "sum_list (map f (rotate n xs)) = sum_list (map f (xs :: int list) :: int list)"
  by (metis mset_map mset_rotate sum_mset_sum_list)

text \<open>Only the last five measurements of the history matter.\<close>

lemma avg_of_ints:
  assumes "5 \<le> length hs" "drop (length hs - 5) hs = map d_of_int zs" "\<forall>z \<in> set zs. \<bar>z\<bar> \<le> 2 ^ 48"
  shows "avg_of hs = d_div_int (d_of_int (sum_list zs)) 5"
proof -
  let ?r = "rotate (5 - length hs mod 5) zs"
  have len: "length zs = 5" using arg_cong[OF assms(2), of length] assms(1) by simp
  have "(\<Sum>z\<leftarrow>zs. \<bar>z\<bar>) \<le> (\<Sum>z\<leftarrow>zs. 2 ^ 48)"
    using assms(3) by (intro sum_list_mono) auto
  also have "\<dots> = 5 * 2 ^ 48" using len by (simp add: sum_list_triv)
  finally have "(\<Sum>z\<leftarrow>?r. \<bar>z\<bar>) < 2 ^ 52" unfolding sum_list_rotate by simp
  then have "foldl d_add (d_of_int 0) (map d_of_int ?r) = d_of_int (sum_list ?r)"
    using foldl_add_ints[of 0 ?r] by simp
  moreover have "sum_list ?r = sum_list zs" using sum_list_rotate[of "\<lambda>z. z"] by simp
  ultimately show ?thesis
    using assms(1) by (simp add: avg_of_def window_def assms(2) rotate_map d_of_int_0)
qed

lemma avg_of_ints_range:
  assumes "5 \<le> length hs" "drop (length hs - 5) hs = map d_of_int zs" "\<forall>z \<in> set zs. a \<le> z \<and> z \<le> b"
    and "\<bar>a\<bar> \<le> 2 ^ 48" "\<bar>b\<bar> \<le> 2 ^ 48"
  shows "\<not> d_less (avg_of hs) (d_of_int a) \<and> \<not> d_less (d_of_int b) (avg_of hs)"
proof -
  have len: "length zs = 5" using arg_cong[OF assms(2), of length] assms(1) by simp
  have "sum_list zs \<le> (\<Sum>z\<leftarrow>zs. b)" using assms(3) sum_list_mono[of zs "\<lambda>z. z" "\<lambda>z. b"] by auto
  then have hi: "sum_list zs \<le> b * 5" using len by (simp add: sum_list_triv)
  have "(\<Sum>z\<leftarrow>zs. a) \<le> sum_list zs" using assms(3) sum_list_mono[of zs "\<lambda>z. a" "\<lambda>z. z"] by auto
  then have lo: "a * 5 \<le> sum_list zs" using len by (simp add: sum_list_triv)
  have "\<forall>z \<in> set zs. \<bar>z\<bar> \<le> 2 ^ 48" using assms(3-5) by force
  then have avg: "avg_of hs = round_frac (sum_list zs * one_units) 5"
    using avg_of_ints[OF assms(1,2)] lo hi assms(4,5) by (simp add: d_of_int_exact)
  have pos: "0 < one_units" by (simp add: one_units_def)
  have "a * one_units * 5 \<le> sum_list zs * one_units"
    using mult_right_mono[OF lo, of one_units] pos by (simp add: mult_ac)
  moreover have "sum_list zs * one_units \<le> b * one_units * 5"
    using mult_right_mono[OF hi, of one_units] pos by (simp add: mult_ac)
  moreover have "representable (a * one_units)" "representable (b * one_units)"
    using assms(4,5) by (simp_all add: representable_units)
  ultimately obtain m where "round_frac (sum_list zs * one_units) 5 = Finite m"
    "a * one_units \<le> m" "m \<le> b * one_units"
    using round_frac_between[of 5 "a * one_units" "sum_list zs * one_units" "b * one_units"] by auto
  then show ?thesis using avg assms(4,5) by (simp add: d_of_int_exact)
qed

end
