(* ===== verification/Datamgr_Props.thy ===== *)
theory Datamgr_Props
  imports Datamgr_Avg
begin

text \<open>
  The properties of the data manager, with concrete runs on a map of two sensors.
\<close>

section \<open>Lemmas for the properties\<close>

lemma get_avg_inv:
  assumes inv: "dm_inv M hss" and idx: "index_of i (dm_ids M) = Some k"
  shows "\<exists>M'. datamgr_get_avg lo hi M i = Inr (avg_of (hss ! k), M') \<and> dm_inv M' hss
    \<and> dm_sensors M' = dm_sensors M \<and> logs (dm_world M) (alarms lo hi i (hss ! k)) (dm_world M')"
proof -
  obtain l xs a p v ys where n: "dm_rep M l (xs @ (a, p, v) # ys)" "length xs = k"
    "find_sensor i (xs @ (a, p, v) # ys) = Some (a, p, v)" "sensor_id v = i"
    "list_all2 (\<lambda>s hs. node_ok (s_val s) hs) (xs @ (a, p, v) # ys) hss"
    using get_known[OF inv idx] by metis
  have ok: "node_ok v (hss ! k)" using list_all2_nthD[OF n(5), of "length xs"] by (simp add: n(2)[symmetric])
  have w: "world_ok (dm_world M)" using inv by (simp add: dm_inv_def)
  have same: "(if 5 \<le> length (hss ! k) then v\<lparr>running_avg := avg_of (hss ! k)\<rparr> else v) = v"
    using ok by (simp add: node_ok_def)
  have hist: "node_hist v (hss ! k)" using ok by (simp add: node_ok_def)
  from get_avg_rep[OF n(1) hist dm_inv_room[OF inv] w n(3), of lo hi]
  obtain M' where M': "datamgr_get_avg lo hi M i = Inr (avg_of (hss ! k), M')"
    "dm_rep M' l (xs @ (a, p, v) # ys)" "logs (dm_world M) (alarms lo hi (sensor_id v) (hss ! k)) (dm_world M')"
    "avail (elems (dm_mem M')) = avail (elems (dm_mem M))"
    unfolding same by blast
  have "dm_inv M' hss"
    using M'(2,4) n(5) dm_inv_room[OF inv] logs_ok[OF M'(3) w] by (auto simp: dm_inv_def)
  moreover have "dm_sensors M' = dm_sensors M"
    unfolding dm_rep_sensors[OF M'(2)] dm_rep_sensors[OF n(1)] ..
  ultimately show ?thesis using M'(1,3) n(4) by auto
qed

text \<open>The histories after a run: each sensor has its own measurements, in order.\<close>

lemma spec_run_hist:
  "k < length hss \<Longrightarrow> fst (spec_run lo hi ids ds hss) ! k
   = hss ! k @ map val (filter (\<lambda>d. id d \<noteq> 0 \<and> index_of (id d) ids = Some k) ds)"
proof (induction ds arbitrary: hss)
  case (Cons d ds)
  have "fst (spec_step lo hi ids d hss) ! k
      = hss ! k @ (if id d \<noteq> 0 \<and> index_of (id d) ids = Some k then [val d] else [])"
    using Cons.prems by (auto simp: spec_step_def nth_list_update split: option.splits)
  then show ?case
    using Cons.IH[of "fst (spec_step lo hi ids d hss)"] Cons.prems
    by (auto simp: Let_def split: prod.splits)
qed simp

lemma spec_run_length [simp]: "length (fst (spec_run lo hi ids ds hss)) = length hss"
proof (induction ds arbitrary: hss)
  case (Cons d ds)
  then show ?case using spec_step_length[of lo hi ids d hss]
    by (simp add: Let_def case_prod_beta del: spec_step_length)
qed simp

lemma dm_inv_nth: "dm_inv M hss \<Longrightarrow> k < length hss \<Longrightarrow> node_ok (dm_sensors M ! k) (hss ! k)"
  by (auto elim!: dm_invE simp: list_all2_conv_all_nth)

section \<open>A concrete data manager\<close>

definition demo_world :: world where
  "demo_world = \<lparr>fifo = [], fifo_answers = (\<lambda>_. \<lparr>mkfifo_call = Fifo_Exists, fopen_ok = True,
     fputs_ok = True, fclose_ok = True\<rparr>), nwrites = 0, clock = (\<lambda>_. 1535998033), ticks = 0,
     heap = (\<lambda>_. True), nallocs = 0\<rparr>"

lemma demo_world_ok: "world_ok demo_world"
  by (simp add: world_ok_def demo_world_def calls_ok_def)

definition demo_map :: string where
  "demo_map = concat (map map_line [(1, 15), (2, 21)])"

definition demo_dm :: dm_state where
  "demo_dm = (case datamgr_read_map (Some demo_map) (dm_fresh 2 3 demo_world) of Inr M \<Rightarrow> M)"

lemma demo_dm: "dm_inv demo_dm [[], []]" "dm_ids demo_dm = [15, 21]" "dm_rooms demo_dm = [1, 2]"
proof -
  have e: "map_entries demo_map (-1) (-1) = [(1, 15), (2, 21)]"
    unfolding demo_map_def by (rule map_entries_lines)
  obtain M where M: "datamgr_read_map (Some demo_map) (dm_fresh 2 3 demo_world) = Inr M"
    "dm_inv M [[], []]" "dm_ids M = [15, 21]" "dm_rooms M = [1, 2]"
    using read_map_rep[OF demo_world_ok, of demo_map 3 2] unfolding e by (auto simp: numeral_2_eq_2)
  show "dm_inv demo_dm [[], []]" "dm_ids demo_dm = [15, 21]" "dm_rooms demo_dm = [1, 2]"
    using M by (simp_all add: demo_dm_def)
qed

definition demo_meas :: "int \<Rightarrow> sensor_data_t" where
  "demo_meas z = \<lparr>id = 15, val = d_of_int z, ts = 1535998033\<rparr>"

text \<open>After five measurements of 20 degrees by sensor 15.\<close>

definition demo_five :: dm_state where
  "demo_five = (case process_all (d_of_int 18) (d_of_int 25) (replicate 5 (demo_meas 20)) demo_dm of
     Inr M \<Rightarrow> M)"

lemma two_elements: "length xs = 2 \<Longrightarrow> xs = [xs ! 0, xs ! 1]"
  by (auto simp: numeral_2_eq_2 length_Suc_conv)

lemma demo_five: "dm_inv demo_five [map d_of_int (replicate 5 20), []]" "dm_ids demo_five = [15, 21]"
proof -
  let ?run = "fst (spec_run (d_of_int 18) (d_of_int 25) (dm_ids demo_dm) (replicate 5 (demo_meas 20)) [[], []])"
  obtain M where M: "process_all (d_of_int 18) (d_of_int 25) (replicate 5 (demo_meas 20)) demo_dm = Inr M"
    "dm_inv M ?run" "dm_ids M = dm_ids demo_dm"
    using process_all_refines[OF demo_dm(1), of 0 "replicate 5 (demo_meas 20)" "d_of_int 18" "d_of_int 25"]
    by (auto simp: INT_MAX_def)
  have "?run ! 0 = map d_of_int (replicate 5 20)" "?run ! 1 = []"
    by (subst spec_run_hist, simp, simp add: demo_meas_def demo_dm(2))+
  moreover have "length ?run = 2" unfolding spec_run_length by simp
  ultimately have "?run = [map d_of_int (replicate 5 20), []]" by (metis two_elements)
  then show "dm_inv demo_five [map d_of_int (replicate 5 20), []]" "dm_ids demo_five = [15, 21]"
    using M demo_dm(2) by (simp_all add: demo_five_def)
qed

section \<open>Properties\<close>

text \<open>
  C14: Whatever measurements arrive, in whatever order, the data manager processes them without a fault:
  no uninitialised slot is read and none outside the array is written. Afterwards every sensor of the map
  has counted exactly its own measurements, its ring holds the last five of them, its running average is
  that of these five, and ids and rooms are unchanged.
\<close>

theorem datamgr_histories:
  assumes "dm_inv M hss" "\<forall>hs \<in> set hss. length hs \<le> n" "int (n + length ds) < INT_MAX"
  shows "\<exists>M'. process_all lo hi ds M = Inr M' \<and> dm_ids M' = dm_ids M \<and> dm_rooms M' = dm_rooms M
    \<and> (\<forall>k < length hss. \<forall>hs. hs = hss ! k @ map val (filter (\<lambda>d. id d \<noteq> 0
          \<and> index_of (id d) (dm_ids M) = Some k) ds) \<longrightarrow>
        nr_of_meass (dm_sensors M' ! k) = int (length hs)
        \<and> running_avg (dm_sensors M' ! k) = avg_of hs
        \<and> (\<forall>j < length hs. length hs \<le> j + 5 \<longrightarrow>
            temperatures (dm_sensors M' ! k) ! (j mod 5) = Some (hs ! j)))"
proof -
  obtain M' where M': "process_all lo hi ds M = Inr M'"
    "dm_inv M' (fst (spec_run lo hi (dm_ids M) ds hss))" "dm_ids M' = dm_ids M" "dm_rooms M' = dm_rooms M"
    using process_all_refines[OF assms, of lo hi] by blast
  have "node_ok (dm_sensors M' ! k) (hss ! k @ map val (filter (\<lambda>d. id d \<noteq> 0
      \<and> index_of (id d) (dm_ids M) = Some k) ds))" if "k < length hss" for k
    using dm_inv_nth[OF M'(2), of k] that spec_run_hist[OF that, of lo hi "dm_ids M" ds] by simp
  then show ?thesis using M'(1,3,4) by (auto simp: node_ok_def node_hist_def)
qed

theorem datamgr_histories_witness:
  "\<exists>M'. process_all (d_of_int 18) (d_of_int 25) [demo_meas 20, demo_meas 21] demo_dm = Inr M'
    \<and> dm_ids M' = [15, 21]"
  using datamgr_histories[OF demo_dm(1), of 0 "[demo_meas 20, demo_meas 21]" "d_of_int 18" "d_of_int 25"]
    demo_dm(2) by (auto simp: INT_MAX_def)

text \<open>
  C16: When the last five temperatures of a sensor are whole degrees of at most 2^48 in magnitude, whatever came before
  them, the average that \<open>datamgr_get_avg\<close> returns is their sum divided by five, rounded once, whatever their place
  in the ring; before the fifth measurement it is 0 and nothing is logged.
\<close>

theorem datamgr_average:
  assumes "dm_inv M hss" "index_of i (dm_ids M) = Some k"
    and "5 \<le> length (hss ! k) \<Longrightarrow> drop (length (hss ! k) - 5) (hss ! k) = map d_of_int zs \<and> (\<forall>z \<in> set zs. \<bar>z\<bar> \<le> 2 ^ 48)"
  shows "\<exists>M'. datamgr_get_avg lo hi M i =
      Inr (if length (hss ! k) < 5 then d_of_int 0 else d_div_int (d_of_int (sum_list zs)) 5, M')
    \<and> (length (hss ! k) < 5 \<longrightarrow> fifo (dm_world M') = fifo (dm_world M))"
proof -
  obtain M' where M': "datamgr_get_avg lo hi M i = Inr (avg_of (hss ! k), M')"
    "logs (dm_world M) (alarms lo hi i (hss ! k)) (dm_world M')"
    using get_avg_inv[OF assms(1,2)] by blast
  show ?thesis
  proof (cases "length (hss ! k) < 5")
    case True
    then show ?thesis using M' d_of_int_0 by (auto simp: avg_of_def alarms_def logs_def)
  next
    case False
    then show ?thesis using M' avg_of_ints[of "hss ! k" zs] assms(3) by simp
  qed
qed

theorem datamgr_average_witness:
  "\<exists>M'. datamgr_get_avg (d_of_int 18) (d_of_int 25) demo_five 15 = Inr (d_of_int 20, M')"
  using datamgr_average[OF demo_five(1), of 15 0 "replicate 5 20" "d_of_int 18" "d_of_int 25"]
    d_div_of_int[of 5 20] demo_five(2) by (auto simp: numeral_eq_Suc sum_list_replicate)

text \<open>
  C15: Processing a measurement of a known sensor writes to the FIFO exactly what the average of its last
  five calls for: nothing before the fifth measurement, "too cold" when the average is below the lower
  limit, "too hot" when it is above the upper one, and nothing in between.
\<close>

theorem datamgr_alarm:
  assumes "dm_inv M hss" "index_of (id d) (dm_ids M) = Some k" "id d \<noteq> 0"
    and "int (length (hss ! k)) < INT_MAX" and hs_def: "hs = hss ! k @ [val d]"
    and t_def: "t = clock (dm_world M) (ticks (dm_world M))" and "\<not> d_less hi lo"
  shows "\<exists>M'. process_data lo hi M d = Inr M' \<and> fifo (dm_world M') = fifo (dm_world M) @
    (if length hs < 5 then []
     else if d_less (avg_of hs) lo then msg_too_cold (id d) (avg_of hs) t
     else if d_less hi (avg_of hs) then msg_too_hot (id d) (avg_of hs) t else [])"
proof -
  obtain p M' where M': "get_sensor_node_with_id M (id d) = Inr (Some p, M)"
    "record_measurement lo hi M (Some p) (id d) (ucast (id d)) (val d) = Inr M'"
    "logs (dm_world M) (alarms lo hi (id d) hs) (dm_world M')"
    using record_known[OF assms(1,2,4)] unfolding hs_def by metis
  have "\<not> (d_less (avg_of hs) lo \<and> d_less hi (avg_of hs))"
    using assms(7) d_less_trans[of hi "avg_of hs" lo] by blast
  then have "fifo (dm_world M') = fifo (dm_world M) @
    (if length hs < 5 then []
     else if d_less (avg_of hs) lo then msg_too_cold (id d) (avg_of hs) t
     else if d_less hi (avg_of hs) then msg_too_hot (id d) (avg_of hs) t else [])"
    using M'(3) t_def by (auto simp: logs_def alarms_def)
  then show ?thesis using M'(1,2) assms(3) by (simp add: process_data_def)
qed

theorem datamgr_alarm_witness:
  "\<exists>M'. process_data (d_of_int 18) (d_of_int 25) demo_dm (demo_meas 90) = Inr M'
    \<and> fifo (dm_world M') = fifo (dm_world demo_dm)"
  using datamgr_alarm[OF demo_dm(1), of "demo_meas 90" 0 "[d_of_int 90]" _ "d_of_int 25" "d_of_int 18"]
    demo_dm(2) by (auto simp: demo_meas_def INT_MAX_def d_less_of_int)

text \<open>
  C30: No false alarm. Let the limits be whole degrees of at most 2^48 in magnitude. When a measurement of a known sensor
  arrives (its id not 0, its counter below \<open>INT_MAX\<close>) and the last five temperatures of its sensor, with this one, are whole degrees between the limits, whatever the
  earlier ones were, then nothing is logged, in spite of the rounding.
\<close>

theorem datamgr_no_false_alarm:
  assumes "dm_inv M hss" "index_of (id d) (dm_ids M) = Some k" "id d \<noteq> 0"
    and "int (length (hss ! k)) < INT_MAX" and hs_def: "hs = hss ! k @ [val d]"
    and "5 \<le> length hs \<Longrightarrow> drop (length hs - 5) hs = map d_of_int zs \<and> (\<forall>z \<in> set zs. a \<le> z \<and> z \<le> b)"
    and "\<bar>a\<bar> \<le> 2 ^ 48" "\<bar>b\<bar> \<le> 2 ^ 48"
  shows "\<exists>M'. process_data (d_of_int a) (d_of_int b) M d = Inr M'
    \<and> fifo (dm_world M') = fifo (dm_world M)"
proof -
  obtain p M' where M': "get_sensor_node_with_id M (id d) = Inr (Some p, M)"
    "record_measurement (d_of_int a) (d_of_int b) M (Some p) (id d) (ucast (id d)) (val d) = Inr M'"
    "logs (dm_world M) (alarms (d_of_int a) (d_of_int b) (id d) hs) (dm_world M')"
    using record_known[OF assms(1,2,4)] unfolding hs_def by metis
  have "alarms (d_of_int a) (d_of_int b) (id d) hs = []"
    using avg_of_ints_range[of hs zs a b] assms(6,7,8) by (auto simp: alarms_def)
  then show ?thesis using M' assms(3) by (auto simp: process_data_def logs_def)
qed

theorem datamgr_no_false_alarm_witness:
  "\<exists>M'. process_data (d_of_int 18) (d_of_int 25) demo_five (demo_meas 25) = Inr M'
    \<and> fifo (dm_world M') = fifo (dm_world demo_five)"
  using datamgr_no_false_alarm[OF demo_five(1), of "demo_meas 25" 0 _ "replicate 4 20 @ [25]" 18 25]
    demo_five(2) by (auto simp: demo_meas_def INT_MAX_def)

text \<open>
  C37: A measurement of a sensor that is not in the map changes no sensor and logs the invalid id; one
  with id 0 is dropped without a log event, also when the map has a sensor 0.
\<close>

theorem datamgr_unknown_id:
  assumes "dm_inv M hss" "index_of (id d) (dm_ids M) = None \<or> id d = 0"
  shows "\<exists>M'. process_data lo hi M d = Inr M' \<and> dm_inv M' hss \<and> dm_sensors M' = dm_sensors M
    \<and> fifo (dm_world M') = fifo (dm_world M) @
        (if id d = 0 then [] else msg_invalid_id (id d) (clock (dm_world M) (ticks (dm_world M))))"
proof (cases "id d = 0")
  case True
  then show ?thesis using assms(1) by (simp add: process_data_def)
next
  case nz: False
  then have none: "index_of (id d) (dm_ids M) = None" using assms(2) by simp
  obtain w where w: "dm_log (msg_invalid_id (id d)) M = Inr (M\<lparr>dm_world := w\<rparr>)"
    "logs (dm_world M) [msg_invalid_id (id d)] w"
    using assms(1) dm_log_ok[of M "msg_invalid_id (id d)"] by (auto simp: dm_inv_def)
  have "dm_inv (M\<lparr>dm_world := w\<rparr>) hss" using assms(1) logs_ok[OF w(2)] by (simp add: dm_inv_def)
  then show ?thesis using nz w get_unknown[OF assms(1) none]
    by (simp add: process_data_def dm_sensors_def logs_def)
qed

theorem datamgr_unknown_id_witness:
  "\<exists>M'. process_data (d_of_int 18) (d_of_int 25) demo_dm ((demo_meas 20)\<lparr>id := 7\<rparr>) = Inr M'
    \<and> fifo (dm_world M') = fifo (dm_world demo_dm)
        @ msg_invalid_id 7 (clock (dm_world demo_dm) (ticks (dm_world demo_dm)))"
  using datamgr_unknown_id[OF demo_dm(1), of "(demo_meas 20)\<lparr>id := 7\<rparr>" "d_of_int 18" "d_of_int 25"]
  by (auto simp: demo_dm(2))

text \<open>
  C36: The time of the last reading. After a measurement from the buffer, \<open>datamgr_get_last_modified\<close>
  returns the sensor's id; after the same measurement from a file it returns the measurement's time.
\<close>

theorem datamgr_last_modified:
  assumes "dm_inv M hss" "index_of (id d) (dm_ids M) = Some k" "id d \<noteq> 0"
    and "int (length (hss ! k)) < INT_MAX"
  shows "\<exists>M1 M2. process_data lo hi M d = Inr M1
    \<and> datamgr_get_last_modified M1 (id d) = Inr (ucast (id d), M1)
    \<and> process_record lo hi (id d) (Some (val d)) (Some (ts d)) M = Inr M2
    \<and> datamgr_get_last_modified M2 (id d) = Inr (ts d, M2)"
proof -
  have k: "k < length (dm_sensors M)" using index_of_less[OF assms(2)] by (simp add: dm_ids_def)
  have step: "\<exists>p M'. get_sensor_node_with_id M (id d) = Inr (Some p, M)
      \<and> record_measurement lo hi M (Some p) (id d) t (val d) = Inr M'
      \<and> datamgr_get_last_modified M' (id d) = Inr (t, M')" for t
  proof -
    obtain p M' where M': "get_sensor_node_with_id M (id d) = Inr (Some p, M)"
      "record_measurement lo hi M (Some p) (id d) t (val d) = Inr M'"
      "dm_inv M' (hss[k := hss ! k @ [val d]])"
      "dm_sensors M' = (dm_sensors M)[k := measured (dm_sensors M ! k) (hss ! k) t (val d)]"
      using record_known[OF assms(1,2,4), of lo hi t "val d"] by metis
    have "dm_ids M' = dm_ids M" unfolding dm_ids_def M'(4) by (rule ids_measured[OF k])
    then have "datamgr_get_last_modified M' (id d) = Inr (t, M')"
      using get_known_field(2)[OF M'(3), of "id d" k] assms(2) M'(4) k by simp
    then show ?thesis using M'(1,2) by blast
  qed
  show ?thesis
    using step[of "ucast (id d)"] step[of "ts d"] assms(3)
    by (auto simp: process_data_def process_record_def)
qed

theorem datamgr_last_modified_witness:
  "\<exists>M1. process_data (d_of_int 18) (d_of_int 25) demo_dm (demo_meas 20) = Inr M1
    \<and> datamgr_get_last_modified M1 15 = Inr (15, M1)"
  using datamgr_last_modified[OF demo_dm(1), of "demo_meas 20" 0 "d_of_int 18" "d_of_int 25"]
  by (auto simp: demo_dm(2) demo_meas_def INT_MAX_def)

text \<open>
  C35: Reading a map file that was written line by line as "room sensor" gives a list with exactly these
  rooms and sensors in this order, each without measurements, and logs nothing.
\<close>

theorem datamgr_map_roundtrip:
  assumes "world_ok w" "length es < ne" "length es \<le> nn"
  shows "\<exists>M. datamgr_read_map (Some (concat (map map_line es))) (dm_fresh nn ne w) = Inr M
    \<and> dm_ids M = map snd es \<and> dm_rooms M = map fst es \<and> dm_inv M (replicate (length es) [])
    \<and> fifo (dm_world M) = fifo w"
  using read_map_rep[of w "concat (map map_line es)" ne nn] assms by (auto simp: map_entries_lines)

theorem datamgr_map_roundtrip_witness:
  "\<exists>M. datamgr_read_map (Some (map_line (1, 15) @ map_line (2, 21))) (dm_fresh 2 3 demo_world) = Inr M
    \<and> dm_ids M = [15, 21]"
  using datamgr_map_roundtrip[OF demo_world_ok, of "[(1, 15), (2, 21)]" 3 2] by auto

text \<open>
  The queries: for a sensor of the map its room, and the number of sensors; for an id that is not in
  the map all queries dereference \<open>NULL\<close>, where the comments ask for an error handler.
\<close>

theorem datamgr_queries:
  assumes "dm_inv M hss"
  shows "datamgr_get_total_sensors M = Inr (int (length (dm_ids M)))
    \<and> (case index_of i (dm_ids M) of
        Some k \<Rightarrow> datamgr_get_room_id M i = Inr (dm_rooms M ! k, M)
      | None \<Rightarrow> datamgr_get_room_id M i = Inl Null_Deref
          \<and> datamgr_get_last_modified M i = Inl Null_Deref \<and> datamgr_get_avg lo hi M i = Inl Null_Deref)"
proof -
  have "datamgr_get_total_sensors M = Inr (int (length (dm_ids M)))"
    using get_total_rep[OF assms] dm_inv_length[OF assms] by (simp add: dm_ids_def)
  moreover have "datamgr_get_room_id M i = Inr (dm_rooms M ! k, M)" if "index_of i (dm_ids M) = Some k" for k
    using get_known_field(1)[OF assms that] index_of_less[OF that] by (simp add: dm_rooms_def dm_ids_def)
  ultimately show ?thesis using get_unknown_field[OF assms] by (auto split: option.split)
qed

theorem datamgr_queries_witness:
  "datamgr_get_room_id demo_dm 21 = Inr (2, demo_dm)"
  using datamgr_queries[OF demo_dm(1), of 21] by (simp add: demo_dm(2,3))

text \<open>
  \<open>datamgr_free\<close> frees the list, all of its nodes and all sensor elements, and leaves a state in which
  the number of sensors is 0.
\<close>

theorem datamgr_free_releases:
  assumes "dm_inv M hss"
  shows "\<exists>M'. datamgr_free M = Inr M' \<and> sensor_list M' = NULL
    \<and> dom (cells (elems (dm_mem M'))) = {} \<and> dom (cells (nodes (dm_mem M'))) = {}
    \<and> datamgr_get_total_sensors M' = Inr 0"
proof -
  obtain M' where "datamgr_free M = Inr M'" "sensor_list M' = NULL"
    "dom (cells (elems (dm_mem M'))) = {}" "dom (cells (nodes (dm_mem M'))) = {}"
    "datamgr_get_total_sensors M' = Inr 0"
    using datamgr_free_rep[OF assms] by (elim exE conjE)
  then show ?thesis by (intro exI[of _ M'] conjI)
qed

theorem datamgr_free_releases_witness:
  "\<exists>M'. datamgr_free demo_five = Inr M' \<and> dom (cells (elems (dm_mem M'))) = {}"
  using datamgr_free_releases[OF demo_five(1)] by (elim exE conjE) (intro exI conjI)

text \<open>
  The loop that finds the slot of a measurement ends with the number of earlier measurements modulo
  \<open>RUN_AVG_LENGTH\<close>: it always sets the position, and the position is inside the array.
\<close>

theorem ring_position_spec:
  "ring_position (int n) = Some (int n mod RUN_AVG_LENGTH)
   \<and> 0 \<le> int n mod RUN_AVG_LENGTH \<and> int n mod RUN_AVG_LENGTH < RUN_AVG_LENGTH"
  using ring_position_mod[of "int n"] by (simp add: RUN_AVG_LENGTH_def)

end
