(* ===== verification/Sensor_db.thy ===== *)
theory Sensor_db
  imports Sbuffer Logfifo
begin

text \<open>
  The storage manager (\<open>sensor_db.h\<close>, \<open>sensor_db.c\<close>) and the thread that runs it (\<open>storagemgr_function\<close> of
  \<open>main.c\<close>). SQLite is a library that the gateway links: its functions are the record \<open>sqlite\<close>, a
  parameter of the definitions. \<open>'db\<close> is the state of the database and \<open>'c\<close> that of a query's callback.
\<close>

section \<open>SQLite as a parameter\<close>

text \<open>
  A row is the list of its values (\<open>None\<close> for SQL's \<open>NULL\<close>). A callback takes a row and its own state and
  tells whether the query is to be aborted. Codes are \<open>True\<close> for \<open>SQLITE_OK\<close>. \<open>mprintf_f\<close> and \<open>mprintf_q\<close>
  are the conversions \<open>%f\<close> and \<open>%q\<close> of \<open>sqlite3_mprintf\<close>.
\<close>

type_synonym row = "string option list"
type_synonym 'c callback = "row \<Rightarrow> 'c \<Rightarrow> bool \<times> 'c"

record ('db, 'c) sqlite =
  sqlite3_open :: "string \<Rightarrow> 'db \<Rightarrow> bool \<times> 'db"
  sqlite3_exec :: "string \<Rightarrow> 'c callback option \<Rightarrow> 'c \<Rightarrow> 'db \<Rightarrow> bool \<times> 'c \<times> 'db"
  sqlite3_close :: "'db \<Rightarrow> bool \<times> 'db"
  mprintf_f :: "double \<Rightarrow> string"
  mprintf_q :: "string \<Rightarrow> string"

text \<open>
  The storage manager's state: the database, the answers of the system, and how many strings made by
  \<open>sqlite3_mprintf\<close> have not been freed.
\<close>

record 'db st_state =
  st_db :: 'db
  st_world :: world
  sql_live :: nat

definition DB_NAME :: string where "DB_NAME = ''Sensor.db''"
definition TABLE_NAME :: string where "TABLE_NAME = ''SensorData''"

definition st_log :: "(sensor_ts_t \<Rightarrow> string) \<Rightarrow> 'db st_state \<Rightarrow> 'db st_state res" where
  "st_log fmt s = bindR (log_event fmt (st_world s)) (\<lambda>w. Inr (s\<lparr>st_world := w\<rparr>))"

text \<open>A statement without callback: the code, and the state with the statement's string allocated.\<close>

definition run_sql :: "('db, 'c) sqlite \<Rightarrow> 'c \<Rightarrow> string \<Rightarrow> 'db st_state \<Rightarrow> bool \<times> 'db st_state" where
  "run_sql Q c sql s =
     (let (rc, _, db) = sqlite3_exec Q sql None c (st_db s)
      in (rc, s\<lparr>st_db := db, sql_live := Suc (sql_live s)\<rparr>))"

definition free_sql :: "'db st_state \<Rightarrow> 'db st_state" where
  "free_sql s = s\<lparr>sql_live := sql_live s - 1\<rparr>"

definition close_db :: "('db, 'c) sqlite \<Rightarrow> 'db st_state \<Rightarrow> 'db st_state" where
  "close_db Q s = s\<lparr>st_db := snd (sqlite3_close Q (st_db s))\<rparr>"

section \<open>Statements\<close>

definition drop_sql :: "('db, 'c) sqlite \<Rightarrow> string" where
  "drop_sql Q = ''DROP TABLE IF EXISTS '' @ mprintf_q Q TABLE_NAME @ '';''"

definition create_sql :: "('db, 'c) sqlite \<Rightarrow> string" where
  "create_sql Q = ''CREATE TABLE '' @ mprintf_q Q TABLE_NAME
     @ ''(Id INTEGER PRIMARY KEY AUTOINCREMENT, sensor_id INT, sensor_value DECIMAL(4,2), timestamp TIMESTAMP);''"

definition insert_sql :: "('db, 'c) sqlite \<Rightarrow> sensor_id_t \<Rightarrow> sensor_value_t \<Rightarrow> sensor_ts_t \<Rightarrow> string" where
  "insert_sql Q i v t = ''INSERT INTO '' @ mprintf_q Q TABLE_NAME
     @ ''(sensor_id, sensor_value, timestamp) VALUES ('' @ dec (unat i) @ '', '' @ mprintf_f Q v @ '', ''
     @ pr_ld t @ '');''"

definition select_sql :: "('db, 'c) sqlite \<Rightarrow> string \<Rightarrow> string" where
  "select_sql Q cond = ''SELECT * FROM '' @ mprintf_q Q TABLE_NAME @ cond @ '';''"

section \<open>Connection\<close>

definition init_connection ::
  "('db, 'c) sqlite \<Rightarrow> 'c \<Rightarrow> int \<Rightarrow> 'db st_state \<Rightarrow> (bool \<times> 'db st_state) res" where
  "init_connection Q c clear_up_flag s =
     (let (rc, db) = sqlite3_open Q DB_NAME (st_db s); s = s\<lparr>st_db := db\<rparr> in
      if \<not> rc then
        bindR (st_log msg_sql_unable s) (\<lambda>s. Inr (False, close_db Q s))
      else
        bindR (st_log msg_sql_connected s) (\<lambda>s.
        let (dropped, s) =
          (if clear_up_flag = 1 then
             (let (rc, s) = run_sql Q c (drop_sql Q) s
              in if \<not> rc then (False, close_db Q s) else (True, free_sql s))
           else (True, s)) in
        if \<not> dropped then Inr (False, s)
        else
          (let (rc, s) = run_sql Q c (create_sql Q) s in
           if \<not> rc then Inr (False, close_db Q s)
           else bindR (st_log (msg_new_table TABLE_NAME) s) (\<lambda>s. Inr (True, free_sql s)))))"

definition disconnect :: "('db, 'c) sqlite \<Rightarrow> 'db st_state \<Rightarrow> 'db st_state res" where
  "disconnect Q s =
     (let (rc, db) = sqlite3_close Q (st_db s); s = s\<lparr>st_db := db\<rparr> in
      if \<not> rc then Inl Aborted else st_log msg_sql_lost s)"

section \<open>Insertion\<close>

text \<open>Returns 1 when the statement fails; its string is then not freed.\<close>

definition insert_sensor ::
  "('db, 'c) sqlite \<Rightarrow> 'c \<Rightarrow> sensor_id_t \<Rightarrow> sensor_value_t \<Rightarrow> sensor_ts_t \<Rightarrow> 'db st_state
   \<Rightarrow> int \<times> 'db st_state" where
  "insert_sensor Q c i v t s =
     (let (rc, s) = run_sql Q c (insert_sql Q i v t) s in if \<not> rc then (1, s) else (0, free_sql s))"

text \<open>
  The body of the loop over the buffer, in two critical sections. The result of \<open>insert_sensor\<close> is
  not used.
\<close>

definition store_data :: "('db, 'c) sqlite \<Rightarrow> 'c \<Rightarrow> 'db st_state \<Rightarrow> sensor_data_t \<Rightarrow> 'db st_state" where
  "store_data Q c s d =
     (if id d \<noteq> 0 then snd (insert_sensor Q c (id d) (val d) (ts d) s) else s)"

definition storagemgr_poll :: "sbmem \<Rightarrow> ptr \<Rightarrow> bool res" where
  "storagemgr_poll B buffer = bindR (sbuffer_get_first_node B buffer) (\<lambda>p. Inr (p \<noteq> NULL))"

definition storagemgr_take ::
  "pthread_t \<Rightarrow> pthread_t \<Rightarrow> ('db, 'c) sqlite \<Rightarrow> 'c \<Rightarrow> 'db st_state \<Rightarrow> sbmem \<Rightarrow> ptr
   \<Rightarrow> ('db st_state \<times> sbmem) res" where
  "storagemgr_take D S Q c s B buffer =
     (let (ok, w) = heap_alloc (st_world s); s = s\<lparr>st_world := w\<rparr> in
      bindR (check_exit ok) (\<lambda>_.
      bindR (sbuffer_remove D S S B buffer no_data) (\<lambda>(err, d, B).
      bindR (check_exit (err \<noteq> SBUFFER_FAILURE)) (\<lambda>_.
      Inr (store_data Q c s d, B)))))"

definition storagemgr_iteration ::
  "pthread_t \<Rightarrow> pthread_t \<Rightarrow> ('db, 'c) sqlite \<Rightarrow> 'c \<Rightarrow> ptr \<Rightarrow> 'db st_state \<times> sbmem
   \<Rightarrow> ('db st_state \<times> sbmem) res" where
  "storagemgr_iteration D S Q c buffer sB =
     bindR (storagemgr_poll (snd sB) buffer) (\<lambda>found.
     if found then storagemgr_take D S Q c (fst sB) (snd sB) buffer else Inr sB)"

fun storagemgr_loop ::
  "pthread_t \<Rightarrow> pthread_t \<Rightarrow> ('db, 'c) sqlite \<Rightarrow> 'c \<Rightarrow> ptr \<Rightarrow> (sbmem \<Rightarrow> sbmem) list
   \<Rightarrow> 'db st_state \<times> sbmem \<Rightarrow> ('db st_state \<times> sbmem) res" where
  "storagemgr_loop D S Q c buffer [] sB = storagemgr_iteration D S Q c buffer sB"
| "storagemgr_loop D S Q c buffer (f # others) sB =
     bindR (storagemgr_iteration D S Q c buffer sB) (\<lambda>(s, B).
     storagemgr_loop D S Q c buffer others (s, f B))"

definition storagemgr_parse_sensor_data ::
  "pthread_t \<Rightarrow> pthread_t \<Rightarrow> ('db, 'c) sqlite \<Rightarrow> 'c \<Rightarrow> ptr \<Rightarrow> (sbmem \<Rightarrow> sbmem) list
   \<Rightarrow> 'db st_state \<times> sbmem \<Rightarrow> ('db st_state \<times> sbmem) res" where
  "storagemgr_parse_sensor_data D S Q c buffer others sB =
     bindR (check_exit (buffer \<noteq> NULL)) (\<lambda>_. storagemgr_loop D S Q c buffer others sB)"

text \<open>
  \<open>insert_sensor_from_file\<close>: the fields are read as by the data manager, but the variables are reset after
  each record. It stops at the first insertion that fails.
\<close>

definition read_record :: "byte list \<Rightarrow> ((sensor_id_t \<times> sensor_value_t \<times> sensor_ts_t) res \<times> byte list) option" where
  "read_record bs = (case fread 2 bs of
      Some (Some i, bs) \<Rightarrow>
        (case fread 8 bs of
           None \<Rightarrow> Some (Inl Uninit_Read, [])
         | Some (v, bs) \<Rightarrow>
             (case fread 8 bs of
                None \<Rightarrow> Some (Inl Uninit_Read, [])
              | Some (t, bs) \<Rightarrow> Some (Inr (of_nat (le_nat i),
                  (case v of None \<Rightarrow> Finite 0 | Some v \<Rightarrow> double_of_bits (of_nat (le_nat v))),
                  (case t of None \<Rightarrow> 0 | Some t \<Rightarrow> of_nat (le_nat t))), bs)))
    | _ \<Rightarrow> None)"

lemma fread_le: "fread n bs = Some (b, r) \<Longrightarrow> length r \<le> length bs"
  by (auto simp: fread_def split: if_splits)

lemma fread_less: "fread 2 bs = Some (Some b, r) \<Longrightarrow> length r < length bs"
  by (auto simp: fread_def split: if_splits)

lemma read_record_shorter: "read_record bs = Some (x, r) \<Longrightarrow> length r < length bs"
  by (fastforce simp: read_record_def split: option.splits dest: fread_le fread_less)

function insert_file_loop ::
  "('db, 'c) sqlite \<Rightarrow> 'c \<Rightarrow> byte list \<Rightarrow> 'db st_state \<Rightarrow> (int \<times> 'db st_state) res" where
  "insert_file_loop Q c bs s =
     (case read_record bs of
        None \<Rightarrow> Inr (0, s)
      | Some (rec, bs) \<Rightarrow>
          bindR rec (\<lambda>(i, v, t).
          let (return_value, s) = insert_sensor Q c i v t s in
          if return_value = 1 then Inr (1, s) else insert_file_loop Q c bs s))"
  by pat_completeness auto
termination
  by (relation "measure (\<lambda>(Q, c, bs, s). length bs)") (auto dest: read_record_shorter)

declare insert_file_loop.simps [simp del]

definition insert_sensor_from_file ::
  "('db, 'c) sqlite \<Rightarrow> 'c \<Rightarrow> byte list option \<Rightarrow> 'db st_state \<Rightarrow> (int \<times> 'db st_state) res" where
  "insert_sensor_from_file Q c sensor_data s =
     (case sensor_data of None \<Rightarrow> Inr (1, s) | Some bs \<Rightarrow> insert_file_loop Q c bs s)"

section \<open>Queries\<close>

text \<open>The common part of the queries: the callback goes to SQLite; 1 on failure, 0 otherwise.\<close>

definition run_query ::
  "('db, 'c) sqlite \<Rightarrow> string \<Rightarrow> 'c callback \<Rightarrow> 'c \<Rightarrow> 'db st_state \<Rightarrow> int \<times> 'c \<times> 'db st_state" where
  "run_query Q sql f c s =
     (let (rc, c, db) = sqlite3_exec Q sql (Some f) c (st_db s);
          s = s\<lparr>st_db := db, sql_live := Suc (sql_live s)\<rparr>
      in if \<not> rc then (1, c, s) else (0, c, free_sql s))"

definition find_sensor_all ::
  "('db, 'c) sqlite \<Rightarrow> 'c callback \<Rightarrow> 'c \<Rightarrow> 'db st_state \<Rightarrow> int \<times> 'c \<times> 'db st_state" where
  "find_sensor_all Q = run_query Q (select_sql Q [])"

definition find_sensor_by_value ::
  "('db, 'c) sqlite \<Rightarrow> sensor_value_t \<Rightarrow> 'c callback \<Rightarrow> 'c \<Rightarrow> 'db st_state \<Rightarrow> int \<times> 'c \<times> 'db st_state" where
  "find_sensor_by_value Q v = run_query Q (select_sql Q ('' WHERE sensor_value = '' @ mprintf_f Q v))"

definition find_sensor_exceed_value ::
  "('db, 'c) sqlite \<Rightarrow> sensor_value_t \<Rightarrow> 'c callback \<Rightarrow> 'c \<Rightarrow> 'db st_state \<Rightarrow> int \<times> 'c \<times> 'db st_state" where
  "find_sensor_exceed_value Q v = run_query Q (select_sql Q ('' WHERE sensor_value > '' @ mprintf_f Q v))"

definition find_sensor_by_timestamp ::
  "('db, 'c) sqlite \<Rightarrow> sensor_ts_t \<Rightarrow> 'c callback \<Rightarrow> 'c \<Rightarrow> 'db st_state \<Rightarrow> int \<times> 'c \<times> 'db st_state" where
  "find_sensor_by_timestamp Q t = run_query Q (select_sql Q ('' WHERE timestamp = '' @ pr_ld t))"

definition find_sensor_after_timestamp ::
  "('db, 'c) sqlite \<Rightarrow> sensor_ts_t \<Rightarrow> 'c callback \<Rightarrow> 'c \<Rightarrow> 'db st_state \<Rightarrow> int \<times> 'c \<times> 'db st_state" where
  "find_sensor_after_timestamp Q t = run_query Q (select_sql Q ('' WHERE timestamp > '' @ pr_ld t))"

section \<open>The storage manager's thread\<close>

text \<open>
  \<open>storagemgr_function\<close>: up to three attempts to connect, two seconds apart. Without a connection the
  thread ends, and nothing else happens.
\<close>

fun connect_loop ::
  "('db, 'c) sqlite \<Rightarrow> 'c \<Rightarrow> nat \<Rightarrow> int \<Rightarrow> bool \<times> 'db st_state \<Rightarrow> (bool \<times> 'db st_state) res" where
  "connect_loop Q c 0 attempt_nr (connection, s) = Inl Diverges"
| "connect_loop Q c (Suc k) attempt_nr (connection, s) =
     (if \<not> connection \<and> attempt_nr < 3 then
        bindR (init_connection Q c 1 s) (connect_loop Q c k (attempt_nr + 1))
      else Inr (connection, s))"

definition storagemgr_connect :: "('db, 'c) sqlite \<Rightarrow> 'c \<Rightarrow> 'db st_state \<Rightarrow> (bool \<times> 'db st_state) res" where
  "storagemgr_connect Q c s = bindR (init_connection Q c 1 s) (connect_loop Q c 3 1)"

definition storagemgr_function ::
  "pthread_t \<Rightarrow> pthread_t \<Rightarrow> ('db, 'c) sqlite \<Rightarrow> 'c \<Rightarrow> ptr \<Rightarrow> (sbmem \<Rightarrow> sbmem) list
   \<Rightarrow> 'db st_state \<times> sbmem \<Rightarrow> ('db st_state \<times> sbmem) res" where
  "storagemgr_function D S Q c buffer others sB =
     bindR (storagemgr_connect Q c (fst sB)) (\<lambda>(connection, s).
     if \<not> connection then Inr (s, snd sB)
     else
       bindR (storagemgr_parse_sensor_data D S Q c buffer others (s, snd sB)) (\<lambda>(s, B).
       bindR (disconnect Q s) (\<lambda>s. Inr (s, B))))"

end
