(* ===== verification/Readers.thy ===== *)
theory Readers
  imports Datamgr_Start Sensor_db Sbuffer_Proofs
begin

text \<open>
  The two threads that read the shared buffer. They have the same loop: look for a first node, and if
  there is one read a measurement and process it. The interface \<open>measurement_reader\<close> states what a
  thread's take step promises, for a simulation \<open>R\<close> of the thread's state by an abstract one on which a
  measurement has the effect \<open>astep\<close>; its lemmas say that a loop processes the measurements of the
  buffer in order, each once. It is interpreted on the data manager and on the storage manager.
\<close>

section \<open>The loop\<close>

definition reader_iteration ::
  "('m \<Rightarrow> sbmem \<Rightarrow> ('m \<times> sbmem) res) \<Rightarrow> ptr \<Rightarrow> 'm \<times> sbmem \<Rightarrow> ('m \<times> sbmem) res" where
  "reader_iteration tk buffer mB =
     bindR (sbuffer_get_first_node (snd mB) buffer) (\<lambda>p.
     if p \<noteq> NULL then tk (fst mB) (snd mB) else Inr mB)"

fun reader_loop ::
  "('m \<Rightarrow> sbmem \<Rightarrow> ('m \<times> sbmem) res) \<Rightarrow> ptr \<Rightarrow> (sbmem \<Rightarrow> sbmem) list \<Rightarrow> 'm \<times> sbmem \<Rightarrow> ('m \<times> sbmem) res" where
  "reader_loop tk buffer [] mB = reader_iteration tk buffer mB"
| "reader_loop tk buffer (f # others) mB =
     bindR (reader_iteration tk buffer mB) (\<lambda>(m, B). reader_loop tk buffer others (m, f B))"

lemma datamgr_iteration_reader:
  "datamgr_iteration D S lo hi buffer = reader_iteration (\<lambda>M B. datamgr_take D S lo hi M B buffer) buffer"
  by (rule ext) (simp add: datamgr_iteration_def reader_iteration_def datamgr_poll_def bindR_assoc)

lemma datamgr_loop_reader:
  "datamgr_loop D S lo hi buffer others MB
   = reader_loop (\<lambda>M B. datamgr_take D S lo hi M B buffer) buffer others MB"
  by (induction others arbitrary: MB) (auto simp: datamgr_iteration_reader intro!: bindR_cong)

lemma storagemgr_iteration_reader:
  "storagemgr_iteration D S Q c buffer = reader_iteration (\<lambda>s B. storagemgr_take D S Q c s B buffer) buffer"
  by (rule ext) (simp add: storagemgr_iteration_def reader_iteration_def storagemgr_poll_def bindR_assoc)

lemma storagemgr_loop_reader:
  "storagemgr_loop D S Q c buffer others sB
   = reader_loop (\<lambda>s B. storagemgr_take D S Q c s B buffer) buffer others sB"
  by (induction others arbitrary: sB) (auto simp: storagemgr_iteration_reader intro!: bindR_cong)

text \<open>What the others do to the buffer, as seen by a reader: they append measurements.\<close>

fun appends :: "addr \<Rightarrow> reader \<Rightarrow> (sbmem \<Rightarrow> sbmem) list \<Rightarrow> sensor_data_t list list \<Rightarrow> bool" where
  "appends b r [] [] = True"
| "appends b r (f # fs) (ds # dss) =
     ((\<forall>B. sb_inv b B \<longrightarrow> sb_inv b (f B) \<and> sb_pending b r (f B) = sb_pending b r B @ ds) \<and> appends b r fs dss)"
| "appends b r _ _ = False"

lemma first_node_entries:
  assumes "sb_inv b B"
  shows "\<exists>p. sbuffer_get_first_node B (Some b) = Inr p \<and> (p = NULL \<longleftrightarrow> sb_entries B b = [])"
proof -
  obtain ns where ns: "sb_rep B b ns" "sb_entries B b = map snd ns" by (rule sb_invE[OF assms])
  then show ?thesis by (cases ns) (auto simp: sbuffer_get_first_node_def sb_rep_def mem_simps)
qed

section \<open>The interface\<close>

locale measurement_reader =
  fixes b :: addr and r :: reader
    and R :: "nat \<Rightarrow> 'a \<Rightarrow> 'm \<Rightarrow> bool"
    and astep :: "'a \<Rightarrow> sensor_data_t \<Rightarrow> 'a"
    and tk :: "'m \<Rightarrow> sbmem \<Rightarrow> ('m \<times> sbmem) res"
  assumes take_next: "R (Suc n) a m \<Longrightarrow> sb_inv b B \<Longrightarrow> sb_pending b r B = x # q \<Longrightarrow>
      \<exists>m' B'. tk m B = Inr (m', B') \<and> R n (astep a x) m' \<and> sb_inv b B' \<and> sb_pending b r B' = q
        \<and> sb_pending b (other r) B' = sb_pending b (other r) B"
    and take_idle: "R (Suc n) a m \<Longrightarrow> sb_inv b B \<Longrightarrow> sb_pending b r B = [] \<Longrightarrow>
      \<exists>m'. tk m B = Inr (m', B) \<and> R n a m'"
    and budget: "R (Suc n) a m \<Longrightarrow> R n a m"
begin

lemma iteration:
  assumes "R (Suc n) a m" "sb_inv b B"
  shows "\<exists>m' B'. reader_iteration tk (Some b) (m, B) = Inr (m', B')
    \<and> R n (foldl astep a (take 1 (sb_pending b r B))) m' \<and> sb_inv b B'
    \<and> sb_pending b r B' = drop 1 (sb_pending b r B)
    \<and> sb_pending b (other r) B' = sb_pending b (other r) B"
proof -
  obtain p where p: "sbuffer_get_first_node B (Some b) = Inr p" "p = NULL \<longleftrightarrow> sb_entries B b = []"
    using first_node_entries[OF assms(2)] by blast
  show ?thesis
  proof (cases "p = NULL")
    case True
    then show ?thesis using p assms budget by (simp add: reader_iteration_def)
  next
    case False
    then have it: "reader_iteration tk (Some b) (m, B) = tk m B" using p(1) by (simp add: reader_iteration_def)
    show ?thesis
    proof (cases "sb_pending b r B")
      case Nil
      then show ?thesis using take_idle[OF assms Nil] assms(2) it by auto
    next
      case (Cons x q)
      then show ?thesis using take_next[OF assms Cons] it by auto
    qed
  qed
qed

text \<open>
  With other threads appending between the iterations: what has been processed, in order, followed by
  what is left, is all that was there or came.
\<close>

lemma loop_in_order:
  assumes "R (Suc (n + length others)) a m" "sb_inv b B" "appends b r others dss"
  shows "\<exists>m' B' ds. reader_loop tk (Some b) others (m, B) = Inr (m', B')
    \<and> R n (foldl astep a ds) m' \<and> sb_inv b B'
    \<and> ds @ sb_pending b r B' = sb_pending b r B @ concat dss"
  using assms
proof (induction others arbitrary: a m B dss)
  case Nil
  then have dss: "dss = []" by (cases dss) auto
  have R: "R (Suc n) a m" using Nil.prems(1) by simp
  obtain m' B' where 1: "reader_iteration tk (Some b) (m, B) = Inr (m', B')"
    "R n (foldl astep a (take 1 (sb_pending b r B))) m'" "sb_inv b B'"
    "sb_pending b r B' = drop 1 (sb_pending b r B)"
    using iteration[OF R Nil.prems(2)] by blast
  have "take 1 (sb_pending b r B) @ sb_pending b r B' = sb_pending b r B @ concat dss"
    unfolding 1(4) dss by simp
  then show ?case using 1 by auto
next
  case (Cons f others)
  obtain ds0 dss' where dss: "dss = ds0 # dss'" using Cons.prems(3) by (cases dss) auto
  have f: "\<And>B. sb_inv b B \<Longrightarrow> sb_inv b (f B) \<and> sb_pending b r (f B) = sb_pending b r B @ ds0"
    and rest: "appends b r others dss'" using Cons.prems(3) dss by auto
  have R: "R (Suc (Suc (n + length others))) a m" using Cons.prems(1) by simp
  obtain m1 B1 where 1: "reader_iteration tk (Some b) (m, B) = Inr (m1, B1)"
    "R (Suc (n + length others)) (foldl astep a (take 1 (sb_pending b r B))) m1" "sb_inv b B1"
    "sb_pending b r B1 = drop 1 (sb_pending b r B)"
    using iteration[OF R Cons.prems(2)] by blast
  obtain m' B' ds where 2: "reader_loop tk (Some b) others (m1, f B1) = Inr (m', B')"
    "R n (foldl astep (foldl astep a (take 1 (sb_pending b r B))) ds) m'" "sb_inv b B'"
    "ds @ sb_pending b r B' = sb_pending b r (f B1) @ concat dss'"
    using Cons.IH[OF 1(2) _ rest, of "f B1"] f[OF 1(3)] by blast
  have "(take 1 (sb_pending b r B) @ ds) @ sb_pending b r B' = sb_pending b r B @ concat dss"
  proof -
    have "sb_pending b r B = take 1 (sb_pending b r B) @ drop 1 (sb_pending b r B)" by simp
    moreover have "ds @ sb_pending b r B' = drop 1 (sb_pending b r B) @ ds0 @ concat dss'"
      using 2(4) f[OF 1(3)] 1(4) by simp
    ultimately show ?thesis unfolding dss by (metis append_assoc concat.simps(2))
  qed
  moreover have "R n (foldl astep a (take 1 (sb_pending b r B) @ ds)) m'" using 2(2) by simp
  ultimately show ?case using 1(1) 2(1,3)
    by (intro exI[of _ m'] exI[of _ B'] exI[of _ "take 1 (sb_pending b r B) @ ds"]) simp
qed

text \<open>Enough iterations, with nothing coming in, process all that is there.\<close>

lemma loop_drains:
  assumes "R (Suc (n + k)) a m" "sb_inv b B" "length (sb_pending b r B) \<le> Suc k"
  shows "\<exists>m' B'. reader_loop tk (Some b) (replicate k (\<lambda>B. B)) (m, B) = Inr (m', B')
    \<and> R n (foldl astep a (sb_pending b r B)) m' \<and> sb_inv b B' \<and> sb_pending b r B' = []"
  using assms
proof (induction k arbitrary: a m B)
  case 0
  then have R: "R (Suc n) a m" by simp
  obtain m' B' where 1: "reader_iteration tk (Some b) (m, B) = Inr (m', B')"
    "R n (foldl astep a (take 1 (sb_pending b r B))) m'" "sb_inv b B'"
    "sb_pending b r B' = drop 1 (sb_pending b r B)"
    using iteration[OF R 0(2)] by blast
  then show ?case using 0(3) by simp
next
  case (Suc k)
  have R: "R (Suc (Suc (n + k))) a m" using Suc.prems(1) by simp
  obtain m1 B1 where 1: "reader_iteration tk (Some b) (m, B) = Inr (m1, B1)"
    "R (Suc (n + k)) (foldl astep a (take 1 (sb_pending b r B))) m1" "sb_inv b B1"
    "sb_pending b r B1 = drop 1 (sb_pending b r B)"
    using iteration[OF R Suc.prems(2)] by blast
  have "length (sb_pending b r B1) \<le> Suc k" using Suc.prems(3) 1(4) by simp
  from Suc.IH[OF 1(2,3) this] obtain m' B' where 2:
    "reader_loop tk (Some b) (replicate k (\<lambda>B. B)) (m1, B1) = Inr (m', B')"
    "R n (foldl astep (foldl astep a (take 1 (sb_pending b r B))) (sb_pending b r B1)) m'"
    "sb_inv b B'" "sb_pending b r B' = []" by blast
  have "foldl astep (foldl astep a (take 1 (sb_pending b r B))) (sb_pending b r B1)
      = foldl astep a (sb_pending b r B)"
    unfolding 1(4) foldl_append[symmetric] by simp
  then show ?case using 1(1) 2 by simp
qed

end

section \<open>The data manager is a reader\<close>

text \<open>
  The abstract state: the histories of the sensors \<open>ids\<close>, and the events logged since the world was \<open>w0\<close>.
  The number \<open>n\<close> bounds how many measurements may still come before a counter reaches \<open>INT_MAX\<close>.
\<close>

definition dm_step ::
  "sensor_value_t \<Rightarrow> sensor_value_t \<Rightarrow> sensor_id_t list
   \<Rightarrow> sensor_value_t list list \<times> (sensor_ts_t \<Rightarrow> string) list \<Rightarrow> sensor_data_t
   \<Rightarrow> sensor_value_t list list \<times> (sensor_ts_t \<Rightarrow> string) list" where
  "dm_step lo hi ids a d = (let (hss, fs) = spec_step lo hi ids d (fst a) in (hss, snd a @ fs))"

definition dm_R ::
  "world \<Rightarrow> sensor_id_t list \<Rightarrow> nat \<Rightarrow> sensor_value_t list list \<times> (sensor_ts_t \<Rightarrow> string) list \<Rightarrow> dm_state \<Rightarrow> bool"
  where
  "dm_R w0 ids n a M \<longleftrightarrow> dm_inv M (fst a) \<and> logs w0 (snd a) (dm_world M) \<and> dm_ids M = ids
     \<and> (\<forall>hs \<in> set (fst a). int (length hs + n) < INT_MAX)"

lemma logs_alloc: "logs w0 fs w \<Longrightarrow> logs w0 fs (w\<lparr>nallocs := k\<rparr>)"
  by (simp add: logs_def same_answers_def)

lemma dm_inv_alloc: "dm_inv M hss \<Longrightarrow> dm_inv (M\<lparr>dm_world := (dm_world M)\<lparr>nallocs := k\<rparr>\<rparr>) hss"
  by (simp add: dm_inv_def world_ok_def)

lemma dm_ids_world [simp]: "dm_ids (M\<lparr>dm_world := w\<rparr>) = dm_ids M"
  by (simp add: dm_ids_def dm_sensors_def)

lemma datamgr_take_simp:
  assumes "world_ok (dm_world M)" "sbuffer_remove D S D B buffer no_data = Inr (err, d, B')"
    and "err \<noteq> SBUFFER_FAILURE"
  shows "datamgr_take D S lo hi M B buffer
    = bindR (process_data lo hi (M\<lparr>dm_world := (dm_world M)\<lparr>nallocs := Suc (nallocs (dm_world M))\<rparr>\<rparr>) d)
        (\<lambda>M. Inr (M, B'))"
  using assms by (simp add: datamgr_take_def heap_alloc_def world_ok_def check_exit_def Let_def)

lemma spec_step_budget:
  assumes "\<forall>hs \<in> set hss. int (length hs + Suc n) < INT_MAX"
  shows "\<forall>hs \<in> set (fst (spec_step lo hi ids d hss)). int (length hs + n) < INT_MAX"
proof -
  have "\<forall>hs \<in> set hss. length hs \<le> nat (INT_MAX - int n - 2)" using assms by auto
  from spec_step_bound[OF this, of lo hi ids d]
  have le: "\<forall>hs \<in> set (fst (spec_step lo hi ids d hss)). length hs \<le> Suc (nat (INT_MAX - int n - 2))" .
  show ?thesis
  proof (cases "hss = []")
    case True
    then have "fst (spec_step lo hi ids d hss) = []"
      using spec_step_length[of lo hi ids d hss] by (metis length_0_conv)
    then show ?thesis by simp
  next
    case False
    then obtain hs where "hs \<in> set hss" by (cases hss) auto
    then have "int n + 1 < INT_MAX" using assms by fastforce
    then show ?thesis using le by fastforce
  qed
qed

interpretation dm_reader: measurement_reader b Data_Reader "\<lambda>n a M. D \<noteq> S \<and> dm_R w0 ids n a M"
  "dm_step lo hi ids" "\<lambda>M B. datamgr_take D S lo hi M B (Some b)" for b w0 ids lo hi D S
proof (unfold_locales, goal_cases)
  case (1 n a M B x q)
  let ?M = "M\<lparr>dm_world := (dm_world M)\<lparr>nallocs := Suc (nallocs (dm_world M))\<rparr>\<rparr>"
  have R: "dm_inv M (fst a)" "logs w0 (snd a) (dm_world M)" "dm_ids M = ids"
    "\<forall>hs \<in> set (fst a). int (length hs + Suc n) < INT_MAX"
    and neq: "D \<noteq> S" using 1(1) by (simp_all add: dm_R_def)
  have w: "world_ok (dm_world M)" using R(1) by (simp add: dm_inv_def)
  obtain B' where B': "sbuffer_remove D S D B (Some b) no_data = Inr (SBUFFER_SUCCESS, x, B')" "sb_inv b B'"
    "sb_pending b Data_Reader B' = q"
    "sb_pending b (other Data_Reader) B' = sb_pending b (other Data_Reader) B"
    using sbq.rem_next[of b B D S Data_Reader x q no_data] 1
    by (auto simp: td_of_def SBUFFER_SUCCESS_def)
  have inv: "dm_inv ?M (fst a)" by (rule dm_inv_alloc[OF R(1)])
  have "\<forall>hs \<in> set (fst a). int (length hs) < INT_MAX" using R(4) by fastforce
  from process_data_refines[OF inv this, of lo hi x]
  obtain M' where M': "process_data lo hi ?M x = Inr M'"
    "dm_inv M' (fst (spec_step lo hi (dm_ids ?M) x (fst a)))"
    "logs (dm_world ?M) (snd (spec_step lo hi (dm_ids ?M) x (fst a))) (dm_world M')"
    "dm_ids M' = dm_ids ?M" by blast
  have ids: "dm_ids ?M = ids" using R(3) by simp
  have tk: "datamgr_take D S lo hi M B (Some b) = Inr (M', B')"
    using datamgr_take_simp[OF w B'(1), of lo hi] M'(1) by (simp add: SBUFFER_FAILURE_def SBUFFER_SUCCESS_def)
  have "logs w0 (snd a) (dm_world ?M)" using logs_alloc[OF R(2)] by simp
  from logs_append[OF this M'(3)]
  have "dm_R w0 ids n (dm_step lo hi ids a x) M'"
    using M'(2,4) spec_step_budget[OF R(4), of lo hi ids x] unfolding ids
    by (simp add: dm_R_def dm_step_def case_prod_beta Let_def)
  then show ?case using tk B'(2,3,4) neq by blast
next
  case (2 n a M B)
  have w: "world_ok (dm_world M)" using 2(1) by (simp add: dm_R_def dm_inv_def)
  have rm: "sbuffer_remove D S D B (Some b) no_data = Inr (SBUFFER_NO_DATA, no_data, B)"
    using sbuffer_remove_empty[OF 2(2) _ 2(3)] 2(1) by (simp add: td_of_def)
  have "datamgr_take D S lo hi M B (Some b)
      = Inr (M\<lparr>dm_world := (dm_world M)\<lparr>nallocs := Suc (nallocs (dm_world M))\<rparr>\<rparr>, B)"
    using datamgr_take_simp[OF w rm, of lo hi]
    by (simp add: process_data_def SBUFFER_FAILURE_def SBUFFER_NO_DATA_def)
  then show ?case using 2(1) by (auto simp: dm_R_def dm_inv_alloc logs_alloc)
next
  case (3 n a M)
  then show ?case by (auto simp: dm_R_def)
qed

section \<open>The storage manager is a reader\<close>

text \<open>The abstract state: the database, and the number of statement strings not freed.\<close>

definition store_step :: "('db, 'c) sqlite \<Rightarrow> 'c \<Rightarrow> 'db \<times> nat \<Rightarrow> sensor_data_t \<Rightarrow> 'db \<times> nat" where
  "store_step Q c a d =
     (if id d = 0 then a
      else let (rc, _, db) = sqlite3_exec Q (insert_sql Q (id d) (val d) (ts d)) None c (fst a)
           in (db, if rc then snd a else Suc (snd a)))"

definition st_R :: "nat \<Rightarrow> 'db \<times> nat \<Rightarrow> 'db st_state \<Rightarrow> bool" where
  "st_R n a s \<longleftrightarrow> st_db s = fst a \<and> sql_live s = snd a \<and> world_ok (st_world s)"

lemma store_data_step:
  "st_db (store_data Q c s d) = fst (store_step Q c (st_db s, sql_live s) d)"
  "sql_live (store_data Q c s d) = snd (store_step Q c (st_db s, sql_live s) d)"
  "st_world (store_data Q c s d) = st_world s"
  by (simp_all add: store_data_def store_step_def insert_sensor_def run_sql_def free_sql_def Let_def
      case_prod_beta)

lemma storagemgr_take_simp:
  assumes "world_ok (st_world s)" "sbuffer_remove D S S B buffer no_data = Inr (err, d, B')"
    and "err \<noteq> SBUFFER_FAILURE"
  shows "storagemgr_take D S Q c s B buffer
    = Inr (store_data Q c (s\<lparr>st_world := (st_world s)\<lparr>nallocs := Suc (nallocs (st_world s))\<rparr>\<rparr>) d, B')"
  using assms by (simp add: storagemgr_take_def heap_alloc_def world_ok_def check_exit_def Let_def)

interpretation st_reader: measurement_reader b Storage_Reader "\<lambda>n a s. D \<noteq> S \<and> st_R n a s"
  "store_step Q c" "\<lambda>s B. storagemgr_take D S Q c s B (Some b)" for b Q c D S
proof (unfold_locales, goal_cases)
  case (1 n a s B x q)
  let ?s = "s\<lparr>st_world := (st_world s)\<lparr>nallocs := Suc (nallocs (st_world s))\<rparr>\<rparr>"
  have w: "world_ok (st_world s)" using 1(1) by (simp add: st_R_def)
  obtain B' where B': "sbuffer_remove D S S B (Some b) no_data = Inr (SBUFFER_SUCCESS, x, B')" "sb_inv b B'"
    "sb_pending b Storage_Reader B' = q"
    "sb_pending b (other Storage_Reader) B' = sb_pending b (other Storage_Reader) B"
    using sbq.rem_next[of b B D S Storage_Reader x q no_data] 1
    by (auto simp: td_of_def SBUFFER_SUCCESS_def)
  have "storagemgr_take D S Q c s B (Some b) = Inr (store_data Q c ?s x, B')"
    using storagemgr_take_simp[OF w B'(1)] by (simp add: SBUFFER_FAILURE_def SBUFFER_SUCCESS_def)
  moreover have "st_R n (store_step Q c a x) (store_data Q c ?s x)"
    using 1(1) w by (simp add: st_R_def store_data_step)
  ultimately show ?case using B'(2,3,4) 1(1) by blast
next
  case (2 n a s B)
  have w: "world_ok (st_world s)" using 2(1) by (simp add: st_R_def)
  have rm: "sbuffer_remove D S S B (Some b) no_data = Inr (SBUFFER_NO_DATA, no_data, B)"
    using sbuffer_remove_empty[OF 2(2) _ 2(3)] 2(1) by (simp add: td_of_def)
  show ?case
    using storagemgr_take_simp[OF w rm, of Q c] 2(1)
    by (simp add: store_data_def SBUFFER_FAILURE_def SBUFFER_NO_DATA_def st_R_def)
next
  case (3 n a s)
  then show ?case by (simp add: st_R_def)
qed

section \<open>Connecting to the database\<close>

lemma st_log_ok:
  assumes "world_ok (st_world s)"
  shows "\<exists>w. st_log fmt s = Inr (s\<lparr>st_world := w\<rparr>) \<and> logs (st_world s) [fmt] w \<and> world_ok w"
  using log_event_logs[OF assms, of fmt] logs_ok[OF _ assms] by (auto simp: st_log_def)

lemma init_connection_ok:
  assumes "world_ok (st_world s)"
  shows "\<exists>connected s'. init_connection Q c 1 s = Inr (connected, s') \<and> world_ok (st_world s')"
proof -
  have log: "\<exists>w. st_log fmt t = Inr (t\<lparr>st_world := w\<rparr>) \<and> world_ok w" if "world_ok (st_world t)" for fmt t
    using st_log_ok[OF that, of fmt] by blast
  obtain opened db1 where o: "sqlite3_open Q DB_NAME (st_db s) = (opened, db1)" by fastforce
  let ?s = "s\<lparr>st_db := db1\<rparr>"
  obtain w where w: "st_log (if opened then msg_sql_connected else msg_sql_unable) ?s = Inr (?s\<lparr>st_world := w\<rparr>)"
    "world_ok w"
    using log[of ?s] assms by auto
  obtain dropped c2 db2 where d: "sqlite3_exec Q (drop_sql Q) None c db1 = (dropped, c2, db2)" by (metis prod_cases3)
  obtain created c3 db3 where k: "sqlite3_exec Q (create_sql Q) None c db2 = (created, c3, db3)" by (metis prod_cases3)
  let ?t = "s\<lparr>st_world := w, st_db := db3, sql_live := Suc (sql_live s)\<rparr>"
  obtain w2 where "st_log (msg_new_table TABLE_NAME) ?t = Inr (?t\<lparr>st_world := w2\<rparr>)" "world_ok w2"
    using log[of ?t] w(2) by auto
  then show ?thesis using w o d k
    by (cases opened; cases dropped; cases created)
      (auto simp: init_connection_def close_db_def run_sql_def free_sql_def Let_def)
qed

text \<open>
  The storage thread makes one to three attempts to connect, and a further one only after a failure;
  the result is that of its last attempt.
\<close>

theorem storage_three_attempts:
  "storagemgr_connect Q c s =
    bindR (init_connection Q c 1 s) (\<lambda>(connected1, s1). if connected1 then Inr (True, s1)
    else bindR (init_connection Q c 1 s1) (\<lambda>(connected2, s2). if connected2 then Inr (True, s2)
    else init_connection Q c 1 s2))"
proof -
  have last: "connect_loop Q c (Suc 0) 3 = Inr"
    by (rule ext) (auto simp: split_paired_all)
  have second: "connect_loop Q c (Suc (Suc 0)) 2
      = (\<lambda>(b, s). if b then Inr (True, s) else init_connection Q c 1 s)"
    by (rule ext) (auto simp: split_paired_all last)
  have first: "connect_loop Q c 3 1
      = (\<lambda>(b, s). if b then Inr (True, s) else bindR (init_connection Q c 1 s) (connect_loop Q c (Suc (Suc 0)) 2))"
    by (rule ext) (auto simp: split_paired_all numeral_3_eq_3)
  show ?thesis unfolding storagemgr_connect_def first second ..
qed

lemma storagemgr_connect_ok:
  assumes "world_ok (st_world s)"
  shows "\<exists>connected s'. storagemgr_connect Q c s = Inr (connected, s') \<and> world_ok (st_world s')"
proof -
  obtain c1 s1 where 1: "init_connection Q c 1 s = Inr (c1, s1)" "world_ok (st_world s1)"
    using init_connection_ok[OF assms, of Q c] by blast
  obtain c2 s2 where 2: "init_connection Q c 1 s1 = Inr (c2, s2)" "world_ok (st_world s2)"
    using init_connection_ok[OF 1(2), of Q c] by blast
  obtain c3 s3 where 3: "init_connection Q c 1 s2 = Inr (c3, s3)" "world_ok (st_world s3)"
    using init_connection_ok[OF 2(2), of Q c] by blast
  show ?thesis using 1 2 3 by (auto simp: storage_three_attempts)
qed

end
