(* ===== verification/Storage_Props.thy ===== *)
theory Storage_Props
  imports Readers Datamgr_Props Sbuffer_Props
begin

text \<open>
  The properties of the storage manager, for any SQLite functions, and of the loops of both readers.
\<close>

section \<open>Connections\<close>

lemma st_log_sel:
  "st_log fmt s = Inr s' \<Longrightarrow> st_db s' = st_db s \<and> sql_live s' = sql_live s"
  by (auto simp: st_log_def bindR_Inr_iff)

section \<open>A concrete database\<close>

text \<open>
  It records the statements that succeed; insertions fail, as on a full disk. The conversions of
  \<open>sqlite3_mprintf\<close> are those of \<open>printf\<close>, with nothing to quote in the table's name.
\<close>

definition demo_bad :: sensor_data_t where
  "demo_bad = \<lparr>id = 99, val = Finite 0, ts = 0\<rparr>"

definition demo_sqlite :: "(string list, unit) sqlite" where
  "demo_sqlite = \<lparr>sqlite3_open = (\<lambda>_ db. (True, db)),
     sqlite3_exec = (\<lambda>sql f c db. if take 6 sql = ''INSERT'' then (False, c, db) else (True, c, db @ [sql])),
     sqlite3_close = (\<lambda>db. (True, db)), mprintf_f = pr_f, mprintf_q = (\<lambda>s. s)\<rparr>"

definition no_server :: "(string list, unit) sqlite" where
  "no_server = demo_sqlite\<lparr>sqlite3_open := (\<lambda>_ db. (False, db))\<rparr>"

definition demo_st :: "string list st_state" where
  "demo_st = \<lparr>st_db = [], st_world = demo_world, sql_live = 0\<rparr>"

lemma demo_st_ok: "world_ok (st_world demo_st)"
  by (simp add: demo_st_def demo_world_ok)

text \<open>The buffer with one measurement in it.\<close>

definition demo_holding :: "sensor_data_t \<Rightarrow> sbmem" where
  "demo_holding d = (case sbuffer_insert demo_empty (Some 0) d of Inr (_, B) \<Rightarrow> B)"

lemma demo_holding: "sb_inv 0 (demo_holding d)" "sb_pending 0 r (demo_holding d) = [d]"
proof -
  obtain c B where B: "sbuffer_insert demo_empty (Some 0) d = Inr (c, B)"
    using sbuffer_insert_returns[OF demo_inv(1)] by blast
  have "avail (snodes demo_empty) \<noteq> []" by (simp add: demo_empty_def)
  then have "sb_inv 0 B" "sb_entries B 0 = [fresh_entry d]"
    using sbuffer_insert_inv[OF demo_inv(1) B] demo_inv(2) by simp_all
  then show "sb_inv 0 (demo_holding d)" "sb_pending 0 r (demo_holding d) = [d]"
    using B by (simp_all add: demo_holding_def)
qed

section \<open>Properties\<close>

text \<open>
  \<open>init_connection(1)\<close> returns a connection exactly when opening, dropping the old table and creating
  the new one succeed. It logs the outcome of the opening and the new table, and frees the statements
  unless one fails, which leaks it.
\<close>

theorem init_connection_spec:
  assumes "world_ok (st_world s)" "sqlite3_open Q DB_NAME (st_db s) = (opened, db1)"
    and "sqlite3_exec Q (drop_sql Q) None c db1 = (dropped, c2, db2)"
    and "sqlite3_exec Q (create_sql Q) None c db2 = (created, c3, db3)"
    and clk: "clk = clock (st_world s)" "k = ticks (st_world s)"
  shows "\<exists>s'. init_connection Q c 1 s = Inr (opened \<and> dropped \<and> created, s')
    \<and> fifo (st_world s') = fifo (st_world s) @ stamped clk k
        (if \<not> opened then [msg_sql_unable]
         else msg_sql_connected # (if dropped \<and> created then [msg_new_table TABLE_NAME] else []))
    \<and> sql_live s' = (if opened \<and> \<not> (dropped \<and> created) then Suc (sql_live s) else sql_live s)
    \<and> (opened \<and> dropped \<and> created \<longrightarrow> st_db s' = db3) \<and> world_ok (st_world s')"
proof (cases opened)
  case False
  obtain w where w: "st_log msg_sql_unable (s\<lparr>st_db := db1\<rparr>) = Inr (s\<lparr>st_db := db1, st_world := w\<rparr>)"
    "logs (st_world s) [msg_sql_unable] w" "world_ok w"
    using st_log_ok[of "s\<lparr>st_db := db1\<rparr>" msg_sql_unable] assms(1) by auto
  then show ?thesis using False assms by (simp add: init_connection_def close_db_def logs_def)
next
  case True
  obtain w where w: "st_log msg_sql_connected (s\<lparr>st_db := db1\<rparr>) = Inr (s\<lparr>st_db := db1, st_world := w\<rparr>)"
    "logs (st_world s) [msg_sql_connected] w" "world_ok w"
    using st_log_ok[of "s\<lparr>st_db := db1\<rparr>" msg_sql_connected] assms(1) by auto
  show ?thesis
  proof (cases "dropped \<and> created")
    case False
    then show ?thesis using True assms w
      by (auto simp: init_connection_def close_db_def logs_def run_sql_def free_sql_def Let_def)
  next
    case both: True
    let ?s = "s\<lparr>st_world := w, st_db := db3, sql_live := Suc (sql_live s)\<rparr>"
    obtain w2 where w2: "st_log (msg_new_table TABLE_NAME) ?s = Inr (?s\<lparr>st_world := w2\<rparr>)"
      "logs w [msg_new_table TABLE_NAME] w2" "world_ok w2"
      using st_log_ok[of ?s "msg_new_table TABLE_NAME"] w(3) by auto
    have "logs (st_world s) [msg_sql_connected, msg_new_table TABLE_NAME] w2"
      using logs_append[OF w(2) w2(2)] by simp
    then show ?thesis using True both assms w w2
      by (simp add: init_connection_def logs_def run_sql_def free_sql_def Let_def)
  qed
qed

theorem init_connection_spec_witness:
  "\<exists>s'. init_connection demo_sqlite () 1 demo_st = Inr (True, s') \<and> sql_live s' = 0"
proof -
  have "\<exists>s'. init_connection demo_sqlite () 1 demo_st = Inr (True \<and> True \<and> True, s')
    \<and> fifo (st_world s') = fifo (st_world demo_st)
        @ stamped (clock (st_world demo_st)) (ticks (st_world demo_st))
            (if \<not> True then [msg_sql_unable]
             else msg_sql_connected # (if True \<and> True then [msg_new_table TABLE_NAME] else []))
    \<and> sql_live s' = (if True \<and> \<not> (True \<and> True) then Suc (sql_live demo_st) else sql_live demo_st)
    \<and> (True \<and> True \<and> True \<longrightarrow> st_db s' = [drop_sql demo_sqlite, create_sql demo_sqlite])
    \<and> world_ok (st_world s')"
    by (rule init_connection_spec[OF demo_st_ok, where ?db1.0 = "[]" and ?c2.0 = "()"
          and ?db2.0 = "[drop_sql demo_sqlite]" and ?c3.0 = "()"])
      (simp_all add: demo_sqlite_def demo_st_def drop_sql_def create_sql_def TABLE_NAME_def)
  then show ?thesis by (auto simp: demo_st_def)
qed

text \<open>
  C38: Without a database server the storage thread gives up after three attempts: it logs three times
  that it cannot connect and ends, with the shared buffer as it was. The gateway is not told.
\<close>

theorem storage_gives_up:
  assumes "world_ok (st_world s)" "\<forall>db. \<not> fst (sqlite3_open Q DB_NAME db)"
  shows "\<exists>s'. storagemgr_function D S Q c buffer others (s, B) = Inr (s', B)
    \<and> fifo (st_world s') = fifo (st_world s)
        @ stamped (clock (st_world s)) (ticks (st_world s)) (replicate 3 msg_sql_unable)"
proof -
  have step: "\<exists>s'. init_connection Q c 1 s = Inr (False, s') \<and> logs (st_world s) [msg_sql_unable] (st_world s')
      \<and> world_ok (st_world s')" if w: "world_ok (st_world s)" for s :: "'a st_state"
  proof -
    obtain db where db: "sqlite3_open Q DB_NAME (st_db s) = (False, db)"
      using assms(2) by (metis (full_types) fst_conv surj_pair)
    obtain w' where w': "st_log msg_sql_unable (s\<lparr>st_db := db\<rparr>) = Inr (s\<lparr>st_db := db, st_world := w'\<rparr>)"
      "logs (st_world s) [msg_sql_unable] w'" "world_ok w'"
      using st_log_ok[of "s\<lparr>st_db := db\<rparr>" msg_sql_unable] w by auto
    then show ?thesis using db by (simp add: init_connection_def close_db_def)
  qed
  obtain s1 where s1: "init_connection Q c 1 s = Inr (False, s1)"
    "logs (st_world s) [msg_sql_unable] (st_world s1)" "world_ok (st_world s1)"
    using step[OF assms(1)] by blast
  obtain s2 where s2: "init_connection Q c 1 s1 = Inr (False, s2)"
    "logs (st_world s1) [msg_sql_unable] (st_world s2)" "world_ok (st_world s2)"
    using step[OF s1(3)] by blast
  obtain s3 where s3: "init_connection Q c 1 s2 = Inr (False, s3)"
    "logs (st_world s2) [msg_sql_unable] (st_world s3)" "world_ok (st_world s3)"
    using step[OF s2(3)] by blast
  have "storagemgr_connect Q c s = Inr (False, s3)"
    using s1(1) s2(1) s3(1)
    by (simp add: storagemgr_connect_def numeral_3_eq_3)
  moreover have "logs (st_world s) (replicate 3 msg_sql_unable) (st_world s3)"
    using logs_append[OF logs_append[OF s1(2) s2(2)] s3(2)] by (simp add: numeral_3_eq_3)
  ultimately show ?thesis by (simp add: storagemgr_function_def logs_def)
qed

theorem storage_gives_up_witness:
  "\<exists>s'. storagemgr_function 1 2 no_server () (Some 0) [] (demo_st, demo_empty) = Inr (s', demo_empty)"
  using storage_gives_up[OF demo_st_ok, of no_server 1 2 "()" "Some 0" "[]" demo_empty]
  by (auto simp: no_server_def)

text \<open>
  C17: The storage manager's loop, with other threads appending to the buffer between its iterations,
  returns; the measurements it has taken, followed by those still unread, are all that were in the buffer
  or came, in order; and the database is what their INSERT statements make of it, each executed once in
  this order (a measurement with id 0 is not inserted).
\<close>

theorem storage_in_order:
  assumes "D \<noteq> S" "world_ok (st_world s)" "sb_inv b B" "appends b Storage_Reader others dss"
  shows "\<exists>s' B' ds. storagemgr_parse_sensor_data D S Q c (Some b) others (s, B) = Inr (s', B')
    \<and> ds @ sb_pending b Storage_Reader B' = sb_pending b Storage_Reader B @ concat dss
    \<and> st_db s' = fst (foldl (store_step Q c) (st_db s, sql_live s) ds) \<and> sb_inv b B'"
proof -
  have "D \<noteq> S \<and> st_R (Suc (0 + length others)) (st_db s, sql_live s) s"
    using assms(1,2) by (simp add: st_R_def)
  from st_reader.loop_in_order[OF this assms(3,4), of Q c] show ?thesis
    by (auto simp: storagemgr_parse_sensor_data_def storagemgr_loop_reader check_exit_def st_R_def)
qed

theorem storage_in_order_witness:
  "\<exists>s' B' ds. storagemgr_parse_sensor_data 1 2 demo_sqlite () (Some 0) [] (demo_st, demo_holding demo_data)
      = Inr (s', B') \<and> ds @ sb_pending 0 Storage_Reader B' = [demo_data]"
  using storage_in_order[of 1 2 demo_st 0 "demo_holding demo_data" "[]" "[]" demo_sqlite "()"]
    demo_st_ok demo_holding[where d = demo_data] by auto

text \<open>
  C34: Nothing stays behind while the thread runs: as many iterations as there are unread measurements
  store them all, and then the storage manager has nothing left to read.
\<close>

theorem storage_drains:
  assumes "D \<noteq> S" "world_ok (st_world s)" "sb_inv b B" "length (sb_pending b Storage_Reader B) \<le> Suc k"
  shows "\<exists>s' B'. storagemgr_parse_sensor_data D S Q c (Some b) (replicate k (\<lambda>B. B)) (s, B) = Inr (s', B')
    \<and> st_db s' = fst (foldl (store_step Q c) (st_db s, sql_live s) (sb_pending b Storage_Reader B))
    \<and> sb_pending b Storage_Reader B' = []"
proof -
  have "D \<noteq> S \<and> st_R (Suc (0 + k)) (st_db s, sql_live s) s" using assms(1,2) by (simp add: st_R_def)
  from st_reader.loop_drains[OF this assms(3,4), of Q c] show ?thesis
    by (auto simp: storagemgr_parse_sensor_data_def storagemgr_loop_reader check_exit_def st_R_def)
qed

theorem storage_drains_witness:
  "\<exists>s' B'. storagemgr_parse_sensor_data 1 2 demo_sqlite () (Some 0) [] (demo_st, demo_holding demo_data)
      = Inr (s', B') \<and> sb_pending 0 Storage_Reader B' = []"
  using storage_drains[of 1 2 demo_st 0 "demo_holding demo_data" 0 demo_sqlite "()"]
    demo_st_ok demo_holding[where d = demo_data] by auto

text \<open>
  C33: When the INSERT of a measurement fails, the measurement is lost: it is read from the buffer, the
  database stays as it was, the statement's string is never freed, and the loop goes on.
\<close>

theorem storage_failure_loses:
  assumes "D \<noteq> S" "world_ok (st_world s)" "sb_inv b B" "sb_pending b Storage_Reader B = d # q"
    and "id d \<noteq> 0" "sqlite3_exec Q (insert_sql Q (id d) (val d) (ts d)) None c (st_db s) = (False, c', st_db s)"
  shows "\<exists>s' B'. storagemgr_iteration D S Q c (Some b) (s, B) = Inr (s', B') \<and> st_db s' = st_db s
    \<and> sql_live s' = Suc (sql_live s) \<and> sb_pending b Storage_Reader B' = q"
proof -
  have "D \<noteq> S \<and> st_R (Suc 0) (st_db s, sql_live s) s" using assms(1,2) by (simp add: st_R_def)
  from st_reader.iteration[OF this assms(3), of Q c]
  obtain s' B' where "storagemgr_iteration D S Q c (Some b) (s, B) = Inr (s', B')"
    "st_R 0 (store_step Q c (st_db s, sql_live s) d) s'" "sb_pending b Storage_Reader B' = q"
    unfolding storagemgr_iteration_reader using assms(4) by auto
  then show ?thesis using assms(5,6) by (auto simp: st_R_def store_step_def)
qed

theorem storage_failure_loses_witness:
  "\<exists>s' B'. storagemgr_iteration 1 2 demo_sqlite () (Some 0) (demo_st, demo_holding demo_bad) = Inr (s', B')
    \<and> sql_live s' = 1 \<and> sb_pending 0 Storage_Reader B' = []"
proof -
  have "sqlite3_exec demo_sqlite (insert_sql demo_sqlite (id demo_bad) (val demo_bad) (ts demo_bad)) None ()
      (st_db demo_st) = (False, (), st_db demo_st)"
    by (simp add: demo_sqlite_def insert_sql_def demo_bad_def)
  then show ?thesis
    using storage_failure_loses[of 1 2 demo_st 0 "demo_holding demo_bad" demo_bad "[]" demo_sqlite "()" "()"]
      demo_st_ok demo_holding[where d = demo_bad] by (auto simp: demo_bad_def demo_st_def)
qed

end
