(* ===== verification/Tcpsock.thy ===== *)
theory Tcpsock
  imports Stdio Memory
begin

unbundle bit_operations_syntax

text \<open>
  TCP sockets (\<open>lib/tcpsock.h\<close>, \<open>lib/tcpsock.c\<close>). The system calls and \<open>inet_aton\<close> are the record \<open>sockapi\<close>,
  a parameter of the definitions; \<open>'n\<close> is the state of the system's network. Socket structures and the
  strings with IP addresses live in stores of their own (\<open>tcpmem\<close>).

  A parameter \<open>tcpsock_t **\<close> is \<open>None\<close> when it is \<open>NULL\<close> and \<open>Some p\<close> when the pointer it points to is \<open>p\<close>; the
  result holds that pointer as the function leaves it.
\<close>

section \<open>The system calls as a parameter\<close>

text \<open>
  Calls that return a status give a number, as in C: negative means failure. A port in a \<open>sockaddr_in\<close> is
  the number that the two bytes in network order denote, so that \<open>htons\<close> is the conversion to 16 bits.
\<close>

record sockaddr_in =
  sin_addr :: "32 word"
  sin_port :: "16 word"

datatype errno = EPIPE | ENOTCONN | Other_Errno

datatype recv_result = Received "byte list" | Recv_Failed errno
datatype send_result = Sent nat | Send_Failed errno

record 'n sockapi =
  sys_socket :: "'n \<Rightarrow> int \<times> 'n"
  sys_bind :: "int \<Rightarrow> sockaddr_in \<Rightarrow> 'n \<Rightarrow> int \<times> 'n"
  sys_listen :: "int \<Rightarrow> int \<Rightarrow> 'n \<Rightarrow> int \<times> 'n"
  sys_connect :: "int \<Rightarrow> sockaddr_in \<Rightarrow> 'n \<Rightarrow> int \<times> 'n"
  sys_getsockname :: "int \<Rightarrow> 'n \<Rightarrow> int \<times> sockaddr_in \<times> 'n"
  sys_accept :: "int \<Rightarrow> 'n \<Rightarrow> int \<times> sockaddr_in \<times> 'n"
  sys_sendto :: "int \<Rightarrow> byte list \<Rightarrow> 'n \<Rightarrow> send_result \<times> 'n"
  sys_recv :: "int \<Rightarrow> nat \<Rightarrow> 'n \<Rightarrow> recv_result \<times> 'n"
  sys_shutdown :: "int \<Rightarrow> 'n \<Rightarrow> int \<times> 'n"
  sys_close :: "int \<Rightarrow> 'n \<Rightarrow> int \<times> 'n"
  sys_getfl :: "int \<Rightarrow> 'n \<Rightarrow> int \<times> 'n"
  sys_setfl :: "int \<Rightarrow> int \<Rightarrow> 'n \<Rightarrow> int \<times> 'n"
  sys_select :: "int \<Rightarrow> int set \<Rightarrow> int \<Rightarrow> 'n \<Rightarrow> int \<times> int set \<times> 'n"
  inet_aton :: "string \<Rightarrow> 32 word option"

section \<open>Types\<close>

definition MIN_PORT :: int where "MIN_PORT = 1024"
definition MAX_PORT :: int where "MAX_PORT = 65536"
definition MAX_PENDING :: int where "MAX_PENDING = 10"

definition TCP_NO_ERROR :: int where "TCP_NO_ERROR = 0"
definition TCP_SOCKET_ERROR :: int where "TCP_SOCKET_ERROR = 1"
definition TCP_ADDRESS_ERROR :: int where "TCP_ADDRESS_ERROR = 2"
definition TCP_SOCKOP_ERROR :: int where "TCP_SOCKOP_ERROR = 3"
definition TCP_CONNECTION_CLOSED :: int where "TCP_CONNECTION_CLOSED = 4"
definition TCP_MEMORY_ERROR :: int where "TCP_MEMORY_ERROR = 5"

definition MAGIC_COOKIE :: int where "MAGIC_COOKIE = 0xA2E1CF37D35"
definition CHAR_IP_ADDR_LENGTH :: nat where "CHAR_IP_ADDR_LENGTH = 16"

record tcpsock_t =
  cookie :: int
  sock_sd :: int
  ip_addr :: ptr
  sock_port :: int

record 'n tcpmem =
  socks :: "tcpsock_t store"
  ips :: "string store"
  net :: 'n

definition INADDR_ANY :: "32 word" where "INADDR_ANY = 0"

definition htons :: "int \<Rightarrow> 16 word" where
  "htons port = of_int port"

text \<open>The bytes of an address in dotted decimal; the most significant byte comes first on the wire.\<close>

definition inet_ntoa :: "32 word \<Rightarrow> string" where
  "inet_ntoa a = dec (unat (drop_bit 24 a AND 255)) @ ''.'' @ dec (unat (drop_bit 16 a AND 255)) @ ''.''
     @ dec (unat (drop_bit 8 a AND 255)) @ ''.'' @ dec (unat (a AND 255))"

text \<open>The contents of a buffer of \<open>n\<close> bytes after \<open>strncpy\<close>: cut to \<open>n\<close> bytes, or filled up with NUL.\<close>

definition strncpy :: "nat \<Rightarrow> string \<Rightarrow> string" where
  "strncpy n s = take n s @ replicate (n - length s) (CHR 0x00)"

section \<open>Opening\<close>

definition tcp_sock_create :: "'n tcpmem \<Rightarrow> ptr \<times> 'n tcpmem" where
  "tcp_sock_create M = (case malloc \<lparr>cookie = 0, sock_sd = -1, ip_addr = NULL, sock_port = -1\<rparr> (socks M) of
      None \<Rightarrow> (NULL, M)
    | Some (s, S) \<Rightarrow> (Some s, M\<lparr>socks := S\<rparr>))"

definition set_sock :: "(tcpsock_t \<Rightarrow> tcpsock_t) \<Rightarrow> 'n tcpmem \<Rightarrow> ptr \<Rightarrow> 'n tcpmem res" where
  "set_sock f M s = bindR (assign f (socks M) s) (\<lambda>S. Inr (M\<lparr>socks := S\<rparr>))"

text \<open>The error branch \<open>free(s); return err\<close>; the pointer that the caller gave is not set.\<close>

definition sock_fail :: "'n tcpmem \<Rightarrow> ptr \<Rightarrow> ptr option \<Rightarrow> int \<Rightarrow> (int \<times> ptr option \<times> 'n tcpmem) res" where
  "sock_fail M s sock err = bindR (free (socks M) s) (\<lambda>S. Inr (err, sock, M\<lparr>socks := S\<rparr>))"

text \<open>\<open>*sock = s; return TCP_NO_ERROR\<close>.\<close>

definition sock_return :: "'n tcpmem \<Rightarrow> ptr \<Rightarrow> ptr option \<Rightarrow> (int \<times> ptr option \<times> 'n tcpmem) res" where
  "sock_return M s sock = (if sock = None then Inl Null_Deref else Inr (TCP_NO_ERROR, Some s, M))"

definition tcp_passive_open ::
  "'n sockapi \<Rightarrow> 'n tcpmem \<Rightarrow> ptr option \<Rightarrow> int \<Rightarrow> (int \<times> ptr option \<times> 'n tcpmem) res" where
  "tcp_passive_open K M sock port =
     (if port < MIN_PORT \<or> port > MAX_PORT then Inr (TCP_ADDRESS_ERROR, sock, M)
      else case tcp_sock_create M of
        (None, M) \<Rightarrow> Inr (TCP_MEMORY_ERROR, sock, M)
      | (s, M) \<Rightarrow>
          (let (sd, n) = sys_socket K (net M) in
           bindR (set_sock (\<lambda>x. x\<lparr>sock_sd := sd\<rparr>) (M\<lparr>net := n\<rparr>) s) (\<lambda>M.
           if sd < 0 then sock_fail M s sock TCP_SOCKOP_ERROR
           else
             (let (result, n) = sys_bind K sd \<lparr>sin_addr = INADDR_ANY, sin_port = htons port\<rparr> (net M);
                  M = M\<lparr>net := n\<rparr> in
              if result \<noteq> 0 then sock_fail M s sock TCP_SOCKOP_ERROR
              else
                (let (result, n) = sys_listen K sd MAX_PENDING (net M); M = M\<lparr>net := n\<rparr> in
                 if result \<noteq> 0 then sock_fail M s sock TCP_SOCKOP_ERROR
                 else
                   bindR (set_sock (\<lambda>x. x\<lparr>ip_addr := NULL\<rparr>) M s) (\<lambda>M.
                   bindR (set_sock (\<lambda>x. x\<lparr>sock_port := port\<rparr>) M s) (\<lambda>M.
                   bindR (set_sock (\<lambda>x. x\<lparr>cookie := MAGIC_COOKIE\<rparr>) M s) (\<lambda>M.
                   sock_return M s sock))))))))"

text \<open>
  The end of the other two opening functions: a string for the peer's address is allocated and filled,
  then the port and the cookie are set.
\<close>

definition sock_finish ::
  "'n tcpmem \<Rightarrow> ptr \<Rightarrow> sockaddr_in \<Rightarrow> ptr option \<Rightarrow> (int \<times> ptr option \<times> 'n tcpmem) res" where
  "sock_finish M s addr sock =
     (case malloc [] (ips M) of
        None \<Rightarrow> bindR (set_sock (\<lambda>x. x\<lparr>ip_addr := NULL\<rparr>) M s) (\<lambda>M. sock_fail M s sock TCP_MEMORY_ERROR)
      | Some (a, I) \<Rightarrow>
          bindR (set_sock (\<lambda>x. x\<lparr>ip_addr := Some a\<rparr>) (M\<lparr>ips := I\<rparr>) s) (\<lambda>M.
          bindR (assign (\<lambda>_. strncpy CHAR_IP_ADDR_LENGTH (inet_ntoa (sin_addr addr))) (ips M) (Some a)) (\<lambda>I.
          bindR (set_sock (\<lambda>x. x\<lparr>sock_port := uint (sin_port addr)\<rparr>) (M\<lparr>ips := I\<rparr>) s) (\<lambda>M.
          bindR (set_sock (\<lambda>x. x\<lparr>cookie := MAGIC_COOKIE\<rparr>) M s) (\<lambda>M.
          sock_return M s sock)))))"

definition tcp_active_open ::
  "'n sockapi \<Rightarrow> 'n tcpmem \<Rightarrow> ptr option \<Rightarrow> int \<Rightarrow> string option \<Rightarrow> (int \<times> ptr option \<times> 'n tcpmem) res" where
  "tcp_active_open K M sock remote_port remote_ip =
     (if remote_port < MIN_PORT \<or> remote_port > MAX_PORT then Inr (TCP_ADDRESS_ERROR, sock, M)
      else if remote_ip = None then Inr (TCP_ADDRESS_ERROR, sock, M)
      else case tcp_sock_create M of
        (None, M) \<Rightarrow> Inr (TCP_MEMORY_ERROR, sock, M)
      | (client, M) \<Rightarrow>
          (let (sd, n) = sys_socket K (net M) in
           bindR (set_sock (\<lambda>x. x\<lparr>sock_sd := sd\<rparr>) (M\<lparr>net := n\<rparr>) client) (\<lambda>M.
           if sd < 0 then sock_fail M client sock TCP_SOCKOP_ERROR
           else case inet_aton K (the remote_ip) of
             None \<Rightarrow> sock_fail M client sock TCP_ADDRESS_ERROR
           | Some ip \<Rightarrow>
               (let (result, n) = sys_connect K sd \<lparr>sin_addr = ip, sin_port = htons remote_port\<rparr> (net M);
                    M = M\<lparr>net := n\<rparr> in
                if result \<noteq> 0 then sock_fail M client sock TCP_SOCKOP_ERROR
                else
                  (let (result, addr, n) = sys_getsockname K sd (net M); M = M\<lparr>net := n\<rparr> in
                   if result \<noteq> 0 then sock_fail M client sock TCP_SOCKOP_ERROR
                   else sock_finish M client addr sock)))))"

text \<open>\<open>socket == NULL\<close> and \<open>socket->cookie != MAGIC_COOKIE\<close>, the two checks of the functions below.\<close>

definition sock_bound :: "'n tcpmem \<Rightarrow> ptr \<Rightarrow> tcpsock_t option res" where
  "sock_bound M socket =
     (if socket = NULL then Inr None
      else bindR (load (socks M) socket) (\<lambda>x.
        if cookie x \<noteq> MAGIC_COOKIE then Inr None else Inr (Some x)))"

definition tcp_wait_for_connection ::
  "'n sockapi \<Rightarrow> 'n tcpmem \<Rightarrow> ptr \<Rightarrow> ptr option \<Rightarrow> (int \<times> ptr option \<times> 'n tcpmem) res" where
  "tcp_wait_for_connection K M socket new_socket =
     bindR (sock_bound M socket) (\<lambda>r. case r of
       None \<Rightarrow> Inr (TCP_SOCKET_ERROR, new_socket, M)
     | Some x \<Rightarrow>
         (case tcp_sock_create M of
            (None, M) \<Rightarrow> Inr (TCP_MEMORY_ERROR, new_socket, M)
          | (s, M) \<Rightarrow>
              (let (sd, addr, n) = sys_accept K (sock_sd x) (net M) in
               bindR (set_sock (\<lambda>x. x\<lparr>sock_sd := sd\<rparr>) (M\<lparr>net := n\<rparr>) s) (\<lambda>M.
               if sd = -1 then sock_fail M s new_socket TCP_SOCKOP_ERROR
               else sock_finish M s addr new_socket))))"

section \<open>Closing\<close>

definition tcp_close :: "'n sockapi \<Rightarrow> 'n tcpmem \<Rightarrow> ptr option \<Rightarrow> (int \<times> ptr option \<times> 'n tcpmem) res" where
  "tcp_close K M socket = (case socket of
      None \<Rightarrow> Inr (TCP_SOCKET_ERROR, None, M)
    | Some None \<Rightarrow> Inr (TCP_SOCKET_ERROR, Some None, M)
    | Some (Some s) \<Rightarrow>
        bindR (load (socks M) (Some s)) (\<lambda>x.
        bindR (if cookie x = MAGIC_COOKIE then
                 bindR (if ip_addr x \<noteq> NULL then free (ips M) (ip_addr x) else Inr (ips M)) (\<lambda>I.
                 let M = M\<lparr>ips := I\<rparr> in
                 if 0 \<le> sock_sd x then
                   (let (result, n) = sys_shutdown K (sock_sd x) (net M) in
                    if result \<noteq> -1 then Inr (M\<lparr>net := snd (sys_close K (sock_sd x) n)\<rparr>)
                    else Inr (M\<lparr>net := n\<rparr>))
                 else Inr M)
               else Inr M) (\<lambda>M.
        bindR (set_sock (\<lambda>x. x\<lparr>cookie := 0, sock_port := -1, sock_sd := -1, ip_addr := NULL\<rparr>) M (Some s)) (\<lambda>M.
        bindR (free (socks M) (Some s)) (\<lambda>S.
        Inr (TCP_NO_ERROR, Some NULL, M\<lparr>socks := S\<rparr>))))))"

section \<open>Sending and receiving\<close>

text \<open>
  The result is the code, \<open>*buf_size\<close> afterwards, and the memory. \<open>buf_size\<close> is \<open>None\<close> for a \<open>NULL\<close> pointer,
  which the code dereferences. The system is asked to send \<open>*buf_size\<close> bytes of the buffer.
\<close>

definition tcp_send ::
  "'n sockapi \<Rightarrow> 'n tcpmem \<Rightarrow> ptr \<Rightarrow> byte list option \<Rightarrow> int option \<Rightarrow> (int \<times> int option \<times> 'n tcpmem) res" where
  "tcp_send K M socket buffer buf_size =
     bindR (sock_bound M socket) (\<lambda>r. case r of
       None \<Rightarrow> Inr (TCP_SOCKET_ERROR, buf_size, M)
     | Some x \<Rightarrow>
         (case (buffer, buf_size) of
            (_, None) \<Rightarrow> Inl Null_Deref
          | (None, Some _) \<Rightarrow> Inr (TCP_NO_ERROR, Some 0, M)
          | (Some bs, Some len) \<Rightarrow>
              if len < 0 \<or> int (length bs) < len then Inl Bad_Pointer
              else (case sys_sendto K (sock_sd x) (take (nat len) bs) (net M) of
                (Sent k, n) \<Rightarrow>
                  Inr (if k = 0 then TCP_CONNECTION_CLOSED else TCP_NO_ERROR, Some (int k), M\<lparr>net := n\<rparr>)
              | (Send_Failed e, n) \<Rightarrow>
                  Inr (if e = EPIPE \<or> e = ENOTCONN then TCP_CONNECTION_CLOSED else TCP_SOCKOP_ERROR,
                    Some (-1), M\<lparr>net := n\<rparr>))))"

text \<open>
  \<open>buffer\<close> is what the buffer holds before the call; the result has it afterwards, with the bytes that
  have come written over its beginning. The system gives at most as many as it was asked for.
\<close>

definition recv_into :: "byte list \<Rightarrow> byte list \<Rightarrow> byte list" where
  "recv_into bs old = bs @ drop (length bs) old"

definition tcp_receive ::
  "'n sockapi \<Rightarrow> 'n tcpmem \<Rightarrow> ptr \<Rightarrow> byte list option \<Rightarrow> int option
   \<Rightarrow> (int \<times> byte list option \<times> int option \<times> 'n tcpmem) res" where
  "tcp_receive K M socket buffer buf_size =
     bindR (sock_bound M socket) (\<lambda>r. case r of
       None \<Rightarrow> Inr (TCP_SOCKET_ERROR, buffer, buf_size, M)
     | Some x \<Rightarrow>
         (case (buffer, buf_size) of
            (_, None) \<Rightarrow> Inl Null_Deref
          | (None, Some _) \<Rightarrow> Inr (TCP_NO_ERROR, buffer, Some 0, M)
          | (Some old, Some len) \<Rightarrow>
              if len < 0 \<or> int (length old) < len then Inl Bad_Pointer
              else (case sys_recv K (sock_sd x) (nat len) (net M) of
                (Received bs, n) \<Rightarrow>
                  (let bs = take (nat len) bs in
                   Inr (if bs = [] then TCP_CONNECTION_CLOSED else TCP_NO_ERROR,
                     Some (recv_into bs old), Some (int (length bs)), M\<lparr>net := n\<rparr>))
              | (Recv_Failed e, n) \<Rightarrow>
                  Inr (if e = ENOTCONN then TCP_CONNECTION_CLOSED else TCP_SOCKOP_ERROR,
                    Some old, Some (-1), M\<lparr>net := n\<rparr>))))"

section \<open>Access\<close>

text \<open>The last parameter is the caller's variable before the call, and the second result after it.\<close>

definition tcp_get_ip_addr :: "'n tcpmem \<Rightarrow> ptr \<Rightarrow> ptr \<Rightarrow> (int \<times> ptr) res" where
  "tcp_get_ip_addr M socket ip =
     bindR (sock_bound M socket) (\<lambda>r. case r of
       None \<Rightarrow> Inr (TCP_SOCKET_ERROR, ip)
     | Some x \<Rightarrow> Inr (TCP_NO_ERROR, ip_addr x))"

definition tcp_get_port :: "'n tcpmem \<Rightarrow> ptr \<Rightarrow> int \<Rightarrow> (int \<times> int) res" where
  "tcp_get_port M socket port =
     bindR (sock_bound M socket) (\<lambda>r. case r of
       None \<Rightarrow> Inr (TCP_SOCKET_ERROR, port)
     | Some x \<Rightarrow> Inr (TCP_NO_ERROR, sock_port x))"

definition tcp_get_sd :: "'n tcpmem \<Rightarrow> ptr \<Rightarrow> int \<Rightarrow> (int \<times> int) res" where
  "tcp_get_sd M socket sd =
     bindR (sock_bound M socket) (\<lambda>r. case r of
       None \<Rightarrow> Inr (TCP_SOCKET_ERROR, sd)
     | Some x \<Rightarrow> Inr (TCP_NO_ERROR, sock_sd x))"

end
