(* ===== verification/Tcpsock_Rep.thy ===== *)
theory Tcpsock_Rep
  imports Tcpsock
begin

text \<open>
  What \<open>lib/tcpsock.c\<close> promises to its clients. \<open>live M\<close> maps the open sockets to their descriptors and
  \<open>sk_ok\<close> is the invariant of the two stores: every socket structure is bound, and the address strings
  are exactly those of the sockets, each belonging to one of them, so nothing has leaked. The interface
  \<open>socket_table\<close> states the contract; it is interpreted on the functions of \<open>tcpsock.c\<close>.
\<close>

section \<open>The invariant\<close>

definition live :: "'n tcpmem \<Rightarrow> addr \<rightharpoonup> int" where
  "live M = (\<lambda>s. map_option sock_sd (cells (socks M) s))"

text \<open>The strings owned by the sockets: \<open>ip_of m s\<close> is the one of the socket at \<open>s\<close>.\<close>

definition ip_of :: "(addr \<rightharpoonup> tcpsock_t) \<Rightarrow> addr \<rightharpoonup> addr" where
  "ip_of m s = (case m s of None \<Rightarrow> None | Some x \<Rightarrow> ip_addr x)"

definition ip_owned :: "(addr \<rightharpoonup> tcpsock_t) \<Rightarrow> (addr \<rightharpoonup> string) \<Rightarrow> bool" where
  "ip_owned m i \<longleftrightarrow> dom i = ran (ip_of m) \<and> inj_on (ip_of m) (dom (ip_of m))"

definition sk_ok :: "'n tcpmem \<Rightarrow> bool" where
  "sk_ok M \<longleftrightarrow> wf_store (socks M) \<and> wf_store (ips M)
     \<and> (\<forall>s x. cells (socks M) s = Some x \<longrightarrow> cookie x = MAGIC_COOKIE)
     \<and> ip_owned (cells (socks M)) (cells (ips M))"

lemma sk_ok_net [simp]: "sk_ok (M\<lparr>net := n\<rparr>) = sk_ok M"
  by (simp add: sk_ok_def)

lemma live_net [simp]: "live (M\<lparr>net := n\<rparr>) = live M"
  by (simp add: live_def)

lemma ip_of_upd [simp]: "ip_of (m(s := v)) = (ip_of m)(s := (case v of None \<Rightarrow> None | Some x \<Rightarrow> ip_addr x))"
  by (rule ext) (simp add: ip_of_def)

lemma ip_of_None: "m s = None \<Longrightarrow> ip_of m s = None"
  by (simp add: ip_of_def)

lemma ran_unset:
  assumes "inj_on g (dom g)" "g s = Some a"
  shows "ran (g(s := None)) = ran g - {a}"
proof (intro equalityI subsetI)
  fix b assume b: "b \<in> ran g - {a}"
  then obtain t where t: "g t = Some b" unfolding ran_def by auto
  then have "t \<noteq> s" using b assms(2) by auto
  then show "b \<in> ran (g(s := None))" using t by (auto simp: ran_def intro!: exI[of _ t])
qed (use assms in \<open>auto simp: ran_def inj_on_def dom_def split: if_splits\<close>)

lemma inj_unset: "inj_on g (dom g) \<Longrightarrow> inj_on (g(s := None)) (dom (g(s := None)))"
  by (auto simp: inj_on_def)

lemma inj_set: "inj_on g (dom g) \<Longrightarrow> a \<notin> ran g \<Longrightarrow> inj_on (g(s \<mapsto> a)) (dom (g(s \<mapsto> a)))"
  by (auto simp: inj_on_def ran_def)

lemma ip_owned_new:
  "ip_owned m i \<Longrightarrow> m s = None \<Longrightarrow> i a = None \<Longrightarrow> ip_addr x = Some a \<Longrightarrow> ip_owned (m(s \<mapsto> x)) (i(a \<mapsto> v))"
  using inj_set[of "ip_of m" a s] by (auto simp: ip_owned_def ip_of_None)

lemma ip_owned_new_plain:
  "ip_owned m i \<Longrightarrow> m s = None \<Longrightarrow> ip_addr x = None \<Longrightarrow> ip_owned (m(s \<mapsto> x)) i"
  using inj_unset[of "ip_of m" s] by (simp add: ip_owned_def ip_of_None fun_upd_idem)

lemma ip_owned_close:
  assumes "ip_owned m i" "m s = Some x"
  shows "ip_owned (m(s := None)) (case ip_addr x of None \<Rightarrow> i | Some a \<Rightarrow> i(a := None))"
proof (cases "ip_addr x")
  case None
  then have "ip_of m s = None" using assms(2) by (simp add: ip_of_def)
  then show ?thesis using assms None by (simp add: ip_owned_def fun_upd_idem)
next
  case (Some a)
  then have "ip_of m s = Some a" using assms(2) by (simp add: ip_of_def)
  then show ?thesis using assms Some ran_unset[of "ip_of m" s a] inj_unset[of "ip_of m" s]
    by (simp add: ip_owned_def)
qed

lemma ip_owned_mem: "ip_owned m i \<Longrightarrow> m s = Some x \<Longrightarrow> ip_addr x = Some a \<Longrightarrow> \<exists>v. i a = Some v"
  using ranI[of "ip_of m" s a] by (auto simp: ip_owned_def ip_of_def)

text \<open>So there are no more strings than sockets.\<close>

lemma strings_le_sockets:
  assumes "sk_ok M" "finite (dom (cells (socks M)))"
  shows "card (dom (cells (ips M))) \<le> card (dom (cells (socks M)))"
proof (rule surj_card_le[OF assms(2)])
  show "dom (cells (ips M)) \<subseteq> (\<lambda>a. the (ip_of (cells (socks M)) a)) ` dom (cells (socks M))"
    using assms(1) by (force simp: sk_ok_def ip_owned_def ran_def ip_of_def split: option.splits)
qed

section \<open>Closing and opening\<close>

lemma set_sock_Some [mem_simps]:
  "cells (socks M) s = Some v
   \<Longrightarrow> set_sock f M (Some s) = Inr (M\<lparr>socks := (socks M)\<lparr>cells := (cells (socks M))(s \<mapsto> f v)\<rparr>\<rparr>)"
  by (simp add: set_sock_def mem_simps)

lemma tcp_close_cases:
  assumes ok: "sk_ok M" and s: "cells (socks M) s = Some x"
  shows "\<exists>M'. tcp_close K M (Some (Some s)) = Inr (TCP_NO_ERROR, Some NULL, M') \<and> sk_ok M'
    \<and> live M' = (live M)(s := None)
    \<and> net M' = (if sock_sd x < 0 then net M
        else let (result, n) = sys_shutdown K (sock_sd x) (net M)
             in if result \<noteq> -1 then snd (sys_close K (sock_sd x) n) else n)
    \<and> msize (socks M') = msize (socks M) \<and> msize (ips M') = msize (ips M)"
proof -
  have ck: "cookie x = MAGIC_COOKIE" and wf: "wf_store (socks M)" "wf_store (ips M)"
    and own: "ip_owned (cells (socks M)) (cells (ips M))"
    using ok s by (simp_all add: sk_ok_def)
  define n' where "n' = (if sock_sd x < 0 then net M
        else let (result, n) = sys_shutdown K (sock_sd x) (net M)
             in if result \<noteq> -1 then snd (sys_close K (sock_sd x) n) else n)"
  define I where "I = (case ip_addr x of None \<Rightarrow> ips M
     | Some a \<Rightarrow> (ips M)\<lparr>cells := (cells (ips M))(a := None), avail := a # avail (ips M)\<rparr>)"
  have I: "(if ip_addr x \<noteq> NULL then free (ips M) (ip_addr x) else Inr (ips M)) = Inr I"
    using ip_owned_mem[OF own s] by (cases "ip_addr x") (auto simp: I_def mem_simps)
  have wfI: "wf_store I"
    using wf ip_owned_mem[OF own s] by (cases "ip_addr x") (auto simp: I_def intro!: wf_release)
  define S where "S = (socks M)\<lparr>cells := (cells (socks M))(s := None), avail := s # avail (socks M)\<rparr>"
  have "tcp_close K M (Some (Some s)) = Inr (TCP_NO_ERROR, Some NULL, M\<lparr>socks := S, ips := I, net := n'\<rparr>)"
    using ck I s by (simp add: tcp_close_def mem_simps Let_def n'_def case_prod_beta S_def)
  moreover have "sk_ok (M\<lparr>socks := S, ips := I, net := n'\<rparr>)"
    using ok ip_owned_close[OF own s] wfI wf(1) s
    by (cases "ip_addr x") (auto simp: sk_ok_def S_def I_def intro!: wf_release)
  moreover have "live (M\<lparr>socks := S, ips := I, net := n'\<rparr>) = (live M)(s := None)"
    by (auto simp: live_def S_def)
  moreover have "msize S = msize (socks M)" "msize I = msize (ips M)"
    by (simp_all add: S_def I_def split: option.split)
  ultimately show ?thesis unfolding n'_def by auto
qed

lemma sk_ok_fresh:
  assumes "sk_ok M" "avail (socks M) = s # as"
  shows "cells (socks M) s = None"
    and "\<And>x. wf_store ((socks M)\<lparr>cells := (cells (socks M))(s \<mapsto> x), avail := as\<rparr>)"
proof -
  have m: "\<And>x. malloc x (socks M) = Some (s, (socks M)\<lparr>cells := (cells (socks M))(s \<mapsto> x), avail := as\<rparr>)"
    using assms(2) by (simp add: malloc_def)
  show "\<And>x. wf_store ((socks M)\<lparr>cells := (cells (socks M))(s \<mapsto> x), avail := as\<rparr>)"
    using wf_malloc[OF _ m] assms(1) by (simp add: sk_ok_def)
  show "cells (socks M) s = None" using wf_malloc_fresh[OF _ m] assms(1) by (auto simp: sk_ok_def)
qed

lemma sock_fail_Some [mem_simps]:
  "cells (socks M) s = Some x \<Longrightarrow> sock_fail M (Some s) sock err = Inr (err, sock,
     M\<lparr>socks := (socks M)\<lparr>cells := (cells (socks M))(s := None), avail := s # avail (socks M)\<rparr>\<rparr>)"
  by (simp add: sock_fail_def mem_simps)

lemma tcp_passive_open_cases:
  assumes ok: "sk_ok M"
    and s: "sys_socket K (net M) = (sd, n1)"
    and b: "sys_bind K sd \<lparr>sin_addr = INADDR_ANY, sin_port = htons port\<rparr> n1 = (rb, n2)"
    and l: "sys_listen K sd MAX_PENDING n2 = (rl, n3)"
  shows "tcp_passive_open K M (Some p) port =
    (if port < MIN_PORT \<or> MAX_PORT < port then Inr (TCP_ADDRESS_ERROR, Some p, M)
     else if avail (socks M) = [] then Inr (TCP_MEMORY_ERROR, Some p, M)
     else if sd < 0 then Inr (TCP_SOCKOP_ERROR, Some p, M\<lparr>net := n1\<rparr>)
     else if rb \<noteq> 0 then Inr (TCP_SOCKOP_ERROR, Some p, M\<lparr>net := n2\<rparr>)
     else if rl \<noteq> 0 then Inr (TCP_SOCKOP_ERROR, Some p, M\<lparr>net := n3\<rparr>)
     else Inr (TCP_NO_ERROR, Some (Some (hd (avail (socks M)))), M\<lparr>net := n3,
       socks := (socks M)\<lparr>cells := (cells (socks M))(hd (avail (socks M)) \<mapsto>
         \<lparr>cookie = MAGIC_COOKIE, sock_sd = sd, ip_addr = NULL, sock_port = port\<rparr>),
         avail := tl (avail (socks M))\<rparr>\<rparr>))"
proof (cases "avail (socks M)")
  case Nil
  then show ?thesis by (simp add: tcp_passive_open_def tcp_sock_create_def malloc_def)
next
  case (Cons a as)
  then show ?thesis using s b l sk_ok_fresh(1)[OF ok Cons]
    by (auto simp: tcp_passive_open_def tcp_sock_create_def malloc_def mem_simps sock_return_def Let_def
        fun_upd_idem intro!: tcpmem.equality store.equality)
qed

lemma sock_finish_new:
  assumes ok: "sk_ok M" and av: "avail (socks M) = s # as"
    and x: "x = \<lparr>cookie = 0, sock_sd = sd, ip_addr = NULL, sock_port = -1\<rparr>"
  shows "sock_finish (M\<lparr>socks := (socks M)\<lparr>cells := (cells (socks M))(s \<mapsto> x), avail := as\<rparr>, net := n\<rparr>)
      (Some s) addr (Some p)
    = (case avail (ips M) of
        [] \<Rightarrow> Inr (TCP_MEMORY_ERROR, Some p, M\<lparr>net := n\<rparr>)
      | a # is \<Rightarrow> Inr (TCP_NO_ERROR, Some (Some s), M\<lparr>net := n,
          socks := (socks M)\<lparr>cells := (cells (socks M))(s \<mapsto> \<lparr>cookie = MAGIC_COOKIE, sock_sd = sd,
            ip_addr = Some a, sock_port = uint (sin_port addr)\<rparr>), avail := as\<rparr>,
          ips := (ips M)\<lparr>cells := (cells (ips M))(a \<mapsto> strncpy CHAR_IP_ADDR_LENGTH (inet_ntoa (sin_addr addr))),
            avail := is\<rparr>\<rparr>))"
  using sk_ok_fresh(1)[OF ok av] av
  by (auto simp: sock_finish_def malloc_def mem_simps sock_return_def x fun_upd_idem
      intro!: tcpmem.equality store.equality split: list.splits)

lemma tcp_active_open_cases:
  assumes ok: "sk_ok M"
    and s: "sys_socket K (net M) = (sd, n1)"
    and cn: "sys_connect K sd \<lparr>sin_addr = the (inet_aton K ip), sin_port = htons port\<rparr> n1 = (rc, n2)"
    and g: "sys_getsockname K sd n2 = (rg, addr, n3)"
  shows "tcp_active_open K M (Some p) port (Some ip) =
    (if port < MIN_PORT \<or> MAX_PORT < port then Inr (TCP_ADDRESS_ERROR, Some p, M)
     else case avail (socks M) of [] \<Rightarrow> Inr (TCP_MEMORY_ERROR, Some p, M)
     | s # as \<Rightarrow>
        if sd < 0 then Inr (TCP_SOCKOP_ERROR, Some p, M\<lparr>net := n1\<rparr>)
        else if inet_aton K ip = None then Inr (TCP_ADDRESS_ERROR, Some p, M\<lparr>net := n1\<rparr>)
        else if rc \<noteq> 0 then Inr (TCP_SOCKOP_ERROR, Some p, M\<lparr>net := n2\<rparr>)
        else if rg \<noteq> 0 then Inr (TCP_SOCKOP_ERROR, Some p, M\<lparr>net := n3\<rparr>)
        else sock_finish (M\<lparr>socks := (socks M)\<lparr>cells := (cells (socks M))(s \<mapsto>
            \<lparr>cookie = 0, sock_sd = sd, ip_addr = NULL, sock_port = -1\<rparr>), avail := as\<rparr>, net := n3\<rparr>)
          (Some s) addr (Some p))"
proof (cases "avail (socks M)")
  case Nil
  then show ?thesis by (simp add: tcp_active_open_def tcp_sock_create_def malloc_def)
next
  case (Cons a as)
  show ?thesis
  proof (cases "inet_aton K ip")
    case None
    then show ?thesis using s Cons sk_ok_fresh(1)[OF ok Cons]
      by (auto simp: tcp_active_open_def tcp_sock_create_def malloc_def mem_simps Let_def
          fun_upd_idem intro!: tcpmem.equality store.equality)
  next
    case (Some b)
    have M: "M\<lparr>net := n, socks := (socks M)\<lparr>avail := as, cells := (cells (socks M))(a \<mapsto> y)\<rparr>\<rparr>
        = M\<lparr>socks := (socks M)\<lparr>cells := (cells (socks M))(a \<mapsto> y), avail := as\<rparr>, net := n\<rparr>"
      "M\<lparr>socks := (socks M)\<lparr>avail := as, cells := (cells (socks M))(a \<mapsto> y)\<rparr>, net := n\<rparr>
        = M\<lparr>socks := (socks M)\<lparr>cells := (cells (socks M))(a \<mapsto> y), avail := as\<rparr>, net := n\<rparr>" for n y by simp_all
    from Some show ?thesis using s cn g Cons sk_ok_fresh(1)[OF ok Cons]
      by (auto simp: tcp_active_open_def tcp_sock_create_def malloc_def mem_simps Let_def
          fun_upd_idem M intro!: tcpmem.equality store.equality)
  qed
qed

text \<open>The outcomes of accepting a connection on a bound socket.\<close>

lemma tcp_wait_cases:
  assumes ok: "sk_ok M" and l: "cells (socks M) l = Some x"
    and acc: "sys_accept K (sock_sd x) (net M) = (sd, addr, n)"
  shows "tcp_wait_for_connection K M (Some l) (Some p) =
    (case avail (socks M) of [] \<Rightarrow> Inr (TCP_MEMORY_ERROR, Some p, M)
     | s # as \<Rightarrow>
        if sd = -1 then Inr (TCP_SOCKOP_ERROR, Some p, M\<lparr>net := n\<rparr>)
        else case avail (ips M) of
          [] \<Rightarrow> Inr (TCP_MEMORY_ERROR, Some p, M\<lparr>net := n\<rparr>)
        | a # is \<Rightarrow> Inr (TCP_NO_ERROR, Some (Some s), M\<lparr>net := n,
            socks := (socks M)\<lparr>cells := (cells (socks M))(s \<mapsto> \<lparr>cookie = MAGIC_COOKIE, sock_sd = sd,
              ip_addr = Some a, sock_port = uint (sin_port addr)\<rparr>), avail := as\<rparr>,
            ips := (ips M)\<lparr>cells := (cells (ips M))(a \<mapsto> strncpy CHAR_IP_ADDR_LENGTH (inet_ntoa (sin_addr addr))),
              avail := is\<rparr>\<rparr>))"
proof -
  have ck: "cookie x = MAGIC_COOKIE" using ok l by (simp add: sk_ok_def)
  have bound: "sock_bound M (Some l) = Inr (Some x)" using ck l by (simp add: sock_bound_def mem_simps)
  show ?thesis
  proof (cases "avail (socks M)")
    case Nil
    then show ?thesis using bound by (simp add: tcp_wait_for_connection_def tcp_sock_create_def malloc_def)
  next
    case (Cons s as)
    define y where "y = \<lparr>cookie = 0, sock_sd = sd, ip_addr = NULL, sock_port = -1\<rparr>"
    let ?M = "M\<lparr>socks := (socks M)\<lparr>cells := (cells (socks M))(s \<mapsto> y), avail := as\<rparr>, net := n\<rparr>"
    have M: "M\<lparr>net := n, socks := (socks M)\<lparr>avail := as, cells := (cells (socks M))(s \<mapsto> y)\<rparr>\<rparr>
        = M\<lparr>socks := (socks M)\<lparr>cells := (cells (socks M))(s \<mapsto> y), avail := as\<rparr>, net := n\<rparr>" for y by simp
    have "tcp_wait_for_connection K M (Some l) (Some p)
        = (if sd = -1 then sock_fail ?M (Some s) (Some p) TCP_SOCKOP_ERROR
           else sock_finish ?M (Some s) addr (Some p))"
      using bound acc Cons
      by (simp add: M tcp_wait_for_connection_def tcp_sock_create_def malloc_def mem_simps y_def)
    moreover have "sock_fail ?M (Some s) (Some p) TCP_SOCKOP_ERROR = Inr (TCP_SOCKOP_ERROR, Some p, M\<lparr>net := n\<rparr>)"
      using sk_ok_fresh(1)[OF ok Cons] Cons
      by (auto simp: mem_simps fun_upd_idem intro!: tcpmem.equality store.equality)
    ultimately show ?thesis
      using sock_finish_new[OF ok Cons y_def, of n addr p] Cons by simp
  qed
qed

text \<open>What a new socket with an address string is for the invariant.\<close>

lemma new_sock_ok:
  assumes ok: "sk_ok M" and av: "avail (socks M) = s # as" "avail (ips M) = a # is"
    and y: "cookie y = MAGIC_COOKIE" "ip_addr y = Some a"
    and M': "M' = M\<lparr>net := n, socks := (socks M)\<lparr>cells := (cells (socks M))(s \<mapsto> y), avail := as\<rparr>,
      ips := (ips M)\<lparr>cells := (cells (ips M))(a \<mapsto> v), avail := is\<rparr>\<rparr>"
  shows "sk_ok M'" "live M s = None" "live M' = (live M)(s \<mapsto> sock_sd y)" "cells (ips M) a = None"
proof -
  note fresh = sk_ok_fresh[OF ok av(1)]
  have m: "malloc v (ips M) = Some (a, (ips M)\<lparr>cells := (cells (ips M))(a \<mapsto> v), avail := is\<rparr>)"
    using av(2) by (simp add: malloc_def)
  have i: "cells (ips M) a = None" "wf_store ((ips M)\<lparr>cells := (cells (ips M))(a \<mapsto> v), avail := is\<rparr>)"
    using wf_malloc_fresh[OF _ m] wf_malloc[OF _ m] ok by (auto simp: sk_ok_def)
  have "ip_owned ((cells (socks M))(s \<mapsto> y)) ((cells (ips M))(a \<mapsto> v))"
    using ok fresh(1) i(1) y by (intro ip_owned_new) (simp_all add: sk_ok_def)
  then show "sk_ok M'" using ok fresh(2) i(2) y(1) by (simp add: sk_ok_def M')
  show "live M s = None" "live M' = (live M)(s \<mapsto> sock_sd y)" using fresh(1) by (auto simp: live_def M')
  show "cells (ips M) a = None" by (rule i(1))
qed

lemma tcp_wait_ok:
  assumes ok: "sk_ok M" and l: "live M l = Some lsd"
    and acc: "sys_accept K lsd (net M) = (sd, addr, n)"
  obtains c q M' where "tcp_wait_for_connection K M (Some l) (Some p) = Inr (c, Some q, M')" "sk_ok M'"
    "net M' = (if avail (socks M) = [] then net M else n)"
    "c = (if avail (socks M) = [] then TCP_MEMORY_ERROR else if sd = -1 then TCP_SOCKOP_ERROR
          else if avail (ips M) = [] then TCP_MEMORY_ERROR else TCP_NO_ERROR)"
    "c = TCP_NO_ERROR \<Longrightarrow> q = Some (hd (avail (socks M))) \<and> live M (hd (avail (socks M))) = None
      \<and> live M' = (live M)(hd (avail (socks M)) \<mapsto> sd)"
    "c \<noteq> TCP_NO_ERROR \<Longrightarrow> q = p \<and> live M' = live M"
    "msize (socks M') = msize (socks M)" "msize (ips M') = msize (ips M)"
proof -
  obtain x where x: "cells (socks M) l = Some x" "sock_sd x = lsd" using l by (auto simp: live_def)
  note w = tcp_wait_cases[OF ok x(1), of K sd addr n p, unfolded x(2), OF acc]
  consider "avail (socks M) = []" | "avail (socks M) \<noteq> []" "sd = -1 \<or> avail (ips M) = []"
    | (good) "avail (socks M) \<noteq> []" "sd \<noteq> -1" "avail (ips M) \<noteq> []" by blast
  then show ?thesis
  proof cases
    case 1
    then show ?thesis using w ok that[of TCP_MEMORY_ERROR p M] by (simp add: TCP_NO_ERROR_def TCP_MEMORY_ERROR_def)
  next
    case 2
    then have "tcp_wait_for_connection K M (Some l) (Some p)
        = Inr (if sd = -1 then TCP_SOCKOP_ERROR else TCP_MEMORY_ERROR, Some p, M\<lparr>net := n\<rparr>)"
      using w by (cases "avail (socks M)") auto
    then show ?thesis
      by (rule that)
        (use 2 ok in \<open>auto simp: TCP_NO_ERROR_def TCP_MEMORY_ERROR_def TCP_SOCKOP_ERROR_def split: if_splits\<close>)
  next
    case good
    then obtain s as a "is" where av: "avail (socks M) = s # as" "avail (ips M) = a # is" and sd: "sd \<noteq> -1"
      by (cases "avail (socks M)"; cases "avail (ips M)") auto
    define y where "y = \<lparr>cookie = MAGIC_COOKIE, sock_sd = sd, ip_addr = Some a, sock_port = uint (sin_port addr)\<rparr>"
    define v where "v = strncpy CHAR_IP_ADDR_LENGTH (inet_ntoa (sin_addr addr))"
    define M' where "M' = M\<lparr>net := n, socks := (socks M)\<lparr>cells := (cells (socks M))(s \<mapsto> y), avail := as\<rparr>,
      ips := (ips M)\<lparr>cells := (cells (ips M))(a \<mapsto> v), avail := is\<rparr>\<rparr>"
    have r: "tcp_wait_for_connection K M (Some l) (Some p) = Inr (TCP_NO_ERROR, Some (Some s), M')"
      using w av sd by (simp add: M'_def y_def v_def)
    have "sk_ok M'" "live M s = None" "live M' = (live M)(s \<mapsto> sd)"
      using new_sock_ok[OF ok av _ _ M'_def] by (simp_all add: y_def)
    moreover have "net M' = n" "msize (socks M') = msize (socks M)" "msize (ips M') = msize (ips M)"
      by (simp_all add: M'_def)
    ultimately show ?thesis by (intro that[OF r]) (use av sd in simp_all)
  qed
qed

section \<open>The other operations\<close>

lemma sock_bound_live: "sk_ok M \<Longrightarrow> live M s = Some d \<Longrightarrow> \<exists>x. sock_bound M (Some s) = Inr (Some x) \<and> sock_sd x = d"
  by (auto simp: live_def sk_ok_def sock_bound_def mem_simps)

lemma tcp_get_sd_live: "sk_ok M \<Longrightarrow> live M s = Some d \<Longrightarrow> tcp_get_sd M (Some s) old = Inr (TCP_NO_ERROR, d)"
  using sock_bound_live[of M s d] by (auto simp: tcp_get_sd_def)

text \<open>Receiving \<open>k\<close> bytes into a buffer of as many, for any outcome of the system call.\<close>

definition recv_effect :: "recv_result \<Rightarrow> byte list \<Rightarrow> int \<times> byte list \<times> int" where
  "recv_effect r old = (case r of
      Received bs \<Rightarrow> (let bs = take (length old) bs in
        (if bs = [] then TCP_CONNECTION_CLOSED else TCP_NO_ERROR, recv_into bs old, int (length bs)))
    | Recv_Failed e \<Rightarrow> (if e = ENOTCONN then TCP_CONNECTION_CLOSED else TCP_SOCKOP_ERROR, old, -1))"

lemma tcp_receive_live:
  assumes "sk_ok M" "live M s = Some d" "sys_recv K d (length old) (net M) = (r, n)"
  shows "tcp_receive K M (Some s) (Some old) (Some (int (length old)))
    = (case recv_effect r old of (c, buf, k) \<Rightarrow> Inr (c, Some buf, Some k, M\<lparr>net := n\<rparr>))"
  using sock_bound_live[OF assms(1,2)] assms(3)
  by (auto simp: tcp_receive_def recv_effect_def Let_def split: recv_result.split)

lemma recv_into_length: "length bs \<le> length old \<Longrightarrow> length (recv_into bs old) = length old"
  by (simp add: recv_into_def)

lemma recv_effect_length: "recv_effect r old = (c, buf, k) \<Longrightarrow> length buf = length old"
  by (auto simp: recv_effect_def recv_into_length Let_def split: recv_result.splits)

lemma recv_effect_all: "recv_effect (Received bs) old = (TCP_NO_ERROR, bs, int (length bs))"
  if "length bs = length old" "bs \<noteq> []"
  using that by (simp add: recv_effect_def recv_into_def Let_def)

section \<open>The interface\<close>

text \<open>
  A server's calls: \<open>True\<close> accepts a connection, \<open>False\<close> closes the one accepted first that is still open.
  The list holds the accepted sockets that are open.
\<close>

fun serve ::
  "('m \<Rightarrow> addr \<Rightarrow> (int \<times> ptr \<times> 'm) res) \<Rightarrow> ('m \<Rightarrow> addr \<Rightarrow> 'm res) \<Rightarrow> addr \<Rightarrow> bool list \<Rightarrow> addr list \<Rightarrow> 'm
   \<Rightarrow> (addr list \<times> 'm) res" where
  "serve acc cls l [] ss m = Inr (ss, m)"
| "serve acc cls l (True # cs) ss m =
     bindR (acc m l) (\<lambda>(c, p, m). serve acc cls l cs (if c = 0 then ss @ [the p] else ss) m)"
| "serve acc cls l (False # cs) ss m = (case ss of
      [] \<Rightarrow> serve acc cls l cs ss m
    | s # ss \<Rightarrow> bindR (cls m s) (serve acc cls l cs ss))"

text \<open>
  A table of sockets as a server uses it: \<open>open_at m\<close> maps the open sockets to their descriptors. Code 0 is
  success; accepting may fail and then nothing is opened, closing an open socket always succeeds.
\<close>

locale socket_table =
  fixes ok :: "'m \<Rightarrow> bool" and open_at :: "'m \<Rightarrow> addr \<rightharpoonup> int"
    and acc :: "'m \<Rightarrow> addr \<Rightarrow> (int \<times> ptr \<times> 'm) res"
    and cls :: "'m \<Rightarrow> addr \<Rightarrow> 'm res"
  assumes acc_open: "ok m \<Longrightarrow> l \<in> dom (open_at m) \<Longrightarrow> \<exists>c p m'. acc m l = Inr (c, p, m') \<and> ok m'
      \<and> (if c = 0 then \<exists>s d. p = Some s \<and> s \<notin> dom (open_at m) \<and> open_at m' = (open_at m)(s \<mapsto> d)
         else open_at m' = open_at m)"
    and cls_open: "ok m \<Longrightarrow> s \<in> dom (open_at m) \<Longrightarrow> \<exists>m'. cls m s = Inr m' \<and> ok m'
      \<and> open_at m' = (open_at m)(s := None)"
begin

text \<open>Whatever is accepted and closed, the open sockets are the listener and those on the list.\<close>

lemma serve_balance:
  assumes "ok m" "distinct (l # ss)" "dom (open_at m) = set (l # ss)"
  shows "\<exists>ss' m'. serve acc cls l cs ss m = Inr (ss', m') \<and> ok m' \<and> distinct (l # ss')
    \<and> dom (open_at m') = set (l # ss')"
  using assms
proof (induction cs arbitrary: ss m)
  case Nil
  then show ?case by auto
next
  case (Cons call cs)
  show ?case
  proof (cases call)
    case T: True
    obtain c p m' where m': "acc m l = Inr (c, p, m')" "ok m'"
      "if c = 0 then \<exists>s d. p = Some s \<and> s \<notin> dom (open_at m) \<and> open_at m' = (open_at m)(s \<mapsto> d)
       else open_at m' = open_at m"
      using acc_open[OF Cons.prems(1), of l] Cons.prems(3) by auto
    show ?thesis
    proof (cases "c = 0")
      case True
      then obtain s d where s: "p = Some s" "s \<notin> dom (open_at m)" "open_at m' = (open_at m)(s \<mapsto> d)"
        using m'(3) by auto
      then have "\<exists>ss'' m''. serve acc cls l cs (ss @ [s]) m' = Inr (ss'', m'') \<and> ok m'' \<and> distinct (l # ss'')
          \<and> dom (open_at m'') = set (l # ss'')"
      proof (intro Cons.IH m'(2))
        show "distinct (l # ss @ [s])" using Cons.prems(2,3) s(2) by auto
        show "dom (open_at m') = set (l # ss @ [s])"
          unfolding s(3) dom_fun_upd using Cons.prems(3) by (simp add: insert_commute)
      qed
      then show ?thesis using m'(1) s(1) True T by simp
    next
      case False
      then show ?thesis using Cons.IH[OF m'(2) Cons.prems(2)] Cons.prems(3) m' T by simp
    qed
  next
    case False
    show ?thesis
    proof (cases ss)
      case Nil
      then show ?thesis using Cons.IH[OF Cons.prems] False by simp
    next
      case (Cons s rest)
      obtain m' where m': "cls m s = Inr m'" "ok m'" "open_at m' = (open_at m)(s := None)"
        using cls_open[OF Cons.prems(1), of s] Cons.prems(3) Cons by auto
      then have "dom (open_at m') = set (l # rest)" using Cons.prems(2,3) Cons by auto
      then show ?thesis using Cons.IH[OF m'(2), of rest] Cons.prems(2) Cons m'(1) False by simp
    qed
  qed
qed

end

text \<open>The functions of \<open>tcpsock.c\<close> with the caller's pointer variables filled in.\<close>

definition accept_plain :: "'n sockapi \<Rightarrow> 'n tcpmem \<Rightarrow> addr \<Rightarrow> (int \<times> ptr \<times> 'n tcpmem) res" where
  "accept_plain K M l = bindR (tcp_wait_for_connection K M (Some l) (Some NULL)) (\<lambda>(c, p, M). Inr (c, the p, M))"

definition close_plain :: "'n sockapi \<Rightarrow> 'n tcpmem \<Rightarrow> addr \<Rightarrow> 'n tcpmem res" where
  "close_plain K M s = bindR (tcp_close K M (Some (Some s))) (\<lambda>(_, _, M). Inr M)"

interpretation tcp: socket_table sk_ok live "accept_plain K" "close_plain K" for K
proof (unfold_locales, goal_cases)
  case (1 M l)
  then obtain lsd where l: "live M l = Some lsd" by auto
  obtain sd addr n where a: "sys_accept K lsd (net M) = (sd, addr, n)" by (metis prod_cases3)
  obtain c q M' where "tcp_wait_for_connection K M (Some l) (Some NULL) = Inr (c, Some q, M')" "sk_ok M'"
    "c = TCP_NO_ERROR \<Longrightarrow> q = Some (hd (avail (socks M))) \<and> live M (hd (avail (socks M))) = None
      \<and> live M' = (live M)(hd (avail (socks M)) \<mapsto> sd)"
    "c \<noteq> TCP_NO_ERROR \<Longrightarrow> q = NULL \<and> live M' = live M"
    using tcp_wait_ok[OF 1(1) l a, of NULL] by metis
  then show ?case by (auto simp: accept_plain_def TCP_NO_ERROR_def)
next
  case (2 M s)
  then obtain x where "cells (socks M) s = Some x" by (auto simp: live_def)
  from tcp_close_cases[OF 2(1) this, of K] show ?case by (auto simp: close_plain_def)
qed

end
