(* ===== verification/Tcpsock_Props.thy ===== *)
theory Tcpsock_Props
  imports Tcpsock_Rep
begin

text \<open>The properties of \<open>lib/tcpsock.c\<close>, for any system calls, with a concrete run for each.\<close>

section \<open>Address strings\<close>

lemma byte_length: "length (dec (unat (w AND 255 :: 32 word))) \<le> 3"
proof -
  have "w AND 255 \<le> 255" by (rule word_and_le1)
  then have "unat (w AND 255) \<le> 255" by (simp add: word_le_nat_alt)
  then show ?thesis by (intro dec_length) simp_all
qed

lemma inet_ntoa_length: "length (inet_ntoa a) < CHAR_IP_ADDR_LENGTH"
  using byte_length[of "drop_bit 24 a"] byte_length[of "drop_bit 16 a"] byte_length[of "drop_bit 8 a"]
    byte_length[of a]
  by (simp add: inet_ntoa_def CHAR_IP_ADDR_LENGTH_def)

text \<open>The buffer holds the string, its terminating NUL and nothing else.\<close>

lemma strncpy_fits:
  "length s < n \<Longrightarrow> strncpy n s = s @ replicate (n - length s) (CHR 0x00) \<and> length (strncpy n s) = n"
  by (simp add: strncpy_def)

section \<open>A concrete network\<close>

text \<open>
  The state is the next descriptor and the bytes that peers have sent; every call succeeds.
\<close>

definition demo_api :: "(nat \<times> byte list) sockapi" where
  "demo_api = \<lparr>sys_socket = (\<lambda>(k, bs). (int k, (Suc k, bs))), sys_bind = (\<lambda>_ _ n. (0, n)),
     sys_listen = (\<lambda>_ _ n. (0, n)), sys_connect = (\<lambda>_ _ n. (0, n)),
     sys_getsockname = (\<lambda>_ n. (0, \<lparr>sin_addr = 0x7F000001, sin_port = 1234\<rparr>, n)),
     sys_accept = (\<lambda>_ (k, bs). (int k, \<lparr>sin_addr = 0x7F000001, sin_port = 40000\<rparr>, (Suc k, bs))),
     sys_sendto = (\<lambda>_ bs n. (Sent (length bs), n)),
     sys_recv = (\<lambda>_ k (d, bs). (Received (take k bs), (d, drop k bs))),
     sys_shutdown = (\<lambda>_ n. (0, n)), sys_close = (\<lambda>_ n. (0, n)), sys_getfl = (\<lambda>_ n. (0, n)),
     sys_setfl = (\<lambda>_ _ n. (0, n)), sys_select = (\<lambda>_ S _ n. (int (card S), S, n)), inet_aton = (\<lambda>_. Some 0x7F000001)\<rparr>"

definition demo_tcp :: "byte list \<Rightarrow> (nat \<times> byte list) tcpmem" where
  "demo_tcp bs = \<lparr>socks = empty_store 3, ips = empty_store 3, net = (3, bs)\<rparr>"

lemma demo_tcp_ok: "sk_ok (demo_tcp bs)" "live (demo_tcp bs) = Map.empty"
  by (simp_all add: demo_tcp_def sk_ok_def ip_owned_def ip_of_def[abs_def] live_def)

section \<open>Properties\<close>

text \<open>
  C24: \<open>tcp_passive_open\<close> reports exactly the first thing that goes wrong: a port out of range, no memory,
  or a system call that fails. Then it has freed its structure and not set the caller's pointer. Otherwise there is
  one new open socket with the system's descriptor and the port. In every case the system has seen the calls of
  \<open>socket\<close>, \<open>bind\<close> and \<open>listen\<close> up to the one that failed and no other: after a failed \<open>bind\<close> or \<open>listen\<close> the
  descriptor is not closed.
\<close>

theorem tcp_passive_open_spec:
  assumes "sk_ok M" "sys_socket K (net M) = (sd, n1)"
    and "sys_bind K sd \<lparr>sin_addr = INADDR_ANY, sin_port = htons port\<rparr> n1 = (rb, n2)"
    and "sys_listen K sd MAX_PENDING n2 = (rl, n3)"
  shows "\<exists>c q M'. tcp_passive_open K M (Some p) port = Inr (c, Some q, M') \<and> sk_ok M'
    \<and> c = (if port < MIN_PORT \<or> MAX_PORT < port then TCP_ADDRESS_ERROR
           else if avail (socks M) = [] then TCP_MEMORY_ERROR
           else if sd < 0 \<or> rb \<noteq> 0 \<or> rl \<noteq> 0 then TCP_SOCKOP_ERROR else TCP_NO_ERROR)
    \<and> (if c = TCP_NO_ERROR then \<exists>s. q = Some s \<and> live M s = None \<and> live M' = (live M)(s \<mapsto> sd)
         \<and> tcp_get_port M' q 0 = Inr (TCP_NO_ERROR, port)
       else q = p \<and> socks M' = socks M \<and> ips M' = ips M)
    \<and> net M' = (if port < MIN_PORT \<or> MAX_PORT < port \<or> avail (socks M) = [] then net M
         else if sd < 0 then n1 else if rb \<noteq> 0 then n2 else n3)"
proof -
  note open_eq = tcp_passive_open_cases[OF assms, of p]
  consider (good) a as where "MIN_PORT \<le> port" "port \<le> MAX_PORT" "avail (socks M) = a # as" "0 \<le> sd" "rb = 0" "rl = 0"
    | (bad) "port < MIN_PORT \<or> MAX_PORT < port \<or> avail (socks M) = [] \<or> sd < 0 \<or> rb \<noteq> 0 \<or> rl \<noteq> 0"
    by (cases "avail (socks M)") force+
  then show ?thesis
  proof cases
    case good
    note fresh = sk_ok_fresh[OF assms(1) good(3)]
    define x where "x = \<lparr>cookie = MAGIC_COOKIE, sock_sd = sd, ip_addr = NULL, sock_port = port\<rparr>"
    define M' where "M' = M\<lparr>net := n3, socks := (socks M)\<lparr>cells := (cells (socks M))(a \<mapsto> x), avail := as\<rparr>\<rparr>"
    have "tcp_passive_open K M (Some p) port = Inr (TCP_NO_ERROR, Some (Some a), M')"
      using open_eq good by (simp add: M'_def x_def)
    moreover have "ip_owned ((cells (socks M))(a \<mapsto> x)) (cells (ips M))"
      by (rule ip_owned_new_plain) (use assms(1) fresh(1) in \<open>simp_all add: sk_ok_def x_def\<close>)
    then have "sk_ok M'" using assms(1) fresh(2)[of x] by (simp add: sk_ok_def M'_def x_def)
    moreover have "live M a = None" "live M' = (live M)(a \<mapsto> sd)"
      using fresh(1) by (auto simp: live_def M'_def x_def)
    moreover have "tcp_get_port M' (Some a) 0 = Inr (TCP_NO_ERROR, port)"
      by (simp add: tcp_get_port_def sock_bound_def M'_def x_def mem_simps)
    moreover have "net M' = n3" by (simp add: M'_def)
    ultimately show ?thesis using good by simp
  next
    case bad
    then show ?thesis using open_eq assms(1)
      by (auto simp: TCP_ADDRESS_ERROR_def TCP_MEMORY_ERROR_def TCP_SOCKOP_ERROR_def TCP_NO_ERROR_def)
  qed
qed

theorem tcp_passive_open_spec_witness:
  "\<exists>c q M'. tcp_passive_open demo_api (demo_tcp []) (Some NULL) 1234 = Inr (c, Some q, M') \<and> sk_ok M'
    \<and> c = TCP_NO_ERROR \<and> tcp_get_port M' q 0 = Inr (TCP_NO_ERROR, 1234)"
proof -
  have "sys_socket demo_api (net (demo_tcp [])) = (3, 4, [])"
    "sys_bind demo_api 3 \<lparr>sin_addr = INADDR_ANY, sin_port = htons 1234\<rparr> (4, []) = (0, 4, [])"
    "sys_listen demo_api 3 MAX_PENDING (4, []) = (0, 4, [])"
    by (simp_all add: demo_api_def demo_tcp_def)
  moreover have "avail (socks (demo_tcp [])) \<noteq> []" by (simp add: demo_tcp_def)
  ultimately show ?thesis
    using tcp_passive_open_spec[OF demo_tcp_ok(1)[of "[]"], of demo_api 3 "(4, [])" 1234 0 "(4, [])" 0 "(4, [])" NULL]
    by (fastforce simp: MIN_PORT_def MAX_PORT_def)
qed

text \<open>
  C18: A server that accepts connections and closes the oldest one, in any order, whatever the system answers, runs without a fault, and
  the socket structures in memory are at every time those of its listener and of the connections it has
  open: none has leaked, and there are no more address strings than sockets.
\<close>

theorem tcp_serve_balance:
  assumes "sk_ok M" "live M = [l \<mapsto> d]"
  shows "\<exists>ss M'. serve (accept_plain K) (close_plain K) l cs [] M = Inr (ss, M') \<and> sk_ok M'
    \<and> distinct (l # ss) \<and> dom (cells (socks M')) = set (l # ss)
    \<and> card (dom (cells (ips M'))) \<le> Suc (length ss)"
proof -
  obtain ss M' where r: "serve (accept_plain K) (close_plain K) l cs [] M = Inr (ss, M')" "sk_ok M'"
    "distinct (l # ss)" "dom (live M') = set (l # ss)"
    using tcp.serve_balance[OF assms(1), of l "[]" K cs] assms(2) by auto
  have d: "dom (cells (socks M')) = set (l # ss)" using r(4) by (simp add: live_def dom_def)
  have "card (dom (cells (ips M'))) \<le> card (dom (cells (socks M')))"
    by (rule strings_le_sockets[OF r(2)]) (simp add: d)
  also have "\<dots> = length (l # ss)" unfolding d using r(3) by (rule distinct_card)
  finally show ?thesis using r d by auto
qed

theorem tcp_serve_balance_witness:
  "\<exists>l M ss M'. tcp_passive_open demo_api (demo_tcp []) (Some NULL) 1234 = Inr (TCP_NO_ERROR, Some (Some l), M)
    \<and> serve (accept_plain demo_api) (close_plain demo_api) l [True, True, False] [] M = Inr (ss, M') \<and> ss = [2]
    \<and> dom (cells (socks M')) = set (l # ss)"
proof -
  have o: "sys_socket demo_api (net (demo_tcp [])) = (3, 4, [])"
    "sys_bind demo_api 3 \<lparr>sin_addr = INADDR_ANY, sin_port = htons 1234\<rparr> (4, []) = (0, 4, [])"
    "sys_listen demo_api 3 MAX_PENDING (4, []) = (0, 4, [])"
    by (simp_all add: demo_api_def demo_tcp_def)
  define M where "M = (demo_tcp [])\<lparr>net := (4, []), socks := \<lparr>cells = [0 \<mapsto>
      \<lparr>cookie = MAGIC_COOKIE, sock_sd = 3, ip_addr = NULL, sock_port = 1234\<rparr>], avail = [1, 2], msize = 3\<rparr>\<rparr>"
  have open_eq: "tcp_passive_open demo_api (demo_tcp []) (Some NULL) 1234 = Inr (TCP_NO_ERROR, Some (Some 0), M)"
    using tcp_passive_open_cases[OF demo_tcp_ok(1)[of "[]"] o, of NULL]
    by (simp add: M_def demo_tcp_def empty_store_def MIN_PORT_def MAX_PORT_def numeral_3_eq_3 upt_conv_Cons)
  have "sk_ok M" "live M = [0 \<mapsto> 3]"
    by (auto simp: M_def demo_tcp_def sk_ok_def ip_owned_def ip_of_def[abs_def] live_def wf_store_def
        ran_def inj_on_def split: if_splits)
  from tcp_serve_balance[OF this, of demo_api "[True, True, False]"]
  obtain ss M' where "serve (accept_plain demo_api) (close_plain demo_api) 0 [True, True, False] [] M = Inr (ss, M')"
    "dom (cells (socks M')) = set (0 # ss)"
    by blast
  moreover from this(1) have "ss = [2]"
    by (simp add: accept_plain_def close_plain_def M_def demo_tcp_def tcp_wait_for_connection_def sock_bound_def
        load_def tcp_sock_create_def malloc_def demo_api_def set_sock_def assign_def sock_finish_def empty_store_def
        sock_return_def tcp_close_def free_def TCP_NO_ERROR_def MAGIC_COOKIE_def Let_def numeral_3_eq_3 upt_conv_Cons)
  ultimately show ?thesis using open_eq by blast
qed

text \<open>
  C25: On an open socket \<open>tcp_receive\<close> never writes beyond the number of bytes it was asked for: the buffer
  keeps its length and everything after the bytes that have come. The number that it reports is that of
  these bytes, or -1; an end of the stream and a socket that is not connected both give
  \<open>TCP_CONNECTION_CLOSED\<close>, other failures \<open>TCP_SOCKOP_ERROR\<close>.
\<close>

theorem tcp_receive_spec:
  assumes "sk_ok M" "live M s = Some d" "len \<le> length old" "sys_recv K d len (net M) = (r, n)"
  shows "\<exists>c buf k. tcp_receive K M (Some s) (Some old) (Some (int len)) = Inr (c, Some buf, Some k, M\<lparr>net := n\<rparr>)
    \<and> length buf = length old \<and> k \<le> int len \<and> drop (nat k) buf = drop (nat k) old
    \<and> (case r of
        Received bs \<Rightarrow> take (nat k) buf = take len bs \<and> k = int (length (take len bs))
          \<and> c = (if k = 0 then TCP_CONNECTION_CLOSED else TCP_NO_ERROR)
      | Recv_Failed e \<Rightarrow> k = -1 \<and> c = (if e = ENOTCONN then TCP_CONNECTION_CLOSED else TCP_SOCKOP_ERROR))"
proof (cases r)
  case (Received bs)
  define cs where "cs = take len bs"
  have "length cs \<le> length old" "length cs \<le> len" using assms(3) by (simp_all add: cs_def)
  then show ?thesis
    using sock_bound_live[OF assms(1,2)] assms(3,4) Received
    by (auto simp: tcp_receive_def recv_into_def Let_def simp flip: cs_def)
next
  case (Recv_Failed e)
  then show ?thesis
    using sock_bound_live[OF assms(1,2)] assms(3,4) by (auto simp: tcp_receive_def)
qed

theorem tcp_receive_spec_witness:
  "\<exists>s M buf. tcp_passive_open demo_api (demo_tcp [7, 8, 9, 10]) (Some NULL) 1234 = Inr (TCP_NO_ERROR, Some (Some s), M)
    \<and> tcp_receive demo_api M (Some s) (Some [1, 2, 3]) (Some 2)
      = Inr (TCP_NO_ERROR, Some buf, Some 2, M\<lparr>net := (4, [9, 10])\<rparr>)
    \<and> take 2 buf = [7, 8] \<and> drop 2 buf = [3]"
proof -
  let ?M = "demo_tcp [7, 8, 9, 10]"
  have o: "sys_socket demo_api (net ?M) = (3, 4, [7, 8, 9, 10])"
    "sys_bind demo_api 3 \<lparr>sin_addr = INADDR_ANY, sin_port = htons 1234\<rparr> (4, [7, 8, 9, 10]) = (0, 4, [7, 8, 9, 10])"
    "sys_listen demo_api 3 MAX_PENDING (4, [7, 8, 9, 10]) = (0, 4, [7, 8, 9, 10])"
    by (simp_all add: demo_api_def demo_tcp_def)
  define M where "M = ?M\<lparr>net := (4, [7, 8, 9, 10]), socks := \<lparr>cells = [0 \<mapsto>
      \<lparr>cookie = MAGIC_COOKIE, sock_sd = 3, ip_addr = NULL, sock_port = 1234\<rparr>], avail = [1, 2], msize = 3\<rparr>\<rparr>"
  have open_eq: "tcp_passive_open demo_api ?M (Some NULL) 1234 = Inr (TCP_NO_ERROR, Some (Some 0), M)"
    using tcp_passive_open_cases[OF demo_tcp_ok(1) o, of NULL]
    by (simp add: M_def demo_tcp_def empty_store_def MIN_PORT_def MAX_PORT_def numeral_3_eq_3 upt_conv_Cons)
  have "sk_ok M" "live M 0 = Some 3"
    by (auto simp: M_def demo_tcp_def sk_ok_def ip_owned_def ip_of_def[abs_def] live_def wf_store_def
        ran_def inj_on_def split: if_splits)
  moreover have "sys_recv demo_api 3 2 (net M) = (Received [7, 8], (4, [9, 10]))"
    by (simp add: M_def demo_api_def)
  ultimately have "\<exists>buf. tcp_receive demo_api M (Some 0) (Some [1, 2, 3]) (Some 2)
      = Inr (TCP_NO_ERROR, Some buf, Some 2, M\<lparr>net := (4, [9, 10])\<rparr>) \<and> take 2 buf = [7, 8] \<and> drop 2 buf = [3]"
    using tcp_receive_spec[of M 0 3 2 "[1, 2, 3]" demo_api "Received [7, 8]" "(4, [9, 10])"] by auto
  then show ?thesis using open_eq by blast
qed

text \<open>
  A socket that is \<open>NULL\<close>, or whose cookie shows that it is not bound, is refused by every function that
  takes one: the code is \<open>TCP_SOCKET_ERROR\<close> and neither the memory, the network nor the caller's variables
  change. Only \<open>tcp_close\<close> does not refuse the unbound one: it releases the structure without a system call.
\<close>

theorem tcp_not_bound:
  assumes "s = NULL \<or> (\<exists>a x. s = Some a \<and> cells (socks M) a = Some x \<and> cookie x \<noteq> MAGIC_COOKIE)"
  shows "tcp_wait_for_connection K M s q = Inr (TCP_SOCKET_ERROR, q, M)
    \<and> tcp_send K M s buf len = Inr (TCP_SOCKET_ERROR, len, M)
    \<and> tcp_receive K M s buf len = Inr (TCP_SOCKET_ERROR, buf, len, M)
    \<and> tcp_get_ip_addr M s ip = Inr (TCP_SOCKET_ERROR, ip)
    \<and> tcp_get_port M s port = Inr (TCP_SOCKET_ERROR, port) \<and> tcp_get_sd M s sd = Inr (TCP_SOCKET_ERROR, sd)
    \<and> (\<exists>c p M'. tcp_close K M (Some s) = Inr (c, p, M') \<and> net M' = net M \<and> ips M' = ips M
        \<and> c = (if s = NULL then TCP_SOCKET_ERROR else TCP_NO_ERROR)
        \<and> cells (socks M') = (case s of None \<Rightarrow> cells (socks M) | Some a \<Rightarrow> (cells (socks M))(a := None)))"
proof -
  have "sock_bound M s = Inr None" using assms by (auto simp: sock_bound_def mem_simps)
  then show ?thesis using assms
    by (auto simp: tcp_wait_for_connection_def tcp_send_def tcp_receive_def tcp_get_ip_addr_def tcp_get_port_def
        tcp_get_sd_def tcp_close_def mem_simps)
qed

theorem tcp_not_bound_witness:
  "tcp_send demo_api (demo_tcp []) NULL (Some [1]) (Some 1) = Inr (TCP_SOCKET_ERROR, Some 1, demo_tcp [])
   \<and> tcp_get_port (demo_tcp []) NULL 5 = Inr (TCP_SOCKET_ERROR, 5)"
  using tcp_not_bound[of NULL "demo_tcp []" demo_api "Some NULL" "Some [1]" "Some 1"] by simp

text \<open>
  \<open>tcp_active_open\<close> reports the first thing that goes wrong, as \<open>tcp_passive_open\<close> does, and an address that
  \<open>inet_aton\<close> refuses is an address error. When it succeeds there is one new open socket, and
  \<open>tcp_get_ip_addr\<close> finds a string of its own that no other socket has: 16 bytes with the dotted form of the
  address that \<open>getsockname\<close> gave, always with a terminating NUL.
\<close>

theorem tcp_active_open_spec:
  assumes "sk_ok M" "sys_socket K (net M) = (sd, n1)"
    and "sys_connect K sd \<lparr>sin_addr = the (inet_aton K ip), sin_port = htons port\<rparr> n1 = (rc, n2)"
    and "sys_getsockname K sd n2 = (rg, addr, n3)"
  shows "\<exists>c q M'. tcp_active_open K M (Some p) port (Some ip) = Inr (c, Some q, M') \<and> sk_ok M'
    \<and> c = (if port < MIN_PORT \<or> MAX_PORT < port then TCP_ADDRESS_ERROR
           else if avail (socks M) = [] then TCP_MEMORY_ERROR
           else if sd < 0 then TCP_SOCKOP_ERROR
           else if inet_aton K ip = None then TCP_ADDRESS_ERROR
           else if rc \<noteq> 0 \<or> rg \<noteq> 0 then TCP_SOCKOP_ERROR
           else if avail (ips M) = [] then TCP_MEMORY_ERROR else TCP_NO_ERROR)
    \<and> (if c = TCP_NO_ERROR then \<exists>s a str. q = Some s \<and> live M s = None \<and> live M' = (live M)(s \<mapsto> sd)
         \<and> tcp_get_ip_addr M' q NULL = Inr (TCP_NO_ERROR, Some a)
         \<and> cells (ips M) a = None \<and> cells (ips M') = (cells (ips M))(a \<mapsto> str) \<and> length str = CHAR_IP_ADDR_LENGTH
         \<and> (\<exists>k > 0. str = inet_ntoa (sin_addr addr) @ replicate k (CHR 0x00))
       else q = p \<and> socks M' = socks M \<and> ips M' = ips M)"
proof -
  note open_eq = tcp_active_open_cases[OF assms, of p]
  consider (good) s as a "is" where "MIN_PORT \<le> port" "port \<le> MAX_PORT" "avail (socks M) = s # as" "0 \<le> sd"
      "inet_aton K ip \<noteq> None" "rc = 0" "rg = 0" "avail (ips M) = a # is"
    | (bad) "port < MIN_PORT \<or> MAX_PORT < port \<or> avail (socks M) = [] \<or> sd < 0 \<or> inet_aton K ip = None
        \<or> rc \<noteq> 0 \<or> rg \<noteq> 0 \<or> avail (ips M) = []"
    by (cases "avail (socks M)"; cases "avail (ips M)") force+
  then show ?thesis
  proof cases
    case good
    define v where "v = strncpy CHAR_IP_ADDR_LENGTH (inet_ntoa (sin_addr addr))"
    define y where "y = \<lparr>cookie = MAGIC_COOKIE, sock_sd = sd, ip_addr = Some a, sock_port = uint (sin_port addr)\<rparr>"
    define M' where "M' = M\<lparr>net := n3, socks := (socks M)\<lparr>cells := (cells (socks M))(s \<mapsto> y), avail := as\<rparr>,
      ips := (ips M)\<lparr>cells := (cells (ips M))(a \<mapsto> v), avail := is\<rparr>\<rparr>"
    have "tcp_active_open K M (Some p) port (Some ip) = Inr (TCP_NO_ERROR, Some (Some s), M')"
      using open_eq good sock_finish_new[OF assms(1) good(3) refl] by (simp add: M'_def y_def v_def)
    moreover have "sk_ok M'" "live M s = None" "live M' = (live M)(s \<mapsto> sd)" "cells (ips M) a = None"
      using new_sock_ok[OF assms(1) good(3,8) _ _ M'_def] by (simp_all add: y_def)
    moreover have "length v = CHAR_IP_ADDR_LENGTH" "\<exists>k > 0. v = inet_ntoa (sin_addr addr) @ replicate k (CHR 0x00)"
      using strncpy_fits[OF inet_ntoa_length, of "sin_addr addr"] inet_ntoa_length[of "sin_addr addr"]
      by (auto simp: v_def intro!: exI[of _ "CHAR_IP_ADDR_LENGTH - length (inet_ntoa (sin_addr addr))"])
    moreover have "tcp_get_ip_addr M' (Some s) NULL = Inr (TCP_NO_ERROR, Some a)"
      by (simp add: tcp_get_ip_addr_def sock_bound_def M'_def y_def mem_simps)
    ultimately show ?thesis using good by (auto simp: M'_def)
  next
    case bad
    then show ?thesis using open_eq assms(1) sock_finish_new[OF assms(1) _ refl]
      by (cases "avail (socks M)")
        (auto simp: TCP_ADDRESS_ERROR_def TCP_MEMORY_ERROR_def TCP_SOCKOP_ERROR_def TCP_NO_ERROR_def)
  qed
qed

theorem tcp_active_open_spec_witness:
  "\<exists>s a str M. tcp_active_open demo_api (demo_tcp []) (Some NULL) 1234 (Some ''localhost'') = Inr (TCP_NO_ERROR, Some (Some s), M)
    \<and> tcp_get_ip_addr M (Some s) NULL = Inr (TCP_NO_ERROR, Some a) \<and> cells (ips M) a = Some str
    \<and> length str = CHAR_IP_ADDR_LENGTH"
proof -
  have o: "sys_socket demo_api (net (demo_tcp [])) = (3, 4, [])"
    "sys_connect demo_api 3 \<lparr>sin_addr = the (inet_aton demo_api ''localhost''), sin_port = htons 1234\<rparr> (4, []) = (0, 4, [])"
    "sys_getsockname demo_api 3 (4, []) = (0, \<lparr>sin_addr = 0x7F000001, sin_port = 1234\<rparr>, 4, [])"
    by (simp_all add: demo_api_def demo_tcp_def)
  have "avail (socks (demo_tcp [])) \<noteq> []" "avail (ips (demo_tcp [])) \<noteq> []" "inet_aton demo_api ''localhost'' \<noteq> None"
    by (simp_all add: demo_tcp_def demo_api_def)
  then show ?thesis
    using tcp_active_open_spec[OF demo_tcp_ok(1) o, of NULL] by (fastforce simp: MIN_PORT_def MAX_PORT_def)
qed

end
