(* ===== verification/Connmgr.thy ===== *)
theory Connmgr
  imports Tcpsock Dplist Sbuffer Logfifo
begin

text \<open>
  The connection manager (\<open>connmgr.h\<close>, \<open>connmgr.c\<close>): it accepts TCP connections of sensor nodes, waits with
  \<open>select\<close> for the sockets that have data, reads one measurement at a time from each of them into the
  shared buffer, and closes the connections that end or are silent for too long. The clients are the
  elements of a pointer list.

  \<open>TIMEOUT\<close>, a compile-time option, is the parameter \<open>tmo\<close>. What lies outside of the thread is the record
  \<open>environ\<close>: the clock, the FIFO and the heap (\<open>io_world\<close>), the shared buffer (\<open>io_buf\<close>), what the other
  threads do to the buffer before the thread's \<open>n\<close>-th insertion (\<open>io_others n\<close>), and the indeterminate
  contents of the memory that the \<open>n\<close>-th allocation returns (\<open>io_junk n\<close>).
\<close>

section \<open>Types\<close>

record sensor_info_t =
  si_socket :: ptr
  si_ts :: sensor_ts_t
  si_sd :: int
  si_id :: sensor_id_t

text \<open>A \<open>sensor_data_t\<close> that is filled byte by byte; the value is kept as its 64 bits.\<close>

record raw_measurement =
  raw_id :: "16 word"
  raw_value :: "64 word"
  raw_ts :: "64 word"

definition data_of :: "raw_measurement \<Rightarrow> sensor_data_t" where
  "data_of m = \<lparr>id = raw_id m, val = double_of_bits (raw_value m), ts = raw_ts m\<rparr>"

record environ =
  io_world :: world
  io_buf :: sbmem
  io_others :: "nat \<Rightarrow> sbmem \<Rightarrow> sbmem"
  io_inserts :: nat
  io_junk :: "nat \<Rightarrow> raw_measurement"

record 'n cm_state =
  client_list :: ptr
  cm_mem :: "sensor_info_t dmem"
  cm_tcp :: "'n tcpmem"
  env :: environ

definition junk_info :: sensor_info_t where
  "junk_info = \<lparr>si_socket = NULL, si_ts = 0, si_sd = 0, si_id = 0\<rparr>"

section \<open>Callbacks of the client list\<close>

definition element_copy_connmgr :: "ptr \<Rightarrow> sensor_info_t store \<Rightarrow> (ptr \<times> sensor_info_t store) res" where
  "element_copy_connmgr element E = (case malloc junk_info E of
      None \<Rightarrow> Inl Exit_Failure
    | Some (a, E) \<Rightarrow>
        if element \<noteq> NULL then
          bindR (load E element) (\<lambda>v. bindR (assign (\<lambda>_. v) E (Some a)) (\<lambda>E. Inr (Some a, E)))
        else Inl Exit_Failure)"

definition element_free_connmgr :: "ptr \<Rightarrow> sensor_info_t store \<Rightarrow> (ptr \<times> sensor_info_t store) res" where
  "element_free_connmgr element E = bindR (free E element) (\<lambda>E. Inr (NULL, E))"

definition element_compare_connmgr :: "ptr \<Rightarrow> ptr \<Rightarrow> sensor_info_t store \<Rightarrow> int res" where
  "element_compare_connmgr x y E = Inr 0"

section \<open>Descriptor sets\<close>

text \<open>An \<open>fd_set\<close> has room for the descriptors below \<open>FD_SETSIZE\<close>; the macros do not check that.\<close>

definition FD_SETSIZE :: int where "FD_SETSIZE = 1024"

definition fd_range :: "int \<Rightarrow> unit res" where
  "fd_range fd = (if 0 \<le> fd \<and> fd < FD_SETSIZE then Inr () else Inl Bad_Pointer)"

definition fd_set :: "int \<Rightarrow> int set \<Rightarrow> int set res" where
  "fd_set fd S = bindR (fd_range fd) (\<lambda>_. Inr (insert fd S))"

definition fd_clr :: "int \<Rightarrow> int set \<Rightarrow> int set res" where
  "fd_clr fd S = bindR (fd_range fd) (\<lambda>_. Inr (S - {fd}))"

definition fd_isset :: "int \<Rightarrow> int set \<Rightarrow> bool res" where
  "fd_isset fd S = bindR (fd_range fd) (\<lambda>_. Inr (fd \<in> S))"

text \<open>The loop that collects the clients' descriptors and their maximum.\<close>

fun fds_loop ::
  "nat \<Rightarrow> sensor_info_t dmem \<Rightarrow> ptr \<Rightarrow> int \<Rightarrow> int set \<Rightarrow> int \<Rightarrow> (int set \<times> int) res" where
  "fds_loop 0 H list i read_fds fdmax = Inl Diverges"
| "fds_loop (Suc k) H list i read_fds fdmax =
     bindR (dpl_size H list) (\<lambda>n.
     if i < n then
       bindR (dpl_get_element_at_index H list i) (\<lambda>this_client.
       bindR (check_exit (this_client \<noteq> NULL)) (\<lambda>_.
       bindR (load (elems H) this_client) (\<lambda>c.
       bindR (if 0 < si_sd c then fd_set (si_sd c) read_fds else Inr read_fds) (\<lambda>read_fds.
       fds_loop k H list (i + 1) read_fds (if fdmax < si_sd c then si_sd c else fdmax)))))
     else Inr (read_fds, fdmax))"

section \<open>Steps on the state\<close>

definition set_info :: "(sensor_info_t \<Rightarrow> sensor_info_t) \<Rightarrow> 'n cm_state \<Rightarrow> ptr \<Rightarrow> 'n cm_state res" where
  "set_info f s p = bindR (assign f (elems (cm_mem s)) p) (\<lambda>E. Inr (s\<lparr>cm_mem := (cm_mem s)\<lparr>elems := E\<rparr>\<rparr>))"

definition env_log :: "(sensor_ts_t \<Rightarrow> string) \<Rightarrow> environ \<Rightarrow> environ res" where
  "env_log fmt e = bindR (log_event fmt (io_world e)) (\<lambda>w. Inr (e\<lparr>io_world := w\<rparr>))"

definition cm_log :: "(sensor_ts_t \<Rightarrow> string) \<Rightarrow> 'n cm_state \<Rightarrow> 'n cm_state res" where
  "cm_log fmt s = bindR (env_log fmt (env s)) (\<lambda>e. Inr (s\<lparr>env := e\<rparr>))"

text \<open>\<open>malloc\<close> of a measurement: whether it succeeds, and the contents of the memory.\<close>

definition env_malloc :: "environ \<Rightarrow> bool \<times> raw_measurement \<times> environ" where
  "env_malloc e = (let (ok, w) = heap_alloc (io_world e)
     in (ok, io_junk e (nallocs (io_world e)), e\<lparr>io_world := w\<rparr>))"

text \<open>The insertion into the shared buffer, after whatever the other threads have done to it.\<close>

definition env_insert :: "ptr \<Rightarrow> sensor_data_t \<Rightarrow> environ \<Rightarrow> environ res" where
  "env_insert buffer d e =
     bindR (sbuffer_insert (io_others e (io_inserts e) (io_buf e)) buffer d) (\<lambda>(err, B).
     bindR (check_exit (err = SBUFFER_SUCCESS)) (\<lambda>_.
     Inr (e\<lparr>io_buf := B, io_inserts := Suc (io_inserts e)\<rparr>)))"

text \<open>\<open>tcp_receive\<close> into a field of \<open>n\<close> bytes that holds \<open>old\<close>: the code, the number of bytes, the field.\<close>

definition receive_field ::
  "'n sockapi \<Rightarrow> ptr \<Rightarrow> nat \<Rightarrow> nat \<Rightarrow> 'n cm_state \<Rightarrow> (int \<times> int \<times> nat \<times> 'n cm_state) res" where
  "receive_field K socket n old s =
     bindR (tcp_receive K (cm_tcp s) socket (Some (le_bytes n old)) (Some (int n))) (\<lambda>(result, buf, nbytes, T).
     Inr (result, the nbytes, le_nat (the buf), s\<lparr>cm_tcp := T\<rparr>))"

text \<open>\<open>tcp_close(&this_client->socket)\<close> with the client at \<open>p\<close>.\<close>

definition close_client :: "'n sockapi \<Rightarrow> ptr \<Rightarrow> 'n cm_state \<Rightarrow> (int \<times> 'n cm_state) res" where
  "close_client K p s =
     bindR (load (elems (cm_mem s)) p) (\<lambda>c.
     bindR (tcp_close K (cm_tcp s) (Some (si_socket c))) (\<lambda>(result, q, T).
     bindR (set_info (\<lambda>c. c\<lparr>si_socket := the q\<rparr>) (s\<lparr>cm_tcp := T\<rparr>) p) (\<lambda>s. Inr (result, s))))"

definition remove_client :: "int \<Rightarrow> 'n cm_state \<Rightarrow> 'n cm_state res" where
  "remove_client i s =
     bindR (dpl_remove_at_index (cm_mem s) (client_list s) i True) (\<lambda>(_, H). Inr (s\<lparr>cm_mem := H\<rparr>))"

section \<open>A new connection\<close>

text \<open>
  The automatic variable \<open>new_sensor\<close>, whose address is given to the list, occupies a cell of the store of
  elements while it is in scope.
\<close>

definition accept_client :: "'n sockapi \<Rightarrow> ptr \<Rightarrow> 'n cm_state \<Rightarrow> 'n cm_state res" where
  "accept_client K server_socket s =
     bindR (tcp_wait_for_connection K (cm_tcp s) server_socket (Some NULL)) (\<lambda>(result, client_socket, T).
     bindR (check_exit (result = TCP_NO_ERROR)) (\<lambda>_.
     bindR (tcp_get_sd T (the client_socket) 0) (\<lambda>(result, new_sd).
     if result \<noteq> TCP_NO_ERROR then Inl Uninit_Read
     else case malloc \<lparr>si_socket = the client_socket, si_ts = 0, si_sd = new_sd, si_id = 0\<rparr>
            (elems (cm_mem s)) of
       None \<Rightarrow> Inl Exit_Failure
     | Some (new_sensor, E) \<Rightarrow>
         (let H = (cm_mem s)\<lparr>elems := E\<rparr> in
          bindR (dpl_size H (client_list s)) (\<lambda>n.
          bindR (dpl_insert_at_index H (client_list s) (Some new_sensor) n True) (\<lambda>(_, H).
          bindR (free (elems H) (Some new_sensor)) (\<lambda>E.
          Inr (s\<lparr>cm_mem := H\<lparr>elems := E\<rparr>, cm_tcp := T\<rparr>))))))))"

section \<open>Data from a client\<close>

text \<open>
  The branch that reads the rest of a measurement, with the id already in \<open>m\<close>. The results of the two
  receiving calls are not used.
\<close>

definition store_measurement ::
  "'n sockapi \<Rightarrow> ptr \<Rightarrow> ptr \<Rightarrow> raw_measurement \<Rightarrow> 'n cm_state \<Rightarrow> 'n cm_state res" where
  "store_measurement K buffer this_client m s =
     bindR (load (elems (cm_mem s)) this_client) (\<lambda>c.
     bindR (receive_field K (si_socket c) 8 (unat (raw_value m)) s) (\<lambda>(_, _, v, s).
     bindR (receive_field K (si_socket c) 8 (unat (raw_ts m)) s) (\<lambda>(_, _, t, s).
     let m = m\<lparr>raw_value := of_nat v, raw_ts := of_nat t\<rparr> in
     bindR (if si_ts c = 0 then
              bindR (set_info (\<lambda>c. c\<lparr>si_id := raw_id m\<rparr>) s this_client) (cm_log (msg_opened (raw_id m)))
            else Inr s) (\<lambda>s.
     bindR (set_info (\<lambda>c. c\<lparr>si_ts := raw_ts m\<rparr>) s this_client) (\<lambda>s.
     bindR (env_insert buffer (data_of m) (env s)) (\<lambda>e.
     Inr (s\<lparr>env := e\<rparr>)))))))"

definition handle_data ::
  "'n sockapi \<Rightarrow> ptr \<Rightarrow> int \<Rightarrow> ptr \<Rightarrow> raw_measurement \<Rightarrow> 'n cm_state \<Rightarrow> 'n cm_state res" where
  "handle_data K buffer i this_client m s =
     bindR (load (elems (cm_mem s)) this_client) (\<lambda>c.
     bindR (receive_field K (si_socket c) 2 (unat (raw_id m)) s) (\<lambda>(result, nbytes, v, s).
     let m = m\<lparr>raw_id := of_nat v\<rparr> in
     if result = TCP_CONNECTION_CLOSED then
       bindR (cm_log (msg_closed (si_id c)) s) (\<lambda>s.
       bindR (close_client K this_client s) (\<lambda>(result, s).
       bindR (check_exit (result = TCP_NO_ERROR)) (\<lambda>_.
       remove_client i s)))
     else if result = TCP_NO_ERROR \<and> 0 < nbytes then store_measurement K buffer this_client m s
     else Inr s))"

section \<open>Silent clients\<close>

text \<open>The difference of two times, signed 64 bit numbers.\<close>

definition time_diff :: "sensor_ts_t \<Rightarrow> sensor_ts_t \<Rightarrow> int res" where
  "time_diff t u = (let d = sint t - sint u in
     if d < - (2 ^ 63) \<or> 2 ^ 63 \<le> d then Inl Int_Overflow else Inr d)"

definition check_timeout ::
  "'n sockapi \<Rightarrow> int \<Rightarrow> int \<Rightarrow> ptr \<Rightarrow> int set \<Rightarrow> 'n cm_state \<Rightarrow> (int set \<times> 'n cm_state) res" where
  "check_timeout K tmo i this_client read_fds s =
     bindR (load (elems (cm_mem s)) this_client) (\<lambda>c.
     let (now, w) = time_now (io_world (env s)); s = s\<lparr>env := (env s)\<lparr>io_world := w\<rparr>\<rparr> in
     bindR (time_diff now (si_ts c)) (\<lambda>d.
     if tmo \<le> d \<and> si_ts c \<noteq> 0 then
       bindR (fd_clr (si_sd c) read_fds) (\<lambda>read_fds.
       bindR (close_client K this_client s) (\<lambda>(_, s).
       bindR (remove_client i s) (\<lambda>s. Inr (read_fds, s))))
     else Inr (read_fds, s)))"

section \<open>The loops\<close>

text \<open>The body of the loop over the clients, and the loop; the size of the list is read in every iteration.\<close>

definition visit_client ::
  "'n sockapi \<Rightarrow> int \<Rightarrow> ptr \<Rightarrow> int \<Rightarrow> int set \<Rightarrow> 'n cm_state \<Rightarrow> (int set \<times> 'n cm_state) res" where
  "visit_client K tmo buffer i read_fds s =
     bindR (dpl_get_element_at_index (cm_mem s) (client_list s) i) (\<lambda>this_client.
     let (ok, m, e) = env_malloc (env s); s = s\<lparr>env := e\<rparr> in
     bindR (check_exit ok) (\<lambda>_.
     bindR (check_exit (this_client \<noteq> NULL)) (\<lambda>_.
     bindR (load (elems (cm_mem s)) this_client) (\<lambda>c.
     bindR (fd_isset (si_sd c) read_fds) (\<lambda>ready.
     if ready then bindR (handle_data K buffer i this_client m s) (\<lambda>s. Inr (read_fds, s))
     else check_timeout K tmo i this_client read_fds s)))))"

fun visit_loop ::
  "nat \<Rightarrow> 'n sockapi \<Rightarrow> int \<Rightarrow> ptr \<Rightarrow> int \<Rightarrow> int set \<Rightarrow> 'n cm_state \<Rightarrow> 'n cm_state res" where
  "visit_loop 0 K tmo buffer i read_fds s = Inl Diverges"
| "visit_loop (Suc k) K tmo buffer i read_fds s =
     bindR (dpl_size (cm_mem s) (client_list s)) (\<lambda>n.
     if i < n then
       bindR (visit_client K tmo buffer i read_fds s) (\<lambda>(read_fds, s).
       visit_loop k K tmo buffer (i + 1) read_fds s)
     else Inr s)"

text \<open>
  One round of the main loop; the result tells whether it ends it, as it does when \<open>select\<close> times out.
  \<open>select\<close> removes descriptors from the set and adds none.
\<close>

definition connmgr_round ::
  "'n sockapi \<Rightarrow> int \<Rightarrow> ptr \<Rightarrow> ptr \<Rightarrow> int \<Rightarrow> 'n cm_state \<Rightarrow> (bool \<times> 'n cm_state) res" where
  "connmgr_round K tmo buffer server_socket listener s =
     bindR (fd_set listener {}) (\<lambda>read_fds.
     bindR (fds_loop (fuel (nodes (cm_mem s))) (cm_mem s) (client_list s) 0 read_fds listener) (\<lambda>(read_fds, fdmax).
     let (activity, ready, n) = sys_select K (fdmax + 1) read_fds tmo (net (cm_tcp s));
         s = s\<lparr>cm_tcp := (cm_tcp s)\<lparr>net := n\<rparr>\<rparr>; read_fds = read_fds \<inter> ready in
     if activity < 0 then Inl Exit_Failure
     else if activity = 0 then Inr (True, s)
     else
       bindR (fd_isset listener read_fds) (\<lambda>new.
       bindR (if new then accept_client K server_socket s else Inr s) (\<lambda>s.
       bindR (visit_loop (fuel (nodes (cm_mem s))) K tmo buffer 0 read_fds s) (\<lambda>s.
       Inr (False, s))))))"

text \<open>At most \<open>k\<close> rounds; \<open>False\<close> when the loop has not ended within them.\<close>

fun connmgr_loop ::
  "nat \<Rightarrow> 'n sockapi \<Rightarrow> int \<Rightarrow> ptr \<Rightarrow> ptr \<Rightarrow> int \<Rightarrow> 'n cm_state \<Rightarrow> (bool \<times> 'n cm_state) res" where
  "connmgr_loop 0 K tmo buffer server_socket listener s = Inr (False, s)"
| "connmgr_loop (Suc k) K tmo buffer server_socket listener s =
     bindR (connmgr_round K tmo buffer server_socket listener s) (\<lambda>(ended, s).
     if ended then Inr (True, s) else connmgr_loop k K tmo buffer server_socket listener s)"

section \<open>The thread\<close>

definition O_NONBLOCK :: int where "O_NONBLOCK = 2048"

text \<open>The part before the loop: the list, the listening socket and its non-blocking mode.\<close>

definition connmgr_start ::
  "'n sockapi \<Rightarrow> int \<Rightarrow> 'n cm_state \<Rightarrow> (ptr \<times> int \<times> 'n cm_state) res" where
  "connmgr_start K portnr s =
     bindR (dpl_create element_copy_connmgr element_free_connmgr element_compare_connmgr (cm_mem s)) (\<lambda>(l, H).
     bindR (assertR (l \<noteq> NULL)) (\<lambda>_.
     bindR (tcp_passive_open K (cm_tcp s) (Some NULL) portnr) (\<lambda>(result, server_socket, T).
     bindR (check_exit (result = TCP_NO_ERROR)) (\<lambda>_.
     bindR (tcp_get_sd T (the server_socket) 0) (\<lambda>(result, listener).
     bindR (check_exit (result = TCP_NO_ERROR)) (\<lambda>_.
     let (flags, n) = sys_getfl K listener (net T);
         (status, n) = sys_setfl K listener (flags OR O_NONBLOCK) n in
     bindR (check_exit (status \<noteq> -1)) (\<lambda>_.
     Inr (the server_socket, listener, s\<lparr>client_list := l, cm_mem := H, cm_tcp := T\<lparr>net := n\<rparr>\<rparr>))))))))"

definition connmgr_end :: "'n sockapi \<Rightarrow> ptr \<Rightarrow> 'n cm_state \<Rightarrow> 'n cm_state res" where
  "connmgr_end K server_socket s =
     bindR (tcp_close K (cm_tcp s) (Some server_socket)) (\<lambda>(result, _, T).
     bindR (check_exit (result = TCP_NO_ERROR)) (\<lambda>_.
     bindR (dpl_free (cm_mem s) (Some (client_list s)) True) (\<lambda>(l, H).
     bindR (free (lists H) l) (\<lambda>L.
     Inr (s\<lparr>client_list := NULL, cm_mem := H\<lparr>lists := L\<rparr>, cm_tcp := T\<rparr>)))))"

definition connmgr_listen ::
  "nat \<Rightarrow> 'n sockapi \<Rightarrow> int \<Rightarrow> int \<Rightarrow> ptr \<Rightarrow> 'n cm_state \<Rightarrow> (bool \<times> 'n cm_state) res" where
  "connmgr_listen k K tmo portnr buffer s =
     bindR (connmgr_start K portnr s) (\<lambda>(server_socket, listener, s).
     bindR (connmgr_loop k K tmo buffer server_socket listener s) (\<lambda>(ended, s).
     if ended then bindR (connmgr_end K server_socket s) (\<lambda>s. Inr (True, s)) else Inr (False, s)))"

end
