(* ===== verification/Connmgr_Spec.thy ===== *)
theory Connmgr_Spec
  imports Connmgr Tcpsock_Rep
begin

text \<open>
  The abstract connection manager: the clients are a plain list of descriptor, time of the last
  measurement and id, with no pointers, nodes, or socket structures. Its operations speak of the system
  calls, the log events and the insertions only. \<open>Connmgr_Rep\<close> shows that \<open>connmgr.c\<close> refines it.
\<close>

section \<open>The state\<close>

record client =
  cl_sd :: int
  cl_ts :: sensor_ts_t
  cl_id :: sensor_id_t

record 'n acm =
  ac_clients :: "client list"
  ac_net :: 'n
  ac_env :: environ

section \<open>System calls\<close>

text \<open>Receiving into a field of \<open>n\<close> bytes: the code, the number of bytes, the field, and the network.\<close>

definition a_receive :: "'n sockapi \<Rightarrow> int \<Rightarrow> nat \<Rightarrow> nat \<Rightarrow> 'n \<Rightarrow> int \<times> int \<times> nat \<times> 'n" where
  "a_receive K sd n old nw =
     (let (r, nw) = sys_recv K sd n nw; (c, buf, k) = recv_effect r (le_bytes n old)
      in (c, k, le_nat buf, nw))"

definition a_shut :: "'n sockapi \<Rightarrow> int \<Rightarrow> 'n \<Rightarrow> 'n" where
  "a_shut K sd nw = (if sd < 0 then nw
     else let (result, n) = sys_shutdown K sd nw in if result \<noteq> -1 then snd (sys_close K sd n) else n)"

section \<open>One client\<close>

text \<open>What happens to a client: \<open>None\<close> when it is removed.\<close>

type_synonym 'n visit = "(client option \<times> 'n \<times> environ) res"

definition a_store :: "'n sockapi \<Rightarrow> ptr \<Rightarrow> client \<Rightarrow> raw_measurement \<Rightarrow> 'n \<Rightarrow> environ \<Rightarrow> 'n visit" where
  "a_store K buffer c m n e =
     (let (_, _, v, n) = a_receive K (cl_sd c) 8 (unat (raw_value m)) n;
          (_, _, t, n) = a_receive K (cl_sd c) 8 (unat (raw_ts m)) n;
          m = m\<lparr>raw_value := of_nat v, raw_ts := of_nat t\<rparr> in
      bindR (if cl_ts c = 0 then env_log (msg_opened (raw_id m)) e else Inr e) (\<lambda>e.
      bindR (env_insert buffer (data_of m) e) (\<lambda>e.
      Inr (Some (c\<lparr>cl_ts := raw_ts m, cl_id := (if cl_ts c = 0 then raw_id m else cl_id c)\<rparr>), n, e))))"

definition a_data :: "'n sockapi \<Rightarrow> ptr \<Rightarrow> client \<Rightarrow> raw_measurement \<Rightarrow> 'n \<Rightarrow> environ \<Rightarrow> 'n visit" where
  "a_data K buffer c m n e =
     (let (result, nbytes, v, n) = a_receive K (cl_sd c) 2 (unat (raw_id m)) n;
          m = m\<lparr>raw_id := of_nat v\<rparr> in
      if result = TCP_CONNECTION_CLOSED then
        bindR (env_log (msg_closed (cl_id c)) e) (\<lambda>e. Inr (None, a_shut K (cl_sd c) n, e))
      else if result = TCP_NO_ERROR \<and> 0 < nbytes then a_store K buffer c m n e
      else Inr (Some c, n, e))"

definition a_timeout :: "'n sockapi \<Rightarrow> int \<Rightarrow> client \<Rightarrow> 'n \<Rightarrow> environ \<Rightarrow> 'n visit" where
  "a_timeout K tmo c n e =
     (let (now, w) = time_now (io_world e); e = e\<lparr>io_world := w\<rparr> in
      bindR (time_diff now (cl_ts c)) (\<lambda>d.
      if tmo \<le> d \<and> cl_ts c \<noteq> 0 then Inr (None, a_shut K (cl_sd c) n, e) else Inr (Some c, n, e)))"

definition a_visit :: "'n sockapi \<Rightarrow> int \<Rightarrow> ptr \<Rightarrow> int set \<Rightarrow> client \<Rightarrow> 'n \<Rightarrow> environ \<Rightarrow> 'n visit" where
  "a_visit K tmo buffer rd c n e =
     (let (ok, m, e) = env_malloc e in
      bindR (check_exit ok) (\<lambda>_.
      bindR (fd_isset (cl_sd c) rd) (\<lambda>ready.
      if ready then a_data K buffer c m n e else a_timeout K tmo c n e)))"

section \<open>All clients\<close>

text \<open>
  The loop over the clients. When one is removed the next one moves to its index and is not looked at in
  this round.
\<close>

fun a_pass ::
  "'n sockapi \<Rightarrow> int \<Rightarrow> ptr \<Rightarrow> int set \<Rightarrow> client list \<Rightarrow> 'n \<Rightarrow> environ \<Rightarrow> (client list \<times> 'n \<times> environ) res" where
  "a_pass K tmo buffer rd [] n e = Inr ([], n, e)"
| "a_pass K tmo buffer rd (c # cs) n e =
     bindR (a_visit K tmo buffer rd c n e) (\<lambda>(r, n, e). case r of
       Some c \<Rightarrow> bindR (a_pass K tmo buffer rd cs n e) (\<lambda>(cs, n, e). Inr (c # cs, n, e))
     | None \<Rightarrow> (case cs of
          [] \<Rightarrow> Inr ([], n, e)
        | d # ds \<Rightarrow> bindR (a_pass K tmo buffer rd ds n e) (\<lambda>(ds, n, e). Inr (d # ds, n, e))))"

fun a_fds :: "client list \<Rightarrow> int set \<Rightarrow> int \<Rightarrow> (int set \<times> int) res" where
  "a_fds [] rd fdmax = Inr (rd, fdmax)"
| "a_fds (c # cs) rd fdmax =
     bindR (if 0 < cl_sd c then fd_set (cl_sd c) rd else Inr rd) (\<lambda>rd. a_fds cs rd (max fdmax (cl_sd c)))"

text \<open>Accepting a connection; there is room for \<open>cap\<close> clients.\<close>

definition a_accept :: "'n sockapi \<Rightarrow> nat \<Rightarrow> int \<Rightarrow> client list \<Rightarrow> 'n \<Rightarrow> (client list \<times> 'n) res" where
  "a_accept K cap listener cs n =
     (if cap \<le> length cs then Inl Exit_Failure
      else let (sd, _, n) = sys_accept K listener n in
        if sd = -1 then Inl Exit_Failure
        else Inr (cs @ [\<lparr>cl_sd = sd, cl_ts = 0, cl_id = 0\<rparr>], n))"

definition a_round :: "'n sockapi \<Rightarrow> nat \<Rightarrow> int \<Rightarrow> ptr \<Rightarrow> int \<Rightarrow> 'n acm \<Rightarrow> (bool \<times> 'n acm) res" where
  "a_round K cap tmo buffer listener a =
     bindR (fd_set listener {}) (\<lambda>rd.
     bindR (a_fds (ac_clients a) rd listener) (\<lambda>(rd, fdmax).
     let (activity, ready, n) = sys_select K (fdmax + 1) rd tmo (ac_net a); rd = rd \<inter> ready in
     if activity < 0 then Inl Exit_Failure
     else if activity = 0 then Inr (True, a\<lparr>ac_net := n\<rparr>)
     else
       bindR (if listener \<in> rd then a_accept K cap listener (ac_clients a) n else Inr (ac_clients a, n)) (\<lambda>(cs, n).
       bindR (a_pass K tmo buffer rd cs n (ac_env a)) (\<lambda>(cs, n, e).
       Inr (False, a\<lparr>ac_clients := cs, ac_net := n, ac_env := e\<rparr>)))))"

fun a_loop :: "nat \<Rightarrow> 'n sockapi \<Rightarrow> nat \<Rightarrow> int \<Rightarrow> ptr \<Rightarrow> int \<Rightarrow> 'n acm \<Rightarrow> (bool \<times> 'n acm) res" where
  "a_loop 0 K cap tmo buffer listener a = Inr (False, a)"
| "a_loop (Suc k) K cap tmo buffer listener a =
     bindR (a_round K cap tmo buffer listener a) (\<lambda>(ended, a).
     if ended then Inr (True, a) else a_loop k K cap tmo buffer listener a)"

text \<open>The whole thread: the descriptor of the listener and the state before the loop, and at the end.\<close>

definition a_start :: "'n sockapi \<Rightarrow> int \<Rightarrow> 'n \<Rightarrow> (int \<times> 'n) res" where
  "a_start K port n =
     (if port < MIN_PORT \<or> MAX_PORT < port then Inl Exit_Failure
      else let (sd, n) = sys_socket K n in if sd < 0 then Inl Exit_Failure
      else let (rb, n) = sys_bind K sd \<lparr>sin_addr = INADDR_ANY, sin_port = htons port\<rparr> n in
        if rb \<noteq> 0 then Inl Exit_Failure
      else let (rl, n) = sys_listen K sd MAX_PENDING n in if rl \<noteq> 0 then Inl Exit_Failure
      else let (fl, n) = sys_getfl K sd n; (st, n) = sys_setfl K sd (fl OR O_NONBLOCK) n in
        if st = -1 then Inl Exit_Failure else Inr (sd, n))"

definition a_listen ::
  "nat \<Rightarrow> 'n sockapi \<Rightarrow> nat \<Rightarrow> int \<Rightarrow> int \<Rightarrow> ptr \<Rightarrow> 'n \<Rightarrow> environ \<Rightarrow> (bool \<times> 'n acm) res" where
  "a_listen k K cap tmo port buffer n e =
     bindR (a_start K port n) (\<lambda>(listener, n).
     bindR (a_loop k K cap tmo buffer listener \<lparr>ac_clients = [], ac_net = n, ac_env = e\<rparr>) (\<lambda>(ended, a).
     Inr (ended, if ended then a\<lparr>ac_net := a_shut K listener (ac_net a)\<rparr> else a)))"

end
