(* ===== verification/Connmgr_Rep.thy ===== *)
theory Connmgr_Rep
  imports Connmgr_Spec Owned_List
begin

text \<open>
  \<open>connmgr.c\<close> refines the abstract connection manager. The relation \<open>cm_rep\<close> ties the memory to the list of
  clients: the list owns its elements, every element has an open socket of its own, and there are no
  sockets but these and the listener's.
\<close>

section \<open>The representation\<close>

definition cm_callbacks :: "sensor_info_t dplist_t" where
  "cm_callbacks = \<lparr>dl_head = NULL, element_copy = element_copy_connmgr,
     element_free = element_free_connmgr, element_compare = element_compare_connmgr\<rparr>"

interpretation cm_own: owning_callbacks cm_callbacks
  by unfold_locales
    (auto simp: cm_callbacks_def element_copy_connmgr_def element_free_connmgr_def malloc_def mem_simps)

definition cl_of :: "sensor_info_t \<Rightarrow> client" where
  "cl_of v = \<lparr>cl_sd = si_sd v, cl_ts = si_ts v, cl_id = si_id v\<rparr>"

definition clients_of :: "sensor_info_t owned \<Rightarrow> client list" where
  "clients_of xs = map (\<lambda>x. cl_of (s_val x)) xs"

definition sock_of :: "addr \<times> addr \<times> sensor_info_t \<Rightarrow> addr \<times> int" where
  "sock_of x = (the (si_socket (s_val x)), si_sd (s_val x))"

text \<open>The socket structures limit the number of clients to \<open>cap\<close>; there is room for as many elsewhere.\<close>

definition cm_room :: "nat \<Rightarrow> 'n cm_state \<Rightarrow> bool" where
  "cm_room cap s \<longleftrightarrow> msize (socks (cm_tcp s)) = Suc cap \<and> cap < msize (ips (cm_tcp s))
     \<and> cap \<le> msize (nodes (cm_mem s)) \<and> cap < msize (elems (cm_mem s))"

definition cm_rep :: "nat \<Rightarrow> addr \<Rightarrow> int \<Rightarrow> 'n cm_state \<Rightarrow> sensor_info_t owned \<Rightarrow> bool" where
  "cm_rep cap srv lsd s xs \<longleftrightarrow>
     (\<exists>l. client_list s = Some l \<and> own_rep (cm_mem s) l cm_callbacks xs) \<and> sk_ok (cm_tcp s)
     \<and> (\<forall>x \<in> set xs. si_socket (s_val x) \<noteq> NULL)
     \<and> distinct (srv # map (fst \<circ> sock_of) xs)
     \<and> live (cm_tcp s) = map_of ((srv, lsd) # map sock_of xs)
     \<and> cm_room cap s"

text \<open>With the network and the environment: the state \<open>s\<close> represents the abstract state.\<close>

definition cm_is :: "nat \<Rightarrow> addr \<Rightarrow> int \<Rightarrow> sensor_info_t owned \<Rightarrow> 'n \<Rightarrow> environ \<Rightarrow> 'n cm_state \<Rightarrow> bool" where
  "cm_is cap srv lsd xs n e s \<longleftrightarrow> cm_rep cap srv lsd s xs \<and> net (cm_tcp s) = n \<and> env s = e"

lemma cl_of_sel [simp]: "cl_sd (cl_of v) = si_sd v" "cl_ts (cl_of v) = si_ts v" "cl_id (cl_of v) = si_id v"
  by (simp_all add: cl_of_def)

lemma clients_of_simps [simp]:
  "clients_of [] = []" "clients_of (x # xs) = cl_of (s_val x) # clients_of xs"
  "clients_of (xs @ ys) = clients_of xs @ clients_of ys" "length (clients_of xs) = length xs"
  by (simp_all add: clients_of_def)

lemma cm_is_env: "cm_is cap srv lsd xs n e s \<Longrightarrow> cm_is cap srv lsd xs n e' (s\<lparr>env := e'\<rparr>)"
  by (simp add: cm_is_def cm_rep_def cm_room_def)

lemma cm_is_net:
  "cm_is cap srv lsd xs n e s \<Longrightarrow> cm_is cap srv lsd xs n' e (s\<lparr>cm_tcp := (cm_tcp s)\<lparr>net := n'\<rparr>\<rparr>)"
  by (simp add: cm_is_def cm_rep_def cm_room_def)

lemma cm_isE:
  assumes "cm_is cap srv lsd xs n e s"
  obtains l where "client_list s = Some l" "own_rep (cm_mem s) l cm_callbacks xs" "sk_ok (cm_tcp s)"
    "net (cm_tcp s) = n" "env s = e"
  using assms by (auto simp: cm_is_def cm_rep_def)

lemma map_of_at: "distinct (map fst (xs @ (q, d) # ys)) \<Longrightarrow> map_of (xs @ (q, d) # ys) q = Some d"
  by (rule map_of_is_SomeI) auto

lemma map_of_without:
  assumes "distinct (map fst (xs @ (q, d) # ys))"
  shows "(map_of (xs @ (q, d) # ys))(q := None) = map_of (xs @ ys)"
proof
  fix r
  have "q \<notin> fst ` set xs" "q \<notin> fst ` set ys" using assms by auto
  then have "map_of (xs @ ys) q = None" by (simp add: map_of_eq_None_iff)
  then show "((map_of (xs @ (q, d) # ys))(q := None)) r = map_of (xs @ ys) r"
    by (cases "r = q") (simp_all add: map_add_def split: option.split)
qed

lemma map_of_snoc: "q \<notin> set (map fst ys) \<Longrightarrow> map_of (ys @ [(q, d)]) = (map_of ys)(q \<mapsto> d)"
  by (induction ys) auto

lemma cm_is_live:
  assumes "cm_is cap srv lsd (xs @ (a, p, v) # ys) n e s"
  obtains q where "si_socket v = Some q" "live (cm_tcp s) q = Some (si_sd v)" "q \<noteq> srv"
proof -
  have r: "cm_rep cap srv lsd s (xs @ (a, p, v) # ys)" using assms by (simp add: cm_is_def)
  obtain q where q: "si_socket v = Some q" using r by (auto simp: cm_rep_def)
  have d: "distinct (map fst (map sock_of (xs @ (a, p, v) # ys)))" "srv \<noteq> q"
    using r q by (auto simp: cm_rep_def sock_of_def)
  then have "live (cm_tcp s) q = Some (si_sd v)"
    using r q map_of_at[of "map sock_of xs" q "si_sd v" "map sock_of ys"]
    by (simp add: cm_rep_def sock_of_def)
  then show ?thesis using that q d(2) by blast
qed

section \<open>Steps\<close>

lemma receive_field_is:
  assumes "cm_is cap srv lsd (xs @ (a, p, v) # ys) n e s" "a_receive K (si_sd v) k old n = (c, nb, w, n')"
  shows "receive_field K (si_socket v) k old s = Inr (c, nb, w, s\<lparr>cm_tcp := (cm_tcp s)\<lparr>net := n'\<rparr>\<rparr>)"
proof -
  obtain q where q: "si_socket v = Some q" "live (cm_tcp s) q = Some (si_sd v)"
    using assms(1) by (rule cm_is_live)
  have ok: "sk_ok (cm_tcp s)" "net (cm_tcp s) = n" using assms(1) by (auto elim: cm_isE)
  obtain r n1 where r: "sys_recv K (si_sd v) k n = (r, n1)" by (cases "sys_recv K (si_sd v) k n")
  show ?thesis
    using tcp_receive_live[OF ok(1) q(2), of K "le_bytes k old" r n1] r ok(2) assms(2) q(1)
    by (auto simp: receive_field_def a_receive_def split: prod.splits)
qed

text \<open>A write to a client's element that keeps its socket and descriptor.\<close>

lemma set_info_is:
  assumes "cm_is cap srv lsd (xs @ (a, p, v) # ys) n e s"
    and f: "si_socket (f v) = si_socket v" "si_sd (f v) = si_sd v"
  obtains s' where "set_info f s (Some p) = Inr s'" "cm_is cap srv lsd (xs @ (a, p, f v) # ys) n e s'"
    "env s' = env s"
proof -
  obtain l where l: "client_list s = Some l" "own_rep (cm_mem s) l cm_callbacks (xs @ (a, p, v) # ys)"
    using assms(1) by (rule cm_isE)
  obtain E where E: "assign f (elems (cm_mem s)) (Some p) = Inr E"
    "own_rep ((cm_mem s)\<lparr>elems := E\<rparr>) l cm_callbacks (xs @ (a, p, f v) # ys)" "msize E = msize (elems (cm_mem s))"
    using own_set[OF l(2), of f] by blast
  have "sock_of (a, p, f v) = sock_of (a, p, v)" by (simp add: sock_of_def f)
  then show ?thesis
    using that[of "s\<lparr>cm_mem := (cm_mem s)\<lparr>elems := E\<rparr>\<rparr>"] E assms l f
    by (auto simp: set_info_def cm_is_def cm_rep_def cm_room_def)
qed

lemma cm_load:
  "cm_is cap srv lsd (xs @ (a, p, v) # ys) n e s \<Longrightarrow> load (elems (cm_mem s)) (Some p) = Inr v"
  using own_load[of "cm_mem s" _ cm_callbacks "xs @ (a, p, v) # ys" "(a, p, v)"] by (auto elim: cm_isE)

lemma cm_log_sim:
  assumes "cm_is cap srv lsd xs n e s"
  shows "sim (\<lambda>e' s'. cm_is cap srv lsd xs n e' s') (env_log fmt e) (cm_log fmt s)"
proof -
  have "env s = e" using assms by (simp add: cm_is_def)
  then show ?thesis using cm_is_env[OF assms] by (cases "env_log fmt e") (auto simp: cm_log_def)
qed

text \<open>Closing a client's socket and removing it from the list.\<close>

lemma close_remove:
  assumes rep: "cm_is cap srv lsd (xs @ (a, p, v) # ys) n e s"
  obtains s1 s2 where "close_client K (Some p) s = Inr (TCP_NO_ERROR, s1)"
    "remove_client (int (length xs)) s1 = Inr s2" "cm_is cap srv lsd (xs @ ys) (a_shut K (si_sd v) n) e s2"
proof -
  let ?xs = "xs @ (a, p, v) # ys"
  obtain l where l: "client_list s = Some l" "own_rep (cm_mem s) l cm_callbacks ?xs" "sk_ok (cm_tcp s)"
    "net (cm_tcp s) = n" "env s = e"
    using rep by (rule cm_isE)
  obtain q where q: "si_socket v = Some q" "live (cm_tcp s) q = Some (si_sd v)" "q \<noteq> srv"
    using rep by (rule cm_is_live)
  obtain x where x: "cells (socks (cm_tcp s)) q = Some x" "sock_sd x = si_sd v"
    using q(2) by (auto simp: live_def)
  obtain T where T: "tcp_close K (cm_tcp s) (Some (Some q)) = Inr (TCP_NO_ERROR, Some NULL, T)" "sk_ok T"
    "live T = (live (cm_tcp s))(q := None)" "net T = a_shut K (si_sd v) n"
    "msize (socks T) = msize (socks (cm_tcp s))" "msize (ips T) = msize (ips (cm_tcp s))"
    using tcp_close_cases[OF l(3) x(1), of K, unfolded x(2) l(4), folded a_shut_def] by blast
  let ?f = "\<lambda>c. c\<lparr>si_socket := NULL\<rparr>"
  obtain E where E: "assign ?f (elems (cm_mem s)) (Some p) = Inr E"
    "own_rep ((cm_mem s)\<lparr>elems := E\<rparr>) l cm_callbacks (xs @ (a, p, ?f v) # ys)" "msize E = msize (elems (cm_mem s))"
    using own_set[OF l(2), of ?f] by blast
  let ?s1 = "s\<lparr>cm_tcp := T, cm_mem := (cm_mem s)\<lparr>elems := E\<rparr>\<rparr>"
  have 1: "close_client K (Some p) s = Inr (TCP_NO_ERROR, ?s1)"
    using cm_load[OF rep] T(1) q(1) E(1) by (simp add: close_client_def set_info_def)
  obtain H where H: "dpl_remove_at_index ((cm_mem s)\<lparr>elems := E\<rparr>) (Some l) (int (length xs)) True = Inr (Some l, H)"
    "own_rep H l cm_callbacks (xs @ ys)" "msize (nodes H) = msize (nodes (cm_mem s))" "msize (elems H) = msize E"
    using cm_own.own_remove[OF E(2)] by auto
  let ?s2 = "?s1\<lparr>cm_mem := H\<rparr>"
  have 2: "remove_client (int (length xs)) ?s1 = Inr ?s2" using H(1) l(1) by (simp add: remove_client_def)
  have r: "cm_rep cap srv lsd s ?xs" using rep by (simp add: cm_is_def)
  have d: "distinct (map fst (((srv, lsd) # map sock_of xs) @ (q, si_sd v) # map sock_of ys))"
    using r q(1) by (simp add: cm_rep_def sock_of_def)
  have "live T = map_of ((srv, lsd) # map sock_of (xs @ ys))"
    using map_of_without[OF d] r q(1) unfolding T(3) by (simp add: cm_rep_def sock_of_def)
  then have "cm_is cap srv lsd (xs @ ys) (a_shut K (si_sd v) n) e ?s2"
    using r l(1,5) T H E(3) by (auto simp: cm_is_def cm_rep_def cm_room_def)
  with 1 2 show ?thesis by (rule that)
qed

section \<open>One client\<close>

text \<open>The client at \<open>p\<close> with \<open>xs\<close> before and \<open>ys\<close> after it has stayed in the list, or been removed.\<close>

fun visited :: "nat \<Rightarrow> addr \<Rightarrow> int \<Rightarrow> sensor_info_t owned \<Rightarrow> addr \<times> addr \<Rightarrow> sensor_info_t owned
    \<Rightarrow> client option \<times> 'n \<times> environ \<Rightarrow> 'n cm_state \<Rightarrow> bool" where
  "visited cap srv lsd xs ap ys (None, n, e) s = cm_is cap srv lsd (xs @ ys) n e s"
| "visited cap srv lsd xs ap ys (Some c, n, e) s =
     (\<exists>v. c = cl_of v \<and> cm_is cap srv lsd (xs @ (fst ap, snd ap, v) # ys) n e s)"

lemma store_sim:
  assumes rep: "cm_is cap srv lsd (xs @ (a, p, v) # ys) n e s"
  shows "sim (visited cap srv lsd xs (a, p) ys) (a_store K buffer (cl_of v) m n e)
    (store_measurement K buffer (Some p) m s)"
proof -
  obtain c1 k1 w1 n1 where r1: "a_receive K (si_sd v) 8 (unat (raw_value m)) n = (c1, k1, w1, n1)"
    by (metis prod_cases4)
  obtain c2 k2 w2 n2 where r2: "a_receive K (si_sd v) 8 (unat (raw_ts m)) n1 = (c2, k2, w2, n2)"
    by (metis prod_cases4)
  let ?m = "m\<lparr>raw_value := of_nat w1, raw_ts := of_nat w2\<rparr>"
  note s1 = cm_is_net[OF rep, of n1]
  note f1 = receive_field_is[OF rep r1]
  note s2 = cm_is_net[OF s1, of n2]
  note f2 = receive_field_is[OF s1 r2]
  let ?s2 = "s\<lparr>cm_tcp := (cm_tcp s)\<lparr>net := n2\<rparr>\<rparr>"
  have is2: "cm_is cap srv lsd (xs @ (a, p, v) # ys) n2 e ?s2" using s2 by simp
  define w where "w = (if si_ts v = 0 then v\<lparr>si_id := raw_id m\<rparr> else v)"
  have opened: "sim (\<lambda>e' s'. cm_is cap srv lsd (xs @ (a, p, w) # ys) n2 e' s')
      (if si_ts v = 0 then env_log (msg_opened (raw_id m)) e else Inr e)
      (if si_ts v = 0 then bindR (set_info (\<lambda>c. c\<lparr>si_id := raw_id m\<rparr>) ?s2 (Some p)) (cm_log (msg_opened (raw_id m)))
       else Inr ?s2)"
  proof (cases "si_ts v = 0")
    case True
    obtain s3 where s3: "set_info (\<lambda>c. c\<lparr>si_id := raw_id m\<rparr>) ?s2 (Some p) = Inr s3"
      "cm_is cap srv lsd (xs @ (a, p, w) # ys) n2 e s3"
      using set_info_is[OF is2, of "\<lambda>c. c\<lparr>si_id := raw_id m\<rparr>"] True unfolding w_def by auto
    then show ?thesis using cm_log_sim[OF s3(2)] True by simp
  qed (use is2 in \<open>simp add: w_def\<close>)
  have insert: "sim (visited cap srv lsd xs (a, p) ys)
      (bindR (env_insert buffer (data_of ?m) e') (\<lambda>e. Inr (Some ((cl_of v)\<lparr>cl_ts := of_nat w2,
         cl_id := (if si_ts v = 0 then raw_id m else si_id v)\<rparr>), n2, e)))
      (bindR (set_info (\<lambda>c. c\<lparr>si_ts := of_nat w2\<rparr>) s' (Some p)) (\<lambda>s.
       bindR (env_insert buffer (data_of ?m) (env s)) (\<lambda>e. Inr (s\<lparr>env := e\<rparr>))))"
    if is': "cm_is cap srv lsd (xs @ (a, p, w) # ys) n2 e' s'" for e' s'
  proof -
    obtain s4 where s4: "set_info (\<lambda>c. c\<lparr>si_ts := of_nat w2\<rparr>) s' (Some p) = Inr s4"
      "cm_is cap srv lsd (xs @ (a, p, w\<lparr>si_ts := of_nat w2\<rparr>) # ys) n2 e' s4" "env s4 = e'"
      using set_info_is[OF is', of "\<lambda>c. c\<lparr>si_ts := of_nat w2\<rparr>"] is' by (auto simp: cm_is_def)
    have "(cl_of v)\<lparr>cl_ts := of_nat w2, cl_id := (if si_ts v = 0 then raw_id m else si_id v)\<rparr>
        = cl_of (w\<lparr>si_ts := of_nat w2\<rparr>)"
      by (simp add: cl_of_def w_def)
    then show ?thesis using s4 cm_is_env[OF s4(2)]
      by (cases "env_insert buffer (data_of ?m) e'") auto
  qed
  have A: "a_store K buffer (cl_of v) m n e =
      bindR (if si_ts v = 0 then env_log (msg_opened (raw_id m)) e else Inr e) (\<lambda>e'.
      bindR (env_insert buffer (data_of ?m) e') (\<lambda>e. Inr (Some ((cl_of v)\<lparr>cl_ts := of_nat w2,
         cl_id := (if si_ts v = 0 then raw_id m else si_id v)\<rparr>), n2, e)))"
    by (simp add: a_store_def r1 r2 Let_def)
  have C: "store_measurement K buffer (Some p) m s =
      bindR (if si_ts v = 0 then bindR (set_info (\<lambda>c. c\<lparr>si_id := raw_id m\<rparr>) ?s2 (Some p)) (cm_log (msg_opened (raw_id m)))
       else Inr ?s2) (\<lambda>s'.
      bindR (set_info (\<lambda>c. c\<lparr>si_ts := of_nat w2\<rparr>) s' (Some p)) (\<lambda>s.
      bindR (env_insert buffer (data_of ?m) (env s)) (\<lambda>e. Inr (s\<lparr>env := e\<rparr>))))"
    using f2 by (simp add: store_measurement_def cm_load[OF rep] f1 Let_def)
  show ?thesis unfolding A C by (rule sim_bind[OF opened]) (rule insert)
qed

lemma close_sim:
  assumes rep: "cm_is cap srv lsd (xs @ (a, p, v) # ys) n e s"
  shows "sim (visited cap srv lsd xs (a, p) ys) (Inr (None, a_shut K (si_sd v) n, e))
    (bindR (close_client K (Some p) s) (\<lambda>(result, s).
     bindR (check_exit (result = TCP_NO_ERROR)) (\<lambda>_. remove_client (int (length xs)) s)))"
  by (rule close_remove[OF rep, of K]) (auto simp: check_exit_def)

lemma data_sim:
  assumes rep: "cm_is cap srv lsd (xs @ (a, p, v) # ys) n e s"
  shows "sim (visited cap srv lsd xs (a, p) ys) (a_data K buffer (cl_of v) m n e)
    (handle_data K buffer (int (length xs)) (Some p) m s)"
proof -
  obtain c k w n1 where r: "a_receive K (si_sd v) 2 (unat (raw_id m)) n = (c, k, w, n1)"
    by (metis prod_cases4)
  note f = receive_field_is[OF rep r]
  let ?m = "m\<lparr>raw_id := of_nat w\<rparr>"
  let ?s = "s\<lparr>cm_tcp := (cm_tcp s)\<lparr>net := n1\<rparr>\<rparr>"
  have rep1: "cm_is cap srv lsd (xs @ (a, p, v) # ys) n1 e ?s" by (rule cm_is_net[OF rep])
  have A: "a_data K buffer (cl_of v) m n e = (if c = TCP_CONNECTION_CLOSED
      then bindR (env_log (msg_closed (si_id v)) e) (\<lambda>e. Inr (None, a_shut K (si_sd v) n1, e))
      else if c = TCP_NO_ERROR \<and> 0 < k then a_store K buffer (cl_of v) ?m n1 e
      else Inr (Some (cl_of v), n1, e))"
    by (simp add: a_data_def r)
  have C: "handle_data K buffer (int (length xs)) (Some p) m s = (if c = TCP_CONNECTION_CLOSED
      then bindR (cm_log (msg_closed (si_id v)) ?s) (\<lambda>s. bindR (close_client K (Some p) s) (\<lambda>(result, s).
        bindR (check_exit (result = TCP_NO_ERROR)) (\<lambda>_. remove_client (int (length xs)) s)))
      else if c = TCP_NO_ERROR \<and> 0 < k then store_measurement K buffer (Some p) ?m ?s
      else Inr ?s)"
    by (simp add: handle_data_def cm_load[OF rep] f)
  show ?thesis
    unfolding A C using rep1 store_sim[OF rep1] sim_bind[OF cm_log_sim[OF rep1] close_sim] by auto
qed

lemma timeout_sim:
  assumes rep: "cm_is cap srv lsd (xs @ (a, p, v) # ys) n e s" and rd: "si_sd v \<notin> rd" "fd_range (si_sd v) = Inr ()"
  shows "sim (\<lambda>r (rd', s'). rd' = rd \<and> visited cap srv lsd xs (a, p) ys r s') (a_timeout K tmo (cl_of v) n e)
    (check_timeout K tmo (int (length xs)) (Some p) rd s)"
proof -
  obtain t w where t: "time_now (io_world e) = (t, w)" by fastforce
  have e: "env s = e" using rep by (simp add: cm_is_def)
  let ?e = "e\<lparr>io_world := w\<rparr>" and ?s = "s\<lparr>env := e\<lparr>io_world := w\<rparr>\<rparr>"
  have rep1: "cm_is cap srv lsd (xs @ (a, p, v) # ys) n ?e ?s" by (rule cm_is_env[OF rep])
  have A: "a_timeout K tmo (cl_of v) n e = bindR (time_diff t (si_ts v)) (\<lambda>d.
      if tmo \<le> d \<and> si_ts v \<noteq> 0 then Inr (None, a_shut K (si_sd v) n, ?e) else Inr (Some (cl_of v), n, ?e))"
    by (simp add: a_timeout_def t Let_def cong: if_cong)
  have "rd - {si_sd v} = rd" using rd(1) by simp
  then have C: "check_timeout K tmo (int (length xs)) (Some p) rd s = bindR (time_diff t (si_ts v)) (\<lambda>d.
      if tmo \<le> d \<and> si_ts v \<noteq> 0 then
        bindR (close_client K (Some p) ?s) (\<lambda>(_, s). bindR (remove_client (int (length xs)) s) (\<lambda>s. Inr (rd, s)))
      else Inr (rd, ?s))"
    using e rd(2) by (simp add: check_timeout_def cm_load[OF rep] t fd_clr_def Let_def cong: if_cong)
  obtain s1 s2 where s: "close_client K (Some p) ?s = Inr (TCP_NO_ERROR, s1)"
    "remove_client (int (length xs)) s1 = Inr s2" "cm_is cap srv lsd (xs @ ys) (a_shut K (si_sd v) n) ?e s2"
    by (rule close_remove[OF rep1, of K])
  show ?thesis unfolding A C by (rule sim_same) (use s rep1 in auto)
qed

lemma visit_sim:
  assumes rep: "cm_is cap srv lsd (xs @ (a, p, v) # ys) n e s"
  shows "sim (\<lambda>r (rd', s'). rd' = rd \<and> visited cap srv lsd xs (a, p) ys r s')
    (a_visit K tmo buffer rd (cl_of v) n e) (visit_client K tmo buffer (int (length xs)) rd s)"
proof -
  obtain ok m e1 where m: "env_malloc e = (ok, m, e1)" by (metis prod_cases3)
  obtain l where l: "client_list s = Some l" "own_rep (cm_mem s) l cm_callbacks (xs @ (a, p, v) # ys)" "env s = e"
    using rep by (rule cm_isE)
  let ?s = "s\<lparr>env := e1\<rparr>"
  have rep1: "cm_is cap srv lsd (xs @ (a, p, v) # ys) n e1 ?s" by (rule cm_is_env[OF rep])
  have A: "a_visit K tmo buffer rd (cl_of v) n e = bindR (check_exit ok) (\<lambda>_. bindR (fd_range (si_sd v)) (\<lambda>_.
      if si_sd v \<in> rd then a_data K buffer (cl_of v) m n e1 else a_timeout K tmo (cl_of v) n e1))"
    by (simp add: a_visit_def m fd_isset_def bindR_assoc)
  have C: "visit_client K tmo buffer (int (length xs)) rd s = bindR (check_exit ok) (\<lambda>_. bindR (fd_range (si_sd v)) (\<lambda>_.
      if si_sd v \<in> rd then bindR (handle_data K buffer (int (length xs)) (Some p) m ?s) (\<lambda>s. Inr (rd, s))
      else check_timeout K tmo (int (length xs)) (Some p) rd ?s))"
    using own_get[OF l(2)] l(1,3) m cm_load[OF rep]
    by (simp add: visit_client_def check_exit_def fd_isset_def bindR_assoc)
  have data: "sim (\<lambda>r (rd', s'). rd' = rd \<and> visited cap srv lsd xs (a, p) ys r s') (a_data K buffer (cl_of v) m n e1)
      (bindR (handle_data K buffer (int (length xs)) (Some p) m ?s) (\<lambda>s. Inr (rd, s)))"
    using data_sim[OF rep1, of K buffer m] by (cases "a_data K buffer (cl_of v) m n e1") auto
  show ?thesis
    unfolding A C
  proof (intro sim_same)
    fix u :: unit assume "fd_range (si_sd v) = Inr u"
    then show "sim (\<lambda>r (rd', s'). rd' = rd \<and> visited cap srv lsd xs (a, p) ys r s')
      (if si_sd v \<in> rd then a_data K buffer (cl_of v) m n e1 else a_timeout K tmo (cl_of v) n e1)
      (if si_sd v \<in> rd then bindR (handle_data K buffer (int (length xs)) (Some p) m ?s) (\<lambda>s. Inr (rd, s))
       else check_timeout K tmo (int (length xs)) (Some p) rd ?s)"
      using data timeout_sim[OF rep1] by (cases "si_sd v \<in> rd") simp_all
  qed
qed

section \<open>All clients\<close>

lemma cm_is_size:
  assumes "cm_is cap srv lsd xs n e s"
  shows "dpl_size (cm_mem s) (client_list s) = Inr (int (length xs))" "length xs < fuel (nodes (cm_mem s))"
  using assms by (auto elim!: cm_isE dest: own_size own_length)

lemma visit_loop_sim:
  assumes "cm_is cap srv lsd (xs @ ys) n e s" "length ys < k"
  shows "sim (\<lambda>(cs, n, e) s'. \<exists>zs. cs = clients_of zs \<and> cm_is cap srv lsd (xs @ zs) n e s')
    (a_pass K tmo buffer rd (clients_of ys) n e) (visit_loop k K tmo buffer (int (length xs)) rd s)"
  using assms
proof (induction "length ys" arbitrary: xs ys n e s k rule: less_induct)
  case less
  obtain j where k: "k = Suc j" using less.prems(2) by (cases k) auto
  note size = cm_is_size(1)[OF less.prems(1)]
  show ?case
  proof (cases ys)
    case Nil
    then show ?thesis using size less.prems(1) k by (auto intro: exI[of _ "[]"])
  next
    case (Cons y ys')
    obtain a p v where y: "y = (a, p, v)" by (cases y)
    have rep: "cm_is cap srv lsd (xs @ (a, p, v) # ys') n e s" using less.prems(1) Cons y by simp
    have C: "visit_loop k K tmo buffer (int (length xs)) rd s
        = bindR (visit_client K tmo buffer (int (length xs)) rd s) (\<lambda>(rd, s).
          visit_loop j K tmo buffer (int (length xs) + 1) rd s)"
      using size Cons k by simp
    have A: "a_pass K tmo buffer rd (clients_of ys) n e = bindR (a_visit K tmo buffer rd (cl_of v) n e)
        (\<lambda>(r, n, e). case r of
          Some c \<Rightarrow> bindR (a_pass K tmo buffer rd (clients_of ys') n e) (\<lambda>(cs, n, e). Inr (c # cs, n, e))
        | None \<Rightarrow> (case clients_of ys' of [] \<Rightarrow> Inr ([], n, e)
            | d # ds \<Rightarrow> bindR (a_pass K tmo buffer rd ds n e) (\<lambda>(ds, n, e). Inr (d # ds, n, e))))"
      using Cons y by simp
    show ?thesis
      unfolding A C
    proof (rule sim_bind[OF visit_sim[OF rep]], clarsimp, goal_cases)
      case (1 r n1 e1 s1)
      show ?case
      proof (cases r)
        case (Some c)
        then obtain w where w: "c = cl_of w" "cm_is cap srv lsd ((xs @ [(a, p, w)]) @ ys') n1 e1 s1"
          using 1 by auto
        have "sim (\<lambda>(cs, n, e) s'. \<exists>zs. cs = clients_of zs \<and> cm_is cap srv lsd ((xs @ [(a, p, w)]) @ zs) n e s')
            (a_pass K tmo buffer rd (clients_of ys') n1 e1)
            (visit_loop j K tmo buffer (int (length (xs @ [(a, p, w)]))) rd s1)"
          using less.prems(2) Cons k by (intro less.hyps[OF _ w(2)]) simp_all
        then show ?thesis using Some w(1)
          by (cases "a_pass K tmo buffer rd (clients_of ys') n1 e1")
            (auto simp: add.commute intro!: exI[of _ "(a, p, w) # _"])
      next
        case None
        then have s1: "cm_is cap srv lsd (xs @ ys') n1 e1 s1" using 1 by simp
        show ?thesis
        proof (cases ys')
          case Nil
          then have "0 < j" using less.prems(2) Cons k by simp
          then obtain i where "j = Suc i" by (cases j) auto
          then show ?thesis using None Nil s1 cm_is_size(1)[OF s1] by (auto intro: exI[of _ "[]"])
        next
          case (Cons z zs)
          have s2: "cm_is cap srv lsd ((xs @ [z]) @ zs) n1 e1 s1" using s1 Cons by simp
          have "sim (\<lambda>(cs, n, e) s'. \<exists>zs. cs = clients_of zs \<and> cm_is cap srv lsd ((xs @ [z]) @ zs) n e s')
              (a_pass K tmo buffer rd (clients_of zs) n1 e1)
              (visit_loop j K tmo buffer (int (length (xs @ [z]))) rd s1)"
            using less.prems(2) Cons \<open>ys = y # ys'\<close> k by (intro less.hyps[OF _ s2]) simp_all
          then show ?thesis using None Cons
            by (cases "a_pass K tmo buffer rd (clients_of zs) n1 e1")
              (auto simp: add.commute intro!: exI[of _ "z # _"])
        qed
      qed
    qed
  qed
qed

lemma fds_loop_rep:
  assumes "own_rep H l cm_callbacks (xs @ ys)" "length ys < k"
  shows "fds_loop k H (Some l) (int (length xs)) rd mx = a_fds (clients_of ys) rd mx"
  using assms
proof (induction ys arbitrary: xs k rd mx)
  case Nil
  then show ?case using own_size[OF Nil(1)] by (cases k) auto
next
  case (Cons y ys)
  obtain j where k: "k = Suc j" using Cons.prems(2) by (cases k) auto
  have IH: "fds_loop j H (Some l) (int (length xs) + 1) rd mx = a_fds (clients_of ys) rd mx" for rd mx
    using Cons.IH[of "xs @ [y]" j] Cons.prems k by (simp add: add.commute)
  have "load (elems H) (Some (s_elem y)) = Inr (s_val y)" using own_load[OF Cons.prems(1)] by simp
  then show ?case
    using own_size[OF Cons.prems(1)] own_get[OF Cons.prems(1)] k
    by (auto simp: check_exit_def IH max_def intro!: bindR_cong)
qed

section \<open>Accepting\<close>

lemma length_avail: "wf_store st \<Longrightarrow> card (dom (cells st)) = k \<Longrightarrow> length (avail st) = msize st - k"
  using card_live_avail[of st] by simp

text \<open>Where there is room for a new client.\<close>

lemma cm_is_avail:
  assumes "cm_is cap srv lsd xs n e s"
  shows "length xs \<le> cap" "length (avail (socks (cm_tcp s))) = cap - length xs"
    and "length xs < cap \<Longrightarrow> avail (ips (cm_tcp s)) \<noteq> []"
    and "length xs < cap \<Longrightarrow> avail (nodes (cm_mem s)) \<noteq> []"
    and "length xs < cap \<Longrightarrow> \<exists>a b as. avail (elems (cm_mem s)) = a # b # as"
proof -
  obtain l where l: "own_rep (cm_mem s) l cm_callbacks xs" "sk_ok (cm_tcp s)" using assms by (rule cm_isE)
  have r: "cm_rep cap srv lsd s xs" using assms by (simp add: cm_is_def)
  note room = r[unfolded cm_rep_def cm_room_def]
  have d: "distinct (srv # map (fst \<circ> sock_of) xs)" using room by blast
  have "dom (live (cm_tcp s)) = set (srv # map (fst \<circ> sock_of) xs)"
    using room by (simp add: dom_map_of_conv_image_fst image_image comp_def)
  then have socks: "dom (cells (socks (cm_tcp s))) = set (srv # map (fst \<circ> sock_of) xs)"
    by (simp add: live_def dom_def)
  have card: "card (dom (cells (socks (cm_tcp s)))) = Suc (length xs)"
    unfolding socks distinct_card[OF d] by simp
  have wf: "wf_store (socks (cm_tcp s))" "wf_store (ips (cm_tcp s))" using l(2) by (simp_all add: sk_ok_def)
  have "Suc (length xs) \<le> Suc cap"
    using card_live_avail[OF wf(1)] card room by simp
  then show le: "length xs \<le> cap" by simp
  show "length (avail (socks (cm_tcp s))) = cap - length xs"
    using length_avail[OF wf(1) card] room by simp
  have fin: "finite (dom (cells (socks (cm_tcp s))))" unfolding socks by simp
  assume lt: "length xs < cap"
  have "card (dom (cells (ips (cm_tcp s)))) \<le> Suc (length xs)"
    using strings_le_sockets[OF l(2) fin] card by simp
  then show "avail (ips (cm_tcp s)) \<noteq> []" using card_live_avail[OF wf(2)] room lt by auto
  have wfn: "wf_store (nodes (cm_mem s))" "wf_store (elems (cm_mem s))"
    using l(1) by (simp_all add: own_rep_def dpl_rep_def)
  have dom: "dom (cells (nodes (cm_mem s))) = s_node ` set xs" "dom (cells (elems (cm_mem s))) = s_elem ` set xs"
    using l(1) by (simp_all add: own_rep_def)
  have le: "card (f ` set xs) \<le> length xs" for f :: "addr \<times> addr \<times> sensor_info_t \<Rightarrow> addr"
    using card_image_le[of "set xs" f] card_length[of xs] by simp
  show "avail (nodes (cm_mem s)) \<noteq> []"
    using card_live_avail[OF wfn(1)] le[of s_node] room lt unfolding dom by auto
  have "2 \<le> length (avail (elems (cm_mem s)))"
    using card_live_avail[OF wfn(2)] le[of s_elem] room lt unfolding dom by linarith
  then show "\<exists>a b as. avail (elems (cm_mem s)) = a # b # as"
    by (cases "avail (elems (cm_mem s))"; cases "tl (avail (elems (cm_mem s)))") auto
qed

lemma accept_sim:
  assumes rep: "cm_is cap srv lsd xs n e s"
  shows "sim (\<lambda>(cs, n) s'. \<exists>zs. cs = clients_of zs \<and> cm_is cap srv lsd zs n e s')
    (a_accept K cap lsd (clients_of xs) n) (accept_client K (Some srv) s)"
proof -
  obtain l where l: "client_list s = Some l" "own_rep (cm_mem s) l cm_callbacks xs" "sk_ok (cm_tcp s)"
    "net (cm_tcp s) = n" "env s = e"
    using rep by (rule cm_isE)
  have r: "cm_rep cap srv lsd s xs" using rep by (simp add: cm_is_def)
  have srv: "live (cm_tcp s) srv = Some lsd" using r by (simp add: cm_rep_def)
  obtain sd addr n1 where acc: "sys_accept K lsd n = (sd, addr, n1)" by (metis prod_cases3)
  obtain c q T where T: "tcp_wait_for_connection K (cm_tcp s) (Some srv) (Some NULL) = Inr (c, Some q, T)"
    "sk_ok T" "net T = (if avail (socks (cm_tcp s)) = [] then net (cm_tcp s) else n1)"
    "c = (if avail (socks (cm_tcp s)) = [] then TCP_MEMORY_ERROR else if sd = -1 then TCP_SOCKOP_ERROR
          else if avail (ips (cm_tcp s)) = [] then TCP_MEMORY_ERROR else TCP_NO_ERROR)"
    "c = TCP_NO_ERROR \<Longrightarrow> q = Some (hd (avail (socks (cm_tcp s)))) \<and> live (cm_tcp s) (hd (avail (socks (cm_tcp s)))) = None
      \<and> live T = (live (cm_tcp s))(hd (avail (socks (cm_tcp s))) \<mapsto> sd)"
    "msize (socks T) = msize (socks (cm_tcp s))" "msize (ips T) = msize (ips (cm_tcp s))"
    using tcp_wait_ok[OF l(3) srv acc[folded l(4)], of NULL] by blast
  have exit_code: "c \<noteq> TCP_NO_ERROR \<Longrightarrow> accept_client K (Some srv) s = Inl Exit_Failure"
    using T(1) by (simp add: accept_client_def check_exit_def)
  note avail = cm_is_avail[OF rep]
  show ?thesis
  proof (cases "length xs < cap \<and> sd \<noteq> -1")
    case False
    then have "c \<noteq> TCP_NO_ERROR" using T(4) avail(2) by (auto simp: TCP_NO_ERROR_def TCP_MEMORY_ERROR_def TCP_SOCKOP_ERROR_def)
    then show ?thesis using exit_code False acc by (auto simp: a_accept_def)
  next
    case True
    obtain a b as where el: "avail (elems (cm_mem s)) = a # b # as" using avail(5) True by blast
    obtain d ds where nd: "avail (nodes (cm_mem s)) = d # ds"
      using avail(4) True by (cases "avail (nodes (cm_mem s))") auto
    have sne: "avail (socks (cm_tcp s)) \<noteq> []" using avail(2) True by auto
    then have c: "c = TCP_NO_ERROR" using T(4) avail(3) True by simp
    define sk where "sk = hd (avail (socks (cm_tcp s)))"
    have q: "q = Some sk" "live (cm_tcp s) sk = None" "live T = (live (cm_tcp s))(sk \<mapsto> sd)"
      using T(5)[OF c] by (simp_all add: sk_def)
    have gsd: "tcp_get_sd T (Some sk) 0 = Inr (TCP_NO_ERROR, sd)" by (rule tcp_get_sd_live[OF T(2)]) (simp add: q(3))
    define v where "v = \<lparr>si_socket = Some sk, si_ts = 0, si_sd = sd, si_id = 0\<rparr>"
    define E where "E = (elems (cm_mem s))\<lparr>cells := (cells (elems (cm_mem s)))(a \<mapsto> v), avail := b # as\<rparr>"
    have m: "malloc v (elems (cm_mem s)) = Some (a, E)" using el by (simp add: malloc_def E_def)
    obtain H E' where H: "dpl_insert_at_index ((cm_mem s)\<lparr>elems := E\<rparr>) (Some l) (Some a) (int (length xs)) True
        = Inr (Some l, H)"
      "free (elems H) (Some a) = Inr E'" "own_rep (H\<lparr>elems := E'\<rparr>) l cm_callbacks (xs @ [(d, b, v)])"
      "msize E' = msize (elems (cm_mem s))" "msize (nodes H) = msize (nodes (cm_mem s))"
      using cm_own.own_append[OF l(2) el nd _ E_def, of "int (length xs)"] by blast
    have "dpl_size ((cm_mem s)\<lparr>elems := E\<rparr>) (Some l) = Inr (int (length xs))"
      using dpl_size_rep[of "(cm_mem s)\<lparr>elems := E\<rparr>" l cm_callbacks "chain_of xs"] l(2)
      by (simp add: own_rep_def)
    then have C: "accept_client K (Some srv) s = Inr (s\<lparr>cm_mem := H\<lparr>elems := E'\<rparr>, cm_tcp := T\<rparr>)"
      using T(1) c q(1) gsd m H(1,2) l(1) by (simp add: accept_client_def check_exit_def v_def)
    have "map_of ((srv, lsd) # map sock_of xs) sk = None" using r q(2) by (simp add: cm_rep_def)
    then have new: "sk \<notin> set (map fst ((srv, lsd) # map sock_of xs))" unfolding map_of_eq_None_iff set_map .
    then have new2: "sk \<notin> (\<lambda>x. fst (sock_of x)) ` set xs" by force
    have so: "sock_of (d, b, v) = (sk, sd)" by (simp add: sock_of_def v_def)
    have "live T = map_of ((srv, lsd) # map sock_of (xs @ [(d, b, v)]))"
      using map_of_snoc[OF new] r unfolding q(3) by (simp add: cm_rep_def so)
    moreover have "distinct (srv # map (fst \<circ> sock_of) (xs @ [(d, b, v)]))"
      using r new new2 by (auto simp: cm_rep_def so)
    moreover have "cm_room cap (s\<lparr>cm_mem := H\<lparr>elems := E'\<rparr>, cm_tcp := T\<rparr>)"
      using r H(4,5) T(6,7) by (simp add: cm_rep_def cm_room_def)
    moreover have "\<forall>x \<in> set (xs @ [(d, b, v)]). si_socket (s_val x) \<noteq> NULL"
      using r by (simp add: cm_rep_def v_def)
    ultimately have "cm_rep cap srv lsd (s\<lparr>cm_mem := H\<lparr>elems := E'\<rparr>, cm_tcp := T\<rparr>) (xs @ [(d, b, v)])"
      using T(2) H(3) l(1) by (simp add: cm_rep_def)
    then have "cm_is cap srv lsd (xs @ [(d, b, v)]) n1 e (s\<lparr>cm_mem := H\<lparr>elems := E'\<rparr>, cm_tcp := T\<rparr>)"
      using T(3) l(5) sne by (simp add: cm_is_def)
    then show ?thesis using C True acc
      by (auto simp: a_accept_def cl_of_def v_def intro!: exI[of _ "xs @ [(d, b, v)]"])
  qed
qed

section \<open>The main loop\<close>

text \<open>The relation of a result of the loop to the abstract one.\<close>

definition cm_sim :: "nat \<Rightarrow> addr \<Rightarrow> int \<Rightarrow> bool \<times> 'n acm \<Rightarrow> bool \<times> 'n cm_state \<Rightarrow> bool" where
  "cm_sim cap srv lsd ra rs \<longleftrightarrow> fst ra = fst rs \<and> (\<exists>xs. ac_clients (snd ra) = clients_of xs
     \<and> cm_is cap srv lsd xs (ac_net (snd ra)) (ac_env (snd ra)) (snd rs))"

lemma round_sim:
  assumes rep: "cm_is cap srv lsd xs (ac_net a) (ac_env a) s" and cs: "ac_clients a = clients_of xs"
  shows "sim (cm_sim cap srv lsd) (a_round K cap tmo buffer lsd a) (connmgr_round K tmo buffer (Some srv) lsd s)"
proof -
  obtain l where l: "client_list s = Some l" "own_rep (cm_mem s) l cm_callbacks xs"
    "net (cm_tcp s) = ac_net a" "env s = ac_env a"
    using rep by (rule cm_isE)
  have fds: "fds_loop (fuel (nodes (cm_mem s))) (cm_mem s) (client_list s) 0 rd mx = a_fds (ac_clients a) rd mx" for rd mx
    using fds_loop_rep[of "cm_mem s" l "[]" xs "fuel (nodes (cm_mem s))"] l(1,2) cm_is_size(2)[OF rep] cs by simp
  show ?thesis
    unfolding a_round_def connmgr_round_def fds
  proof (intro sim_same, clarsimp, goal_cases)
    case (1 rd0 rd mx)
    obtain act rdy n1 where sel: "sys_select K (mx + 1) rd tmo (ac_net a) = (act, rdy, n1)" by (metis prod_cases3)
    let ?s = "s\<lparr>cm_tcp := (cm_tcp s)\<lparr>net := n1\<rparr>\<rparr>" and ?rd = "rd \<inter> rdy"
    have rep1: "cm_is cap srv lsd xs n1 (ac_env a) ?s" by (rule cm_is_net[OF rep])
    have range: "fd_range lsd = Inr ()"
      using 1(1) by (cases "fd_range lsd") (auto simp: fd_set_def)
    have ending: "cm_sim cap srv lsd (True, a\<lparr>ac_net := n1\<rparr>) (True, ?s)"
      using rep1 cs by (auto simp: cm_sim_def)
    have new: "sim (\<lambda>(cs, n) s'. \<exists>zs. cs = clients_of zs \<and> cm_is cap srv lsd zs n (ac_env a) s')
        (if lsd \<in> ?rd then a_accept K cap lsd (ac_clients a) n1 else Inr (ac_clients a, n1))
        (if lsd \<in> ?rd then accept_client K (Some srv) ?s else Inr ?s)"
      using accept_sim[OF rep1, of K] rep1 cs by auto
    have pass: "sim (cm_sim cap srv lsd)
        (bindR (a_pass K tmo buffer ?rd (fst x) (snd x) (ac_env a)) (\<lambda>(cs, n, e).
          Inr (False, a\<lparr>ac_clients := cs, ac_net := n, ac_env := e\<rparr>)))
        (bindR (visit_loop (fuel (nodes (cm_mem s'))) K tmo buffer 0 ?rd s') (\<lambda>s. Inr (False, s)))"
      if x: "case x of (cs, n) \<Rightarrow> \<exists>zs. cs = clients_of zs \<and> cm_is cap srv lsd zs n (ac_env a) s'" for x s'
    proof -
      obtain zs n where zs: "x = (clients_of zs, n)" "cm_is cap srv lsd zs n (ac_env a) s'"
        using x by (cases x) auto
      have "sim (\<lambda>(cs, n, e) s'. \<exists>zs. cs = clients_of zs \<and> cm_is cap srv lsd ([] @ zs) n e s')
          (a_pass K tmo buffer ?rd (clients_of zs) n (ac_env a))
          (visit_loop (fuel (nodes (cm_mem s'))) K tmo buffer (int (length ([] :: sensor_info_t owned))) ?rd s')"
        using zs(2) cm_is_size(2)[OF zs(2)] by (intro visit_loop_sim) simp_all
      then show ?thesis using zs(1)
        by (cases "a_pass K tmo buffer ?rd (clients_of zs) n (ac_env a)") (auto simp: cm_sim_def)
    qed
    have "sim (cm_sim cap srv lsd)
        (bindR (if lsd \<in> ?rd then a_accept K cap lsd (ac_clients a) n1 else Inr (ac_clients a, n1)) (\<lambda>x.
          bindR (a_pass K tmo buffer ?rd (fst x) (snd x) (ac_env a)) (\<lambda>(cs, n, e).
          Inr (False, a\<lparr>ac_clients := cs, ac_net := n, ac_env := e\<rparr>))))
        (bindR (if lsd \<in> ?rd then accept_client K (Some srv) ?s else Inr ?s) (\<lambda>s'.
          bindR (visit_loop (fuel (nodes (cm_mem s'))) K tmo buffer 0 ?rd s') (\<lambda>s. Inr (False, s))))"
      by (rule sim_bind[OF new]) (simp add: pass case_prod_beta)
    then show ?case
      using sel l(3) ending range by (cases "lsd \<in> rd"; cases "lsd \<in> rdy") (simp_all add: fd_isset_def Let_def split_def)
  qed
qed

lemma loop_sim:
  assumes "cm_is cap srv lsd xs (ac_net a) (ac_env a) s" "ac_clients a = clients_of xs"
  shows "sim (cm_sim cap srv lsd) (a_loop k K cap tmo buffer lsd a) (connmgr_loop k K tmo buffer (Some srv) lsd s)"
  using assms
proof (induction k arbitrary: xs a s)
  case 0
  then show ?case by (auto simp: cm_sim_def)
next
  case (Suc k)
  show ?case
    unfolding a_loop.simps connmgr_loop.simps
  proof (rule sim_bind[OF round_sim[OF Suc.prems]], clarsimp simp: cm_sim_def[of cap srv lsd "(_, _)"], goal_cases)
    case (1 e1 a1 s1 ys)
    show ?case
    proof (cases e1)
      case True
      then show ?thesis using 1 by (auto simp: cm_sim_def)
    next
      case False
      then show ?thesis using Suc.IH[of ys a1 s1] 1 by simp
    qed
  qed
qed

section \<open>The thread\<close>

text \<open>A state in which nothing is allocated, with room for \<open>cap\<close> clients.\<close>

definition cm_fresh :: "nat \<Rightarrow> 'n \<Rightarrow> environ \<Rightarrow> 'n cm_state" where
  "cm_fresh cap n e = \<lparr>client_list = NULL,
     cm_mem = \<lparr>lists = empty_store 1, nodes = empty_store cap, elems = empty_store (Suc cap)\<rparr>,
     cm_tcp = \<lparr>socks = empty_store (Suc cap), ips = empty_store (Suc cap), net = n\<rparr>, env = e\<rparr>"

lemma own_rep_create:
  assumes "dpl_rep H l cb []" "wf_store (elems H)" "dom (cells (elems H)) = {}" "dom (cells (nodes H)) = {}"
  shows "own_rep H l cb []"
  using assms by (simp add: own_rep_def)

lemma start_sim:
  "sim (\<lambda>(lsd, n') (srv, lsd', s). lsd' = lsd \<and> (\<exists>q. srv = Some q \<and> cm_is cap q lsd [] n' e s))
    (a_start K port n) (connmgr_start K port (cm_fresh cap n e))"
proof -
  let ?s = "cm_fresh cap n e"
  obtain H where H: "dpl_create element_copy_connmgr element_free_connmgr element_compare_connmgr (cm_mem ?s)
      = Inr (Some 0, H)" "dpl_rep H 0 cm_callbacks []" "nodes H = nodes (cm_mem ?s)" "elems H = elems (cm_mem ?s)"
    by (rule dpl_create_rep[of "cm_mem ?s" 0 "[]" element_copy_connmgr element_free_connmgr
          element_compare_connmgr]) (auto simp: cm_fresh_def cm_callbacks_def)
  have own: "own_rep H 0 cm_callbacks []" by (rule own_rep_create[OF H(2)]) (simp_all add: H(3,4) cm_fresh_def)
  have ok: "sk_ok (cm_tcp ?s)"
    by (simp add: sk_ok_def cm_fresh_def ip_owned_def ip_of_def[abs_def])
  have net: "net (cm_tcp ?s) = n" by (simp add: cm_fresh_def)
  obtain sd n1 where s: "sys_socket K n = (sd, n1)" by fastforce
  have s': "sys_socket K (net (cm_tcp ?s)) = (sd, n1)" by (simp add: net s)
  obtain rb n2 where b: "sys_bind K sd \<lparr>sin_addr = INADDR_ANY, sin_port = htons port\<rparr> n1 = (rb, n2)" by fastforce
  obtain rl n3 where l: "sys_listen K sd MAX_PENDING n2 = (rl, n3)" by fastforce
  obtain fl n4 where g: "sys_getfl K sd n3 = (fl, n4)" by fastforce
  obtain st n5 where f: "sys_setfl K sd (fl OR O_NONBLOCK) n4 = (st, n5)" by fastforce
  define x where "x = \<lparr>cookie = MAGIC_COOKIE, sock_sd = sd, ip_addr = NULL, sock_port = port\<rparr>"
  define T where "T = (cm_tcp ?s)\<lparr>net := n3, socks := (socks (cm_tcp ?s))\<lparr>cells := (cells (socks (cm_tcp ?s)))(0 \<mapsto> x),
      avail := [1..<Suc cap]\<rparr>\<rparr>"
  have av: "avail (socks (cm_tcp ?s)) = 0 # [1..<Suc cap]"
    by (simp add: cm_fresh_def upt_conv_Cons del: upt_Suc)
  have open_ok: "tcp_passive_open K (cm_tcp ?s) (Some NULL) port =
    (if port < MIN_PORT \<or> MAX_PORT < port then Inr (TCP_ADDRESS_ERROR, Some NULL, cm_tcp ?s)
     else if sd < 0 then Inr (TCP_SOCKOP_ERROR, Some NULL, (cm_tcp ?s)\<lparr>net := n1\<rparr>)
     else if rb \<noteq> 0 then Inr (TCP_SOCKOP_ERROR, Some NULL, (cm_tcp ?s)\<lparr>net := n2\<rparr>)
     else if rl \<noteq> 0 then Inr (TCP_SOCKOP_ERROR, Some NULL, (cm_tcp ?s)\<lparr>net := n3\<rparr>)
     else Inr (TCP_NO_ERROR, Some (Some 0), T))"
    using tcp_passive_open_cases[OF ok s' b l, of NULL] by (simp add: av x_def T_def)
  note fresh = sk_ok_fresh[OF ok av]
  have "ip_owned ((cells (socks (cm_tcp ?s)))(0 \<mapsto> x)) (cells (ips (cm_tcp ?s)))"
    by (rule ip_owned_new_plain) (use ok fresh(1) in \<open>simp_all add: sk_ok_def x_def\<close>)
  moreover have "cells (socks (cm_tcp ?s)) = Map.empty" "wf_store (ips (cm_tcp ?s))" by (simp_all add: cm_fresh_def)
  ultimately have okT: "sk_ok T"
    using fresh(2)[of x] by (simp add: sk_ok_def T_def x_def)
  have liveT: "live T = [0 \<mapsto> sd]"
    by (auto simp: live_def T_def x_def cm_fresh_def)
  then have gsd: "tcp_get_sd T (Some 0) 0 = Inr (TCP_NO_ERROR, sd)" by (intro tcp_get_sd_live[OF okT]) simp
  have sz: "msize (socks T) = Suc cap" "msize (ips T) = Suc cap" "msize (nodes H) = cap" "msize (elems H) = Suc cap"
    by (simp_all add: T_def cm_fresh_def H(3,4))
  let ?t = "?s\<lparr>client_list := Some 0, cm_mem := H, cm_tcp := T\<lparr>net := n5\<rparr>\<rparr>"
  have "cm_is cap 0 sd [] n5 e ?t"
    using own okT liveT sz by (simp add: cm_is_def cm_rep_def cm_room_def cm_fresh_def)
  moreover have "net T = n3" by (simp add: T_def)
  ultimately show ?thesis
    unfolding a_start_def connmgr_start_def H(1)
    by (simp add: open_ok s b l g f gsd check_exit_def Let_def TCP_ADDRESS_ERROR_def TCP_SOCKOP_ERROR_def TCP_NO_ERROR_def)
qed

text \<open>
  At the end the listener is closed and the list is released with all its elements. The sockets of the
  clients that are still connected stay open: nothing closes them or frees their structures.
\<close>

lemma end_rep:
  assumes rep: "cm_is cap srv lsd xs n e s"
  obtains s' where "connmgr_end K (Some srv) s = Inr s'" "client_list s' = NULL"
    "net (cm_tcp s') = a_shut K lsd n" "env s' = e" "dom (cells (nodes (cm_mem s'))) = {}"
    "dom (cells (elems (cm_mem s'))) = {}"
    "sk_ok (cm_tcp s')" "live (cm_tcp s') = map_of (map sock_of xs)"
proof -
  obtain l where l: "client_list s = Some l" "own_rep (cm_mem s) l cm_callbacks xs" "sk_ok (cm_tcp s)"
    "net (cm_tcp s) = n" "env s = e"
    using rep by (rule cm_isE)
  have r: "cm_rep cap srv lsd s xs" using rep by (simp add: cm_is_def)
  have "live (cm_tcp s) srv = Some lsd" using r by (simp add: cm_rep_def)
  then obtain x where x: "cells (socks (cm_tcp s)) srv = Some x" "sock_sd x = lsd" by (auto simp: live_def)
  obtain T where T: "tcp_close K (cm_tcp s) (Some (Some srv)) = Inr (TCP_NO_ERROR, Some NULL, T)" "sk_ok T"
    "live T = (live (cm_tcp s))(srv := None)" "net T = a_shut K lsd n"
    using tcp_close_cases[OF l(3) x(1), of K, unfolded x(2) l(4), folded a_shut_def] by blast
  obtain H where H: "dpl_free (cm_mem s) (Some (Some l)) True = Inr (NULL, H)" "dom (cells (elems H)) = {}"
    "dom (cells (nodes H)) = {}"
    using cm_own.own_free[OF l(2)] by (elim exE conjE)
  have d: "distinct (map fst ([] @ (srv, lsd) # map sock_of xs))" using r by (simp add: cm_rep_def)
  have "live T = map_of (map sock_of xs)"
    using map_of_without[OF d] r unfolding T(3) by (simp add: cm_rep_def)
  then show ?thesis
    using that[of "s\<lparr>client_list := NULL, cm_mem := H, cm_tcp := T\<rparr>"] T(1,2,4) H l(1,5)
    by (simp add: connmgr_end_def check_exit_def mem_simps)
qed

text \<open>The whole thread, from a state in which nothing is allocated.\<close>

definition cm_result :: "bool \<times> 'n acm \<Rightarrow> bool \<times> 'n cm_state \<Rightarrow> bool" where
  "cm_result ra rs \<longleftrightarrow> fst ra = fst rs \<and> net (cm_tcp (snd rs)) = ac_net (snd ra) \<and> env (snd rs) = ac_env (snd ra)
     \<and> (fst rs \<longrightarrow> client_list (snd rs) = NULL \<and> dom (cells (nodes (cm_mem (snd rs)))) = {}
        \<and> dom (cells (elems (cm_mem (snd rs)))) = {}
        \<and> card (dom (cells (socks (cm_tcp (snd rs))))) = length (ac_clients (snd ra)))"

lemma listen_sim:
  "sim cm_result (a_listen k K cap tmo port buffer n e) (connmgr_listen k K tmo port buffer (cm_fresh cap n e))"
  unfolding a_listen_def connmgr_listen_def
proof (rule sim_bind[OF start_sim], clarsimp, goal_cases)
  case (1 lsd n1 s1 srv)
  have start: "sim (cm_sim cap srv lsd) (a_loop k K cap tmo buffer lsd \<lparr>ac_clients = [], ac_net = n1, ac_env = e\<rparr>)
      (connmgr_loop k K tmo buffer (Some srv) lsd s1)"
    by (rule loop_sim[of cap srv lsd "[]"]) (use 1 in simp_all)
  show ?case
  proof (rule sim_bind[OF start], goal_cases)
    case (1 ra rs)
    obtain xs where xs: "ac_clients (snd ra) = clients_of xs"
      "cm_is cap srv lsd xs (ac_net (snd ra)) (ac_env (snd ra)) (snd rs)" "fst ra = fst rs"
      using 1(1) by (auto simp: cm_sim_def)
    show ?case
    proof (cases "fst rs")
      case True
      obtain s' where s': "connmgr_end K (Some srv) (snd rs) = Inr s'" "client_list s' = NULL"
        "net (cm_tcp s') = a_shut K lsd (ac_net (snd ra))" "env s' = ac_env (snd ra)"
        "dom (cells (nodes (cm_mem s'))) = {}" "dom (cells (elems (cm_mem s'))) = {}"
        "live (cm_tcp s') = map_of (map sock_of xs)"
        by (rule end_rep[OF xs(2), of K])
      have "dom (cells (socks (cm_tcp s'))) = dom (live (cm_tcp s'))" by (simp add: live_def dom_def)
      also have "\<dots> = set (map (fst \<circ> sock_of) xs)" unfolding s'(7) by (simp add: dom_map_of_conv_image_fst image_comp)
      finally have "card (dom (cells (socks (cm_tcp s')))) = length xs"
        using xs(2) distinct_card[of "map (fst \<circ> sock_of) xs"] by (simp add: cm_is_def cm_rep_def)
      then show ?thesis using True xs s'(1-6) by (simp add: cm_result_def case_prod_beta)
    next
      case False
      then show ?thesis using xs by (auto simp: cm_result_def cm_is_def case_prod_beta)
    qed
  qed
qed

end
