(* ===== verification/Connmgr_Safe.thy ===== *)
theory Connmgr_Safe
  imports Connmgr_Rep Sbuffer_Proofs "HOL-Library.Sublist"
begin

text \<open>
  What the connection manager can do whatever the network sends: how a computation of it can end
  (\<open>safe\<close>), the environment it needs (\<open>env_ok\<close>), and how a pass over the clients changes the list.
\<close>

section \<open>Safe computations\<close>

text \<open>
  A computation that returns a value with \<open>Q\<close>, ends the process with \<open>exit(EXIT_FAILURE)\<close>, or subtracts two
  times whose difference is too large.
\<close>

definition safe :: "'a res \<Rightarrow> ('a \<Rightarrow> bool) \<Rightarrow> bool" where
  "safe r Q \<longleftrightarrow> (case r of Inl f \<Rightarrow> f = Exit_Failure \<or> f = Int_Overflow | Inr x \<Rightarrow> Q x)"

lemma safe_simps [simp]:
  "safe (Inr x) Q = Q x" "safe (Inl f) Q \<longleftrightarrow> f = Exit_Failure \<or> f = Int_Overflow"
  "safe (check_exit c) (\<lambda>_. True)"
  by (auto simp: safe_def check_exit_def)

lemma safe_bind [intro]: "safe m P \<Longrightarrow> (\<And>x. P x \<Longrightarrow> m = Inr x \<Longrightarrow> safe (k x) Q) \<Longrightarrow> safe (bindR m k) Q"
  by (cases m) (auto simp: safe_def)

lemma safe_check: "(c \<Longrightarrow> safe (k ()) Q) \<Longrightarrow> safe (bindR (check_exit c) k) Q"
  by (cases c) (simp_all add: check_exit_def)

lemma safe_mono: "safe r P \<Longrightarrow> (\<And>x. P x \<Longrightarrow> r = Inr x \<Longrightarrow> Q x) \<Longrightarrow> safe r Q"
  by (cases r) (auto simp: safe_def)

section \<open>The environment\<close>

text \<open>
  The system calls of the log succeed and there is memory, the shared buffer is intact, and what the
  other threads do to it keeps it so.
\<close>

definition env_ok :: "addr \<Rightarrow> environ \<Rightarrow> bool" where
  "env_ok b e \<longleftrightarrow> world_ok (io_world e) \<and> sb_inv b (io_buf e)
     \<and> (\<forall>k B. sb_inv b B \<longrightarrow> sb_inv b (io_others e k B))"

lemma env_log_ok: "env_ok b e \<Longrightarrow> \<exists>w. log_event fmt (io_world e) = Inr w \<and> logs (io_world e) [fmt] w
    \<and> env_log fmt e = Inr (e\<lparr>io_world := w\<rparr>) \<and> env_ok b (e\<lparr>io_world := w\<rparr>)"
  using log_event_logs[of "io_world e" fmt] logs_ok by (fastforce simp: env_log_def env_ok_def)

lemma env_malloc_ok: "env_ok b e \<Longrightarrow> env_malloc e = (ok, m, e') \<Longrightarrow> ok \<and> env_ok b e'"
  by (auto simp: env_malloc_def heap_alloc_def env_ok_def world_ok_def)

lemma env_time_ok: "env_ok b e \<Longrightarrow> time_now (io_world e) = (t, w) \<Longrightarrow> env_ok b (e\<lparr>io_world := w\<rparr>)"
  by (auto simp: time_now_def env_ok_def world_ok_def)

text \<open>The insertion exits when no node can be allocated; otherwise the measurement is pending for both readers.\<close>

lemma env_insert_cases:
  assumes "env_ok b e"
  defines "B \<equiv> io_others e (io_inserts e) (io_buf e)"
  shows "if avail (snodes B) = [] then env_insert (Some b) d e = Inl Exit_Failure
    else \<exists>B'. env_insert (Some b) d e = Inr (e\<lparr>io_buf := B', io_inserts := Suc (io_inserts e)\<rparr>)
      \<and> sb_inv b B' \<and> sb_entries B' b = sb_entries B b @ [fresh_entry d]"
proof -
  have inv: "sb_inv b B" using assms by (simp add: env_ok_def)
  obtain c B' where ins: "sbuffer_insert B (Some b) d = Inr (c, B')" using sbuffer_insert_returns[OF inv] by blast
  note r = sbuffer_insert_inv[OF inv ins]
  show ?thesis
  proof (cases "avail (snodes B) = []")
    case True
    then show ?thesis using r(2) ins by (simp add: env_insert_def B_def[symmetric] check_exit_def)
  next
    case False
    then have "c = SBUFFER_SUCCESS" using r(2) by simp
    then show ?thesis using r ins False
      unfolding if_not_P[OF False] by (intro exI[of _ B']) (simp add: env_insert_def B_def[symmetric] check_exit_def)
  qed
qed

lemma env_insert_ok: "env_ok b e \<Longrightarrow> safe (env_insert (Some b) d e) (env_ok b)"
  using env_insert_cases[of b e d] by (auto simp: env_ok_def split: if_splits)

section \<open>One client\<close>

text \<open>The client keeps its descriptor, if it stays, and the environment is intact.\<close>

fun visit_ok :: "addr \<Rightarrow> client \<Rightarrow> client option \<times> 'n \<times> environ \<Rightarrow> bool" where
  "visit_ok b c (r, n, e) \<longleftrightarrow> env_ok b e \<and> (\<forall>c'. r = Some c' \<longrightarrow> cl_sd c' = cl_sd c)"

lemma a_store_safe: "env_ok b e \<Longrightarrow> safe (a_store K (Some b) c m n e) (visit_ok b c)"
proof -
  assume e: "env_ok b e"
  have opened: "safe (if cl_ts c = 0 then env_log f e else Inr e) (env_ok b)" for f
    using env_log_ok[OF e, of f] e by auto
  show ?thesis
    unfolding a_store_def Let_def split_def
    by (intro safe_bind[OF opened] safe_bind[OF env_insert_ok]) simp_all
qed

lemma a_data_safe: "env_ok b e \<Longrightarrow> safe (a_data K (Some b) c m n e) (visit_ok b c)"
  using env_log_ok[of b e "msg_closed (cl_id c)"]
  by (auto simp: a_data_def Let_def split_def intro!: a_store_safe)

lemma time_diff_safe: "safe (time_diff t u) (\<lambda>_. True)"
  by (simp add: time_diff_def Let_def)

lemma a_timeout_safe: "env_ok b e \<Longrightarrow> safe (a_timeout K tmo c n e) (visit_ok b c)"
  unfolding a_timeout_def Let_def split_def
  by (rule safe_bind[OF time_diff_safe]) (simp add: env_time_ok[OF _ prod.collapse[symmetric]])

lemma a_visit_safe:
  "env_ok b e \<Longrightarrow> fd_range (cl_sd c) = Inr () \<Longrightarrow> safe (a_visit K tmo (Some b) rd c n e) (visit_ok b c)"
  using env_malloc_ok[of b e]
  by (cases "env_malloc e") (auto simp: a_visit_def fd_isset_def Let_def intro!: safe_check a_data_safe a_timeout_safe)

section \<open>All clients\<close>

definition fds_ok :: "client list \<Rightarrow> bool" where
  "fds_ok cs \<longleftrightarrow> (\<forall>c \<in> set cs. fd_range (cl_sd c) = Inr ())"

lemma fds_ok_simps [simp]:
  "fds_ok []" "fds_ok (c # cs) \<longleftrightarrow> fd_range (cl_sd c) = Inr () \<and> fds_ok cs"
  "fds_ok (cs @ ds) \<longleftrightarrow> fds_ok cs \<and> fds_ok ds"
  by (auto simp: fds_ok_def)

text \<open>A pass removes clients and keeps the order and the descriptors of the others.\<close>

definition pass_ok :: "addr \<Rightarrow> client list \<Rightarrow> client list \<times> 'n \<times> environ \<Rightarrow> bool" where
  "pass_ok b cs r \<longleftrightarrow> (case r of (cs', n, e) \<Rightarrow> env_ok b e \<and> subseq (map cl_sd cs') (map cl_sd cs))"

lemma a_pass_safe:
  "env_ok b e \<Longrightarrow> fds_ok cs \<Longrightarrow> safe (a_pass K tmo (Some b) rd cs n e) (pass_ok b cs)"
proof (induction K tmo "Some b" rd cs n e rule: a_pass.induct)
  case (1 K tmo rd n e)
  then show ?case by (simp add: pass_ok_def)
next
  case (2 K tmo rd c cs n e)
  have fd: "fd_range (cl_sd c) = Inr ()" "fds_ok cs" using 2(4) by simp_all
  show ?case
    unfolding a_pass.simps(2)
  proof (rule safe_bind[OF a_visit_safe[OF 2(3) fd(1)]], clarsimp, goal_cases)
    case (1 r n1 e1)
    show ?case
    proof (cases r)
      case (Some c')
      have "safe (a_pass K tmo (Some b) rd cs n1 e1) (pass_ok b cs)"
        by (rule 2(2)[OF _ _ _ Some, of _ "(n1, e1)" n1 e1]) (use 1 fd Some in simp_all)
      then show ?thesis using 1 Some
        by (cases "a_pass K tmo (Some b) rd cs n1 e1") (auto simp: pass_ok_def)
    next
      case None
      show ?thesis
      proof (cases cs)
        case Nil
        then show ?thesis using None 1 by (simp add: pass_ok_def)
      next
        case (Cons d ds)
        have "safe (a_pass K tmo (Some b) rd ds n1 e1) (pass_ok b ds)"
          by (rule 2(1)[OF _ _ _ None Cons, of _ "(n1, e1)" n1 e1]) (use 1 fd None Cons in simp_all)
        then show ?thesis using 1 None Cons
          by (cases "a_pass K tmo (Some b) rd ds n1 e1") (auto simp: pass_ok_def)
      qed
    qed
  qed
qed

section \<open>Rounds\<close>

text \<open>
  What the operating system does with descriptors: they are not negative, \<open>-1\<close> apart, and below
  \<open>FD_SETSIZE\<close>, the usual limit of open files of a process.
\<close>

definition small_fds :: "'n sockapi \<Rightarrow> bool" where
  "small_fds K \<longleftrightarrow> (\<forall>l n. fst (sys_accept K l n) \<in> {-1..<FD_SETSIZE}) \<and> (\<forall>n. fst (sys_socket K n) < FD_SETSIZE)"

lemma small_fds_accept: "small_fds K \<Longrightarrow> sys_accept K l n = (sd, addr, n') \<Longrightarrow> sd \<noteq> -1 \<Longrightarrow> fd_range sd = Inr ()"
proof -
  assume "small_fds K" "sys_accept K l n = (sd, addr, n')" "sd \<noteq> -1"
  moreover from this(1) have "fst (sys_accept K l n) \<in> {-1..<FD_SETSIZE}" by (simp add: small_fds_def)
  ultimately show "fd_range sd = Inr ()" by (simp add: fd_range_def)
qed

definition acm_ok :: "addr \<Rightarrow> 'n acm \<Rightarrow> bool" where
  "acm_ok b a \<longleftrightarrow> env_ok b (ac_env a) \<and> fds_ok (ac_clients a)"

text \<open>A round removes clients and may add one at the end.\<close>

definition round_ok :: "addr \<Rightarrow> 'n acm \<Rightarrow> bool \<times> 'n acm \<Rightarrow> bool" where
  "round_ok b a r \<longleftrightarrow> acm_ok b (snd r) \<and> (\<exists>new. length new \<le> 1
     \<and> subseq (map cl_sd (ac_clients (snd r))) (map cl_sd (ac_clients a) @ new))"

lemma a_fds_safe: "fds_ok cs \<Longrightarrow> safe (a_fds cs rd mx) (\<lambda>_. True)"
  by (induction cs arbitrary: rd mx) (auto simp: fd_set_def)

lemma a_accept_safe:
  assumes "small_fds K" "fds_ok cs"
  shows "safe (a_accept K cap l cs n) (\<lambda>(cs', n'). fds_ok cs' \<and> (\<exists>c. cs' = cs @ [c]))"
proof -
  obtain sd addr n1 where acc: "sys_accept K l n = (sd, addr, n1)" by (metis prod_cases3)
  then show ?thesis using assms small_fds_accept[OF assms(1) acc] by (auto simp: a_accept_def)
qed

lemma fds_ok_subseq: "subseq (map cl_sd cs') (map cl_sd cs) \<Longrightarrow> fds_ok cs \<Longrightarrow> fds_ok cs'"
proof -
  assume "subseq (map cl_sd cs') (map cl_sd cs)" "fds_ok cs"
  then have "cl_sd ` set cs' \<subseteq> cl_sd ` set cs" "\<forall>c \<in> set cs. fd_range (cl_sd c) = Inr ()"
    by (auto elim!: list_emb_set simp: fds_ok_def)
  then show "fds_ok cs'" unfolding fds_ok_def by fastforce
qed

lemma a_round_safe:
  assumes K: "small_fds K" and l: "fd_range l = Inr ()" and a: "acm_ok b a"
  shows "safe (a_round K cap tmo (Some b) l a) (round_ok b a)"
proof -
  have fds: "fds_ok (ac_clients a)" and e: "env_ok b (ac_env a)" using a by (simp_all add: acm_ok_def)
  have stay: "round_ok b a (t, a\<lparr>ac_net := n\<rparr>)" for t n using a by (auto simp: round_ok_def acm_ok_def intro: exI[of _ "[]"])
  have accept: "safe (if new then a_accept K cap l (ac_clients a) n else Inr (ac_clients a, n))
      (\<lambda>(cs, n). fds_ok cs \<and> (\<exists>new. length new \<le> 1 \<and> cs = ac_clients a @ new))" for new n
    by (rule safe_mono[where P = "\<lambda>(cs, n). fds_ok cs \<and> (cs = ac_clients a \<or> (\<exists>c. cs = ac_clients a @ [c]))"])
      (use a_accept_safe[OF K fds, of cap l n] fds in \<open>force elim!: safe_mono\<close>)+
  have pass: "safe (bindR (a_pass K tmo (Some b) rd cs n (ac_env a)) (\<lambda>(cs, n, e).
        Inr (False, a\<lparr>ac_clients := cs, ac_net := n, ac_env := e\<rparr>))) (round_ok b a)"
    if cs: "fds_ok cs" "length new \<le> 1" "cs = ac_clients a @ new" for rd cs n new
    by (rule safe_bind[OF a_pass_safe[OF e cs(1)]])
      (use cs in \<open>auto simp: pass_ok_def round_ok_def acm_ok_def dest: fds_ok_subseq[of _ "ac_clients a @ new", simplified]
        intro!: exI[of _ "map cl_sd new"]\<close>)
  have both: "safe (bindR (if new then a_accept K cap l (ac_clients a) n else Inr (ac_clients a, n)) (\<lambda>p.
      bindR (a_pass K tmo (Some b) rd (fst p) (snd p) (ac_env a)) (\<lambda>p.
        Inr (False, a\<lparr>ac_clients := fst p, ac_net := fst (snd p), ac_env := snd (snd p)\<rparr>)))) (round_ok b a)"
    for new n rd
    by (rule safe_bind[OF accept]) (auto simp: split_def intro!: pass[unfolded split_def])
  show ?thesis
    unfolding a_round_def Let_def split_def fd_set_def fd_isset_def l bindR.simps
    by (intro safe_bind[OF a_fds_safe[OF fds]]) (use both in \<open>simp add: stay\<close>)
qed

lemma a_loop_safe:
  assumes "small_fds K" "fd_range l = Inr ()" "acm_ok b a"
  shows "safe (a_loop k K cap tmo (Some b) l a) (\<lambda>r. acm_ok b (snd r))"
  using assms(3)
proof (induction k arbitrary: a)
  case 0
  then show ?case by simp
next
  case (Suc k)
  show ?case
    unfolding a_loop.simps
    by (rule safe_bind[OF a_round_safe[OF assms(1,2) Suc.prems]])
      (auto simp: round_ok_def split_def intro: Suc.IH)
qed

lemma a_start_safe:
  assumes "small_fds K"
  shows "safe (a_start K port n) (\<lambda>(l, n'). fd_range l = Inr ())"
proof -
  obtain sd n1 where s: "sys_socket K n = (sd, n1)" by fastforce
  then have "sd < FD_SETSIZE" using assms fst_conv[of sd n1] by (metis small_fds_def)
  then show ?thesis using s by (auto simp: a_start_def Let_def split_def fd_range_def)
qed

lemma a_listen_safe:
  assumes "small_fds K" "env_ok b e"
  shows "safe (a_listen k K cap tmo port (Some b) n e) (\<lambda>r. acm_ok b (snd r))"
  unfolding a_listen_def
proof (rule safe_bind[OF a_start_safe[OF assms(1)]], clarsimp, goal_cases)
  case (1 l n1)
  have "acm_ok b \<lparr>ac_clients = [], ac_net = n1, ac_env = e\<rparr>" using assms(2) by (simp add: acm_ok_def)
  from a_loop_safe[OF assms(1) 1(1) this, of k cap tmo] show ?case
    by (rule safe_bind) (auto simp: acm_ok_def)
qed

text \<open>Safety is carried over by simulation.\<close>

lemma sim_safe: "sim R A C \<Longrightarrow> safe A Q \<Longrightarrow> safe C (\<lambda>s. \<exists>x. Q x \<and> R x s)"
  by (cases A) auto

end
