(* ===== verification/Connmgr_Props.thy ===== *)
theory Connmgr_Props
  imports Connmgr_Safe Tcpsock_Props Sbuffer_Props
begin

text \<open>The properties of \<open>connmgr.c\<close>, for any system calls, with a concrete run for each.\<close>

section \<open>A concrete gateway\<close>

definition cm_world :: world where
  "cm_world = \<lparr>fifo = [], fifo_answers = \<lambda>_. \<lparr>mkfifo_call = Fifo_Exists, fopen_ok = True, fputs_ok = True,
     fclose_ok = True\<rparr>, nwrites = 0, clock = \<lambda>_. 1535998100, ticks = 0, heap = \<lambda>_. True, nallocs = 0\<rparr>"

definition demo_env :: environ where
  "demo_env = \<lparr>io_world = cm_world, io_buf = demo_empty, io_others = \<lambda>_ B. B, io_inserts = 0,
     io_junk = \<lambda>_. \<lparr>raw_id = 0xAAAA, raw_value = 0xBBBB, raw_ts = 0xCCCC\<rparr>\<rparr>"

lemma demo_env_ok: "env_ok 0 demo_env"
  by (simp add: demo_env_def cm_world_def env_ok_def world_ok_def calls_ok_def demo_inv)

definition demo_net :: "(nat \<times> byte list) sockapi" where
  "demo_net = demo_api\<lparr>sys_socket := \<lambda>n. (3, n),
     sys_accept := \<lambda>_ n. (4, \<lparr>sin_addr = 0x7F000001, sin_port = 40000\<rparr>, n)\<rparr>"

lemma demo_small_fds: "small_fds demo_net"
  by (simp add: small_fds_def FD_SETSIZE_def demo_net_def)

text \<open>The thread after it has started, and with two clients.\<close>

lemma demo_clients:
  fixes bs :: "byte list"
  obtains s srv y1 y2 where "cm_is 2 srv 3 [y1, y2] (6 :: nat, bs) demo_env s"
    "clients_of [y1, y2] = [\<lparr>cl_sd = 4, cl_ts = t, cl_id = i\<rparr>, \<lparr>cl_sd = 5, cl_ts = u, cl_id = j\<rparr>]"
proof -
  have "a_start demo_api 1234 (3, bs) = Inr (3, (4, bs))"
    by (simp add: a_start_def demo_api_def MIN_PORT_def MAX_PORT_def)
  then obtain srv s0 where s0: "cm_is 2 srv 3 [] (4 :: nat, bs) demo_env s0"
    using start_sim[where cap = 2 and e = demo_env and K = demo_api and port = 1234 and n = "(3, bs)"]
    by (auto simp: sim_def)
  have accept: "a_accept demo_api 2 3 cs (k, bs) = Inr (cs @ [\<lparr>cl_sd = int k, cl_ts = 0, cl_id = 0\<rparr>], (Suc k, bs))"
    if "length cs < 2" for cs k
    using that by (simp add: a_accept_def demo_api_def)
  obtain s1 z1 where s1: "cm_is 2 srv 3 z1 (5 :: nat, bs) demo_env s1" "clients_of z1 = [\<lparr>cl_sd = 4, cl_ts = 0, cl_id = 0\<rparr>]"
    using accept_sim[OF s0, of demo_api] accept[of "[]" 4] by auto
  obtain s2 z2 where s2: "cm_is 2 srv 3 z2 (6 :: nat, bs) demo_env s2"
    "clients_of z2 = [\<lparr>cl_sd = 4, cl_ts = 0, cl_id = 0\<rparr>, \<lparr>cl_sd = 5, cl_ts = 0, cl_id = 0\<rparr>]"
    using accept_sim[OF s1(1), of demo_api] accept[of "clients_of z1" 5] s1(2) by auto
  then obtain a1 p1 v1 a2 p2 v2 where z2: "z2 = [(a1, p1, v1), (a2, p2, v2)]" "si_sd v1 = 4" "si_sd v2 = 5"
    by (auto simp: clients_of_def cl_of_def map_eq_Cons_conv)
  let ?f = "\<lambda>t i v. v\<lparr>si_ts := t, si_id := i\<rparr>"
  obtain s3 where s3: "cm_is 2 srv 3 ([] @ (a1, p1, ?f t i v1) # [(a2, p2, v2)]) (6 :: nat, bs) demo_env s3"
    using set_info_is[of 2 srv 3 "[]" a1 p1 v1 "[(a2, p2, v2)]" "(6, bs)" demo_env s2 "?f t i"] s2(1) z2 by auto
  obtain s4 where "cm_is 2 srv 3 ([(a1, p1, ?f t i v1)] @ (a2, p2, ?f u j v2) # []) (6 :: nat, bs) demo_env s4"
    using set_info_is[of 2 srv 3 "[(a1, p1, ?f t i v1)]" a2 p2 v2 "[]" "(6, bs)" demo_env s3 "?f u j"] s3 by auto
  then show ?thesis using that z2(2,3) by (simp add: cl_of_def)
qed

lemma demo_client:
  fixes bs :: "byte list"
  obtains s srv a p v y2 where "cm_is 2 srv 3 [(a, p, v), y2] (6 :: nat, bs) demo_env s" "si_sd v = 4" "si_ts v = t"
    "si_id v = i" "clients_of [y2] = [\<lparr>cl_sd = 5, cl_ts = 8, cl_id = 21\<rparr>]"
proof -
  obtain s srv y1 y2 where s: "cm_is 2 srv 3 [y1, y2] (6 :: nat, bs) demo_env s"
    "clients_of [y1, y2] = [\<lparr>cl_sd = 4, cl_ts = t, cl_id = i\<rparr>, \<lparr>cl_sd = 5, cl_ts = 8, cl_id = 21\<rparr>]"
    by (rule demo_clients)
  then show ?thesis by (cases y1) (auto simp: cl_of_def intro: that)
qed

section \<open>The thread\<close>

text \<open>
  C3: Refinement. With room for \<open>cap\<close> clients, \<open>connmgr_listen\<close> does, round by round and whatever the network
  answers, what the abstract connection manager does on a plain list of clients: the same calls in the
  same order, the same events and insertions, the same exits. When the loop has ended the list is gone
  with all its nodes and elements, but one socket structure stays for each client still connected.
\<close>

theorem connmgr_refines:
  "sim cm_result (a_listen k K cap tmo port buffer n e) (connmgr_listen k K tmo port buffer (cm_fresh cap n e))"
  by (rule listen_sim)

text \<open>
  C4: Safety. In an intact environment, and with descriptors below \<open>FD_SETSIZE\<close>, the thread never follows a
  wild or \<open>NULL\<close> pointer, frees twice, reads an uninitialised variable, fails an assertion or loops
  forever in a round, whatever clients do: the only ends other than a return are \<open>exit(EXIT_FAILURE)\<close> and the
  overflow of the subtraction of a time that a client has sent.
\<close>

theorem connmgr_safe:
  assumes "small_fds K" "env_ok b e"
  shows "case connmgr_listen k K tmo port (Some b) (cm_fresh cap n e) of
      Inl f \<Rightarrow> f = Exit_Failure \<or> f = Int_Overflow
    | Inr (ended, s) \<Rightarrow> env_ok b (env s)"
  using sim_safe[OF listen_sim[of k K cap tmo port "Some b" n e] a_listen_safe[OF assms]]
  by (auto simp: safe_def cm_result_def acm_ok_def split: sum.splits)

theorem connmgr_safe_witness:
  "case connmgr_listen 5 demo_net 5 1234 (Some 0) (cm_fresh 3 (3, [1, 2, 3]) demo_env) of
      Inl f \<Rightarrow> f = Exit_Failure \<or> f = Int_Overflow | Inr (ended, s) \<Rightarrow> env_ok 0 (env s)"
  by (rule connmgr_safe[OF demo_small_fds demo_env_ok])

text \<open>
  C19: Well-formedness. Every round of the loop keeps the data structure: each element of the list is a client
  with an open socket of its own, and there are no other sockets than these and the listener's. Clients
  are only removed, or added at the end, at most one in a round; none changes its descriptor or its place.
\<close>

theorem connmgr_round_keeps:
  assumes rep: "cm_is cap srv lsd xs n e s"
    and ok: "env_ok b e" "small_fds K" "fds_ok (clients_of xs)" "fd_range lsd = Inr ()"
  shows "case connmgr_round K tmo (Some b) (Some srv) lsd s of
      Inl f \<Rightarrow> f = Exit_Failure \<or> f = Int_Overflow
    | Inr (ended, s') \<Rightarrow> \<exists>zs new. cm_rep cap srv lsd s' zs \<and> env_ok b (env s') \<and> fds_ok (clients_of zs)
        \<and> length new \<le> 1 \<and> subseq (map cl_sd (clients_of zs)) (map cl_sd (clients_of xs) @ new)"
proof -
  let ?a = "\<lparr>ac_clients = clients_of xs, ac_net = n, ac_env = e\<rparr>"
  have "acm_ok b ?a" using ok by (simp add: acm_ok_def)
  note safe = sim_safe[OF round_sim[of cap srv lsd xs ?a s K tmo "Some b"] a_round_safe[OF ok(2,4) this]]
  then show ?thesis using rep
    by (force simp: safe_def cm_sim_def round_ok_def acm_ok_def cm_is_def split: sum.splits)
qed

theorem connmgr_round_keeps_witness:
  "\<exists>s srv zs. cm_is 2 srv 3 zs (6, [1, 2, 3]) demo_env s \<and> length zs = 2
    \<and> (case connmgr_round demo_net 5 (Some 0) (Some srv) 3 s of
        Inl f \<Rightarrow> f = Exit_Failure \<or> f = Int_Overflow
      | Inr (ended, s') \<Rightarrow> \<exists>zs. cm_rep 2 srv 3 s' zs)"
proof -
  obtain s srv y1 y2 where s: "cm_is 2 srv 3 [y1, y2] (6 :: nat, [1, 2, 3] :: byte list) demo_env s"
    "clients_of [y1, y2] = [\<lparr>cl_sd = 4, cl_ts = 7, cl_id = 15\<rparr>, \<lparr>cl_sd = 5, cl_ts = 8, cl_id = 21\<rparr>]"
    by (rule demo_clients)
  have "fds_ok (clients_of [y1, y2])" "fd_range 3 = Inr ()"
    unfolding s(2) by (simp_all add: fd_range_def FD_SETSIZE_def)
  note connmgr_round_keeps[OF s(1) demo_env_ok demo_small_fds this, of 5]
  then have "case connmgr_round demo_net 5 (Some 0) (Some srv) 3 s of
        Inl f \<Rightarrow> f = Exit_Failure \<or> f = Int_Overflow
      | Inr (ended, s') \<Rightarrow> \<exists>zs. cm_rep 2 srv 3 s' zs"
    by (auto split: sum.splits)
  then show ?thesis using s(1) by force
qed

section \<open>Data from a client\<close>

lemma a_receive_all:
  "sys_recv K sd k n = (Received (le_bytes k w), n') \<Longrightarrow> 0 < k \<Longrightarrow> w < 256 ^ k
   \<Longrightarrow> a_receive K sd k old n = (TCP_NO_ERROR, int k, w, n')"
  using recv_effect_all[of "le_bytes k w" "le_bytes k old"] length_greater_0_conv[of "le_bytes k w"]
  by (simp add: a_receive_def le_nat_bytes)

lemma a_receive_closed:
  "sys_recv K sd k n = (Received [], n')
   \<Longrightarrow> a_receive K sd k old n = (TCP_CONNECTION_CLOSED, 0, le_nat (le_bytes k old), n')"
  by (simp add: a_receive_def recv_effect_def recv_into_def)

text \<open>The measurement \<open>d\<close> has been appended to the buffer as the other threads left it, unread by both readers.\<close>

definition inserted :: "addr \<Rightarrow> environ \<Rightarrow> sensor_data_t \<Rightarrow> environ \<Rightarrow> bool" where
  "inserted b e d e' \<longleftrightarrow> env_ok b e'
     \<and> sb_entries (io_buf e') b = sb_entries (io_others e (io_inserts e) (io_buf e)) b @ [fresh_entry d]"

text \<open>What a client is after a measurement with the given time and id.\<close>

definition client_after :: "sensor_id_t \<Rightarrow> sensor_ts_t \<Rightarrow> client \<Rightarrow> client" where
  "client_after i t c = c\<lparr>cl_ts := t, cl_id := (if cl_ts c = 0 then i else cl_id c)\<rparr>"

lemma a_store_inserts:
  assumes e: "env_ok b e" and room: "avail (snodes (io_others e (io_inserts e) (io_buf e))) \<noteq> []"
    and r1: "a_receive K (cl_sd c) 8 (unat (raw_value m)) n = (c1, k1, x, n1)"
    and r2: "a_receive K (cl_sd c) 8 (unat (raw_ts m)) n1 = (c2, k2, t, n2)"
  shows "\<exists>e'. a_store K (Some b) c m n e = Inr (Some (client_after (raw_id m) (of_nat t) c), n2, e')
    \<and> inserted b e \<lparr>id = raw_id m, val = double_of_bits (of_nat x), ts = of_nat t\<rparr> e'
    \<and> logs (io_world e) (if cl_ts c = 0 then [msg_opened (raw_id m)] else []) (io_world e')"
proof -
  let ?fs = "if cl_ts c = 0 then [msg_opened (raw_id m)] else []"
  let ?d = "\<lparr>id = raw_id m, val = double_of_bits (of_nat x), ts = of_nat t\<rparr>"
  obtain w where w: "(if cl_ts c = 0 then env_log (msg_opened (raw_id m)) e else Inr e) = Inr (e\<lparr>io_world := w\<rparr>)"
    "logs (io_world e) ?fs w" "env_ok b (e\<lparr>io_world := w\<rparr>)"
  proof (cases "cl_ts c = 0")
    case True
    then show ?thesis using env_log_ok[OF e, of "msg_opened (raw_id m)"] that by auto
  next
    case False
    then show ?thesis using that[of "io_world e"] e by simp
  qed
  obtain B where B: "env_insert (Some b) ?d (e\<lparr>io_world := w\<rparr>)
      = Inr (e\<lparr>io_world := w, io_buf := B, io_inserts := Suc (io_inserts e)\<rparr>)" "sb_inv b B"
    "sb_entries B b = sb_entries (io_others e (io_inserts e) (io_buf e)) b @ [fresh_entry ?d]"
    using env_insert_cases[OF w(3), of ?d] room by auto
  have "inserted b e ?d (e\<lparr>io_world := w, io_buf := B, io_inserts := Suc (io_inserts e)\<rparr>)"
    using B w(3) by (simp add: inserted_def env_ok_def)
  then show ?thesis
    using w(1,2) B(1) r1 r2 by (auto simp: a_store_def data_of_def client_after_def)
qed

lemma handle_data_stores:
  assumes rep: "cm_is cap srv lsd (xs @ (a, p, v) # ys) n e s"
    and e: "env_ok b e" and room: "avail (snodes (io_others e (io_inserts e) (io_buf e))) \<noteq> []"
    and r0: "a_receive K (si_sd v) 2 (unat (raw_id m)) n = (TCP_NO_ERROR, k, i, n0)" "0 < k"
    and r1: "a_receive K (si_sd v) 8 (unat (raw_value m)) n0 = (c1, k1, x, n1)"
    and r2: "a_receive K (si_sd v) 8 (unat (raw_ts m)) n1 = (c2, k2, t, n2)"
  shows "\<exists>s' zs e'. handle_data K (Some b) (int (length xs)) (Some p) m s = Inr s'
    \<and> cm_is cap srv lsd zs n2 e' s'
    \<and> clients_of zs = clients_of xs @ client_after (of_nat i) (of_nat t) (cl_of v) # clients_of ys
    \<and> inserted b e \<lparr>id = of_nat i, val = double_of_bits (of_nat x), ts = of_nat t\<rparr> e'
    \<and> logs (io_world e) (if si_ts v = 0 then [msg_opened (of_nat i)] else []) (io_world e')"
proof -
  obtain e' where e': "a_store K (Some b) (cl_of v) (m\<lparr>raw_id := of_nat i\<rparr>) n0 e
      = Inr (Some (client_after (of_nat i) (of_nat t) (cl_of v)), n2, e')"
    "inserted b e \<lparr>id = of_nat i, val = double_of_bits (of_nat x), ts = of_nat t\<rparr> e'"
    "logs (io_world e) (if si_ts v = 0 then [msg_opened (of_nat i)] else []) (io_world e')"
    using a_store_inserts[OF e room, where c = "cl_of v" and m = "m\<lparr>raw_id := of_nat i\<rparr>" and n = n0 and K = K] r1 r2
    by (auto cong: if_cong)
  have "a_data K (Some b) (cl_of v) m n e = Inr (Some (client_after (of_nat i) (of_nat t) (cl_of v)), n2, e')"
    using r0 e'(1) by (simp add: a_data_def TCP_NO_ERROR_def TCP_CONNECTION_CLOSED_def)
  then obtain s' w where s': "handle_data K (Some b) (int (length xs)) (Some p) m s = Inr s'"
    "cl_of w = client_after (of_nat i) (of_nat t) (cl_of v)" "cm_is cap srv lsd (xs @ (a, p, w) # ys) n2 e' s'"
    using data_sim[OF rep, of K "Some b" m] by auto
  then have "clients_of (xs @ (a, p, w) # ys)
      = clients_of xs @ client_after (of_nat i) (of_nat t) (cl_of v) # clients_of ys"
    by simp
  then show ?thesis using s'(1,3) e'(2,3) by blast
qed

text \<open>
  C6: Round trip. When a client has sent the bytes of an id, a value and a time, exactly this measurement is
  appended to the shared buffer, to be seen by both readers, whatever the memory of the packet held before;
  the client's time becomes the measurement's, and no other client changes. The event of a new sensor is
  logged, and the id kept, just when the client had no time so far: at its first measurement, and at every
  further one as long as the time sent is 0.
\<close>

theorem connmgr_measurement:
  fixes i :: "16 word" and x t :: "64 word"
  assumes "cm_is cap srv lsd (xs @ (a, p, v) # ys) n e s"
    and "env_ok b e" "avail (snodes (io_others e (io_inserts e) (io_buf e))) \<noteq> []"
    and r: "sys_recv K (si_sd v) 2 n = (Received (le_bytes 2 (unat i)), n0)"
    "sys_recv K (si_sd v) 8 n0 = (Received (le_bytes 8 (unat x)), n1)"
    "sys_recv K (si_sd v) 8 n1 = (Received (le_bytes 8 (unat t)), n2)"
  shows "\<exists>s' zs e'. handle_data K (Some b) (int (length xs)) (Some p) m s = Inr s'
    \<and> cm_is cap srv lsd zs n2 e' s'
    \<and> clients_of zs = clients_of xs @ client_after i t (cl_of v) # clients_of ys
    \<and> inserted b e \<lparr>id = i, val = double_of_bits x, ts = t\<rparr> e'
    \<and> logs (io_world e) (if si_ts v = 0 then [msg_opened i] else []) (io_world e')"
proof -
  have w: "unat i < 256 ^ 2" "unat x < 256 ^ 8" "unat t < 256 ^ 8"
    using unsigned_less[of i, where 'a = nat] unsigned_less[of x, where 'a = nat] unsigned_less[of t, where 'a = nat]
    by simp_all
  show ?thesis
    using handle_data_stores[OF assms(1-3) a_receive_all[OF r(1) _ w(1)] _ a_receive_all[OF r(2) _ w(2)]
        a_receive_all[OF r(3) _ w(3)], of m] by (simp cong: if_cong)
qed

theorem connmgr_measurement_witness:
  "\<exists>s p s' zs e'. handle_data demo_api (Some 0) 0 (Some p) \<lparr>raw_id = 9, raw_value = 9, raw_ts = 9\<rparr> s = Inr s'
    \<and> clients_of zs = [\<lparr>cl_sd = 4, cl_ts = 1535998033, cl_id = 15\<rparr>, \<lparr>cl_sd = 5, cl_ts = 8, cl_id = 21\<rparr>]
    \<and> inserted 0 demo_env \<lparr>id = 15, val = double_of_bits 77, ts = 1535998033\<rparr> e'
    \<and> logs cm_world [msg_opened 15] (io_world e')"
proof -
  define bs where "bs = le_bytes 2 (unat (15 :: 16 word)) @ le_bytes 8 (unat (77 :: 64 word))
    @ le_bytes 8 (unat (1535998033 :: 64 word))"
  obtain s srv a p v y2 where s: "cm_is 2 srv 3 [(a, p, v), y2] (6 :: nat, bs) demo_env s" "si_sd v = 4" "si_ts v = 0"
    "si_id v = 0" "clients_of [y2] = [\<lparr>cl_sd = 5, cl_ts = 8, cl_id = 21\<rparr>]"
    by (rule demo_client)
  have s0: "cm_is 2 srv 3 ([] @ (a, p, v) # [y2]) (6 :: nat, bs) demo_env s" using s(1) by simp
  have room: "avail (snodes (io_others demo_env (io_inserts demo_env) (io_buf demo_env))) \<noteq> []"
    by (simp add: demo_env_def demo_empty_def)
  have r: "sys_recv demo_api (si_sd v) 2 (6 :: nat, bs)
      = (Received (le_bytes 2 (unat (15 :: 16 word))), (6, drop 2 bs))"
    "sys_recv demo_api (si_sd v) 8 (6 :: nat, drop 2 bs)
      = (Received (le_bytes 8 (unat (77 :: 64 word))), (6, drop 10 bs))"
    "sys_recv demo_api (si_sd v) 8 (6 :: nat, drop 10 bs)
      = (Received (le_bytes 8 (unat (1535998033 :: 64 word))), (6, drop 18 bs))"
    by (simp_all add: demo_api_def bs_def del: le_bytes.simps)
  obtain s' zs e' where "handle_data demo_api (Some 0) 0 (Some p) \<lparr>raw_id = 9, raw_value = 9, raw_ts = 9\<rparr> s = Inr s'"
    "clients_of zs = client_after 15 1535998033 (cl_of v) # clients_of [y2]"
    "inserted 0 demo_env \<lparr>id = 15, val = double_of_bits 77, ts = 1535998033\<rparr> e'"
    "logs (io_world demo_env) [msg_opened 15] (io_world e')"
    using connmgr_measurement[OF s0 demo_env_ok room r, of "\<lparr>raw_id = 9, raw_value = 9, raw_ts = 9\<rparr>"] s(3) by auto
  moreover have "io_world demo_env = cm_world" by (simp add: demo_env_def)
  moreover have "cl_of v = \<lparr>cl_sd = 4, cl_ts = 0, cl_id = 0\<rparr>" using s by (simp add: cl_of_def)
  ultimately show ?thesis using s(5) by (auto simp: client_after_def)
qed

text \<open>
  C22: A sensor that sends an id and then ends the connection still adds a measurement: the results of the
  calls that receive the value and the time are not looked at, so what the memory of the packet held
  before, left there by whoever used it last, goes into the shared buffer as value and time.
\<close>

theorem connmgr_short_read:
  fixes i :: "16 word"
  assumes "cm_is cap srv lsd (xs @ (a, p, v) # ys) n e s"
    and "env_ok b e" "avail (snodes (io_others e (io_inserts e) (io_buf e))) \<noteq> []"
    and r: "sys_recv K (si_sd v) 2 n = (Received (le_bytes 2 (unat i)), n0)"
    "sys_recv K (si_sd v) 8 n0 = (Received [], n1)" "sys_recv K (si_sd v) 8 n1 = (Received [], n2)"
  shows "\<exists>s' zs e'. handle_data K (Some b) (int (length xs)) (Some p) m s = Inr s'
    \<and> cm_is cap srv lsd zs n2 e' s'
    \<and> clients_of zs = clients_of xs @ client_after i (raw_ts m) (cl_of v) # clients_of ys
    \<and> inserted b e \<lparr>id = i, val = double_of_bits (raw_value m), ts = raw_ts m\<rparr> e'"
proof -
  have w: "unat i < 256 ^ 2" using unsigned_less[of i, where 'a = nat] by simp
  have m: "(of_nat (le_nat (le_bytes 8 (unat w))) :: 64 word) = w" for w by (rule le_word)
  show ?thesis
    using handle_data_stores[OF assms(1-3) a_receive_all[OF r(1) _ w] _ a_receive_closed[OF r(2)]
        a_receive_closed[OF r(3)], of m] unfolding m by auto
qed

theorem connmgr_short_read_witness:
  "\<exists>s p s' e'. handle_data demo_api (Some 0) 0 (Some p) \<lparr>raw_id = 0xAAAA, raw_value = 0xBBBB, raw_ts = 0xCCCC\<rparr> s = Inr s'
    \<and> inserted 0 demo_env \<lparr>id = 15, val = double_of_bits 0xBBBB, ts = 0xCCCC\<rparr> e'"
proof -
  obtain s srv a p v y2 where s: "cm_is 2 srv 3 [(a, p, v), y2] (6 :: nat, le_bytes 2 (unat (15 :: 16 word))) demo_env s"
    "si_sd v = 4" "si_ts v = 0" "si_id v = 0" "clients_of [y2] = [\<lparr>cl_sd = 5, cl_ts = 8, cl_id = 21\<rparr>]"
    by (rule demo_client)
  have s0: "cm_is 2 srv 3 ([] @ (a, p, v) # [y2]) (6 :: nat, le_bytes 2 (unat (15 :: 16 word))) demo_env s"
    using s(1) by simp
  have room: "avail (snodes (io_others demo_env (io_inserts demo_env) (io_buf demo_env))) \<noteq> []"
    by (simp add: demo_env_def demo_empty_def)
  have r: "sys_recv demo_api (si_sd v) 2 (6 :: nat, le_bytes 2 (unat (15 :: 16 word)))
      = (Received (le_bytes 2 (unat (15 :: 16 word))), (6, []))"
    "sys_recv demo_api (si_sd v) 8 (6 :: nat, []) = (Received [], (6, []))"
    "sys_recv demo_api (si_sd v) 8 (6 :: nat, []) = (Received [], (6, []))"
    by (simp_all add: demo_api_def del: le_bytes.simps)
  show ?thesis
    using connmgr_short_read[OF s0 demo_env_ok room r, of "\<lparr>raw_id = 0xAAAA, raw_value = 0xBBBB, raw_ts = 0xCCCC\<rparr>"]
    by auto
qed

section \<open>Clients that leave\<close>

text \<open>A read of the id that finds the connection closed.\<close>

definition closed_read :: "recv_result \<Rightarrow> bool" where
  "closed_read r \<longleftrightarrow> r = Received [] \<or> r = Recv_Failed ENOTCONN"

lemma a_data_closed:
  assumes "env_ok b e" "sys_recv K (cl_sd c) 2 n = (r, n0)" "closed_read r"
  obtains w where "a_data K buffer c m n e = Inr (None, a_shut K (cl_sd c) n0, e\<lparr>io_world := w\<rparr>)"
    "logs (io_world e) [msg_closed (cl_id c)] w" "env_ok b (e\<lparr>io_world := w\<rparr>)"
proof -
  have "\<exists>k v. a_receive K (cl_sd c) 2 (unat (raw_id m)) n = (TCP_CONNECTION_CLOSED, k, v, n0)"
    using assms(2,3) by (auto simp: a_receive_def recv_effect_def closed_read_def)
  then show ?thesis using env_log_ok[OF assms(1), of "msg_closed (cl_id c)"] that by (auto simp: a_data_def)
qed

text \<open>
  C21: When a client has ended its connection, the event with its id is logged, its socket is shut and its
  structure released, and it alone is taken out of the list. Nothing is inserted.
\<close>

theorem connmgr_closed:
  assumes rep: "cm_is cap srv lsd (xs @ (a, p, v) # ys) n e s" and e: "env_ok b e"
    and r: "sys_recv K (si_sd v) 2 n = (r, n0)" "closed_read r"
  shows "\<exists>s' e'. handle_data K (Some b) (int (length xs)) (Some p) m s = Inr s'
    \<and> cm_is cap srv lsd (xs @ ys) (a_shut K (si_sd v) n0) e' s'
    \<and> cells (socks (cm_tcp s')) (the (si_socket v)) = None
    \<and> logs (io_world e) [msg_closed (si_id v)] (io_world e') \<and> io_buf e' = io_buf e"
proof -
  obtain w where w: "a_data K (Some b) (cl_of v) m n e = Inr (None, a_shut K (si_sd v) n0, e\<lparr>io_world := w\<rparr>)"
    "logs (io_world e) [msg_closed (si_id v)] w"
    by (rule a_data_closed[OF e _ r(2), of K "cl_of v" n n0 "Some b" m]) (use r(1) that in auto)
  then obtain s' where s': "handle_data K (Some b) (int (length xs)) (Some p) m s = Inr s'"
    "cm_is cap srv lsd (xs @ ys) (a_shut K (si_sd v) n0) (e\<lparr>io_world := w\<rparr>) s'"
    using data_sim[OF rep, of K "Some b" m] by auto
  have "live (cm_tcp s') (the (si_socket v)) = None"
  proof -
    have "distinct (srv # map (fst \<circ> sock_of) (xs @ (a, p, v) # ys))"
      using rep by (simp add: cm_is_def cm_rep_def)
    then have "fst (sock_of (a, p, v)) \<notin> set (map fst ((srv, lsd) # map sock_of (xs @ ys)))" by force
    then have "map_of ((srv, lsd) # map sock_of (xs @ ys)) (fst (sock_of (a, p, v))) = None"
      unfolding map_of_eq_None_iff set_map .
    then show ?thesis using s'(2) by (simp add: cm_is_def cm_rep_def sock_of_def)
  qed
  then have "cells (socks (cm_tcp s')) (the (si_socket v)) = None" by (simp add: live_def)
  then show ?thesis using s' w(2) by (intro exI[of _ s'] exI[of _ "e\<lparr>io_world := w\<rparr>"]) simp
qed

theorem connmgr_closed_witness:
  "\<exists>s p s' e' y2. handle_data demo_api (Some 0) 0 (Some p) \<lparr>raw_id = 9, raw_value = 9, raw_ts = 9\<rparr> s = Inr s'
    \<and> clients_of [y2] = [\<lparr>cl_sd = 5, cl_ts = 8, cl_id = 21\<rparr>] \<and> (\<exists>srv n. cm_is 2 srv 3 [y2] n e' s')
    \<and> logs cm_world [msg_closed 15] (io_world e')"
proof -
  obtain s srv a p v y2 where s: "cm_is 2 srv 3 [(a, p, v), y2] (6 :: nat, [] :: byte list) demo_env s"
    "si_sd v = 4" "si_ts v = 7" "si_id v = 15" "clients_of [y2] = [\<lparr>cl_sd = 5, cl_ts = 8, cl_id = 21\<rparr>]"
    by (rule demo_client)
  have s0: "cm_is 2 srv 3 ([] @ (a, p, v) # [y2]) (6 :: nat, [] :: byte list) demo_env s" using s(1) by simp
  have r: "sys_recv demo_api (si_sd v) 2 (6 :: nat, []) = (Received [], (6, []))" "closed_read (Received [])"
    by (simp_all add: demo_api_def closed_read_def)
  have "io_world demo_env = cm_world" by (simp add: demo_env_def)
  then obtain s' e' where "handle_data demo_api (Some 0) 0 (Some p) \<lparr>raw_id = 9, raw_value = 9, raw_ts = 9\<rparr> s = Inr s'"
    "cm_is 2 srv 3 [y2] (a_shut demo_api (si_sd v) (6, [])) e' s'" "logs cm_world [msg_closed 15] (io_world e')"
    using connmgr_closed[OF s0 demo_env_ok r, of "\<lparr>raw_id = 9, raw_value = 9, raw_ts = 9\<rparr>"] s(4) by auto
  then show ?thesis using s(5) by blast
qed

text \<open>
  C20: A client without data is removed exactly when it has sent a time that lies \<open>TIMEOUT\<close> seconds or more
  back. One that never sent a measurement, or only ones with time 0, is never removed however long it is
  silent, and no event tells of a removal. A time so far back that the difference has no 64 bit
  representation is an overflow, as any client can send it.
\<close>

theorem connmgr_timeout:
  assumes rep: "cm_is cap srv lsd (xs @ (a, p, v) # ys) n e s" and rd: "si_sd v \<notin> rd" "fd_range (si_sd v) = Inr ()"
  defines "d \<equiv> sint (clock (io_world e) (ticks (io_world e))) - sint (si_ts v)"
  shows "if d \<notin> {- (2 ^ 63)..<2 ^ 63} then check_timeout K tmo (int (length xs)) (Some p) rd s = Inl Int_Overflow
    else \<exists>s' zs n' e'. check_timeout K tmo (int (length xs)) (Some p) rd s = Inr (rd, s') \<and> cm_is cap srv lsd zs n' e' s'
      \<and> (if tmo \<le> d \<and> si_ts v \<noteq> 0 then clients_of zs = clients_of xs @ clients_of ys \<and> n' = a_shut K (si_sd v) n
         else clients_of zs = clients_of xs @ cl_of v # clients_of ys \<and> n' = n)
      \<and> fifo (io_world e') = fifo (io_world e) \<and> io_buf e' = io_buf e"
proof -
  define w where "w = (io_world e)\<lparr>ticks := Suc (ticks (io_world e))\<rparr>"
  have t: "time_now (io_world e) = (clock (io_world e) (ticks (io_world e)), w)" by (simp add: time_now_def w_def)
  have same: "fifo w = fifo (io_world e)" by (simp add: w_def)
  note sim = timeout_sim[OF rep rd, of K tmo]
  have A: "a_timeout K tmo (cl_of v) n e = (if d \<notin> {- (2 ^ 63)..<2 ^ 63} then Inl Int_Overflow
      else Inr (if tmo \<le> d \<and> si_ts v \<noteq> 0 then None else Some (cl_of v),
        if tmo \<le> d \<and> si_ts v \<noteq> 0 then a_shut K (si_sd v) n else n, e\<lparr>io_world := w\<rparr>))"
    by (auto simp: a_timeout_def t time_diff_def Let_def d_def)
  show ?thesis
  proof (cases "d \<in> {- (2 ^ 63)..<2 ^ 63}")
    case False
    then show ?thesis using sim A by simp
  next
    case ok: True
    show ?thesis
    proof (cases "tmo \<le> d \<and> si_ts v \<noteq> 0")
      case True
      then obtain s' where "check_timeout K tmo (int (length xs)) (Some p) rd s = Inr (rd, s')"
        "cm_is cap srv lsd (xs @ ys) (a_shut K (si_sd v) n) (e\<lparr>io_world := w\<rparr>) s'"
        using sim A ok by auto
      then show ?thesis using ok True same by fastforce
    next
      case False
      then obtain s' w' where "check_timeout K tmo (int (length xs)) (Some p) rd s = Inr (rd, s')" "cl_of w' = cl_of v"
        "cm_is cap srv lsd (xs @ (a, p, w') # ys) n (e\<lparr>io_world := w\<rparr>) s'"
        using sim A ok by auto
      then show ?thesis using ok False same
        by (auto intro!: exI[of _ "xs @ (a, p, w') # ys"] exI[of _ "e\<lparr>io_world := w\<rparr>"])
    qed
  qed
qed

theorem connmgr_timeout_witness:
  "\<exists>s p s' zs srv n e'. check_timeout demo_api 5 0 (Some p) {5} s = Inr ({5}, s') \<and> cm_is 2 srv 3 zs n e' s'
    \<and> clients_of zs = [\<lparr>cl_sd = 5, cl_ts = 8, cl_id = 21\<rparr>] \<and> fifo (io_world e') = []"
proof -
  obtain s srv a p v y2 where s: "cm_is 2 srv 3 [(a, p, v), y2] (6 :: nat, [] :: byte list) demo_env s"
    "si_sd v = 4" "si_ts v = 1535998090" "si_id v = 15" "clients_of [y2] = [\<lparr>cl_sd = 5, cl_ts = 8, cl_id = 21\<rparr>]"
    by (rule demo_client)
  have s0: "cm_is 2 srv 3 ([] @ (a, p, v) # [y2]) (6 :: nat, []) demo_env s" using s(1) by simp
  have rd: "si_sd v \<notin> {5}" "fd_range (si_sd v) = Inr ()" using s(2) by (simp_all add: fd_range_def FD_SETSIZE_def)
  have "sint (clock (io_world demo_env) (ticks (io_world demo_env))) - sint (si_ts v) = 10"
    "fifo (io_world demo_env) = []"
    using s(3) by (simp_all add: demo_env_def cm_world_def)
  then obtain s' zs e' where "check_timeout demo_api 5 0 (Some p) {5} s = Inr ({5}, s')"
    "cm_is 2 srv 3 zs (a_shut demo_api (si_sd v) (6, [])) e' s'" "clients_of zs = clients_of [y2]"
    "fifo (io_world e') = []"
    using connmgr_timeout[OF s0 rd, of demo_api 5] s(3) by auto
  then show ?thesis using s(5) by metis
qed

lemma a_visit_closed:
  assumes e: "env_ok b e" and r: "sys_recv K (cl_sd c) 2 n = (r, n0)" "closed_read r"
    and rd: "cl_sd c \<in> rd" "fd_range (cl_sd c) = Inr ()"
  shows "\<exists>n' e'. a_visit K tmo (Some b) rd c n e = Inr (None, n', e') \<and> env_ok b e'
    \<and> logs (io_world e) [msg_closed (cl_id c)] (io_world e') \<and> io_buf e' = io_buf e"
proof -
  define e1 where "e1 = e\<lparr>io_world := (io_world e)\<lparr>nallocs := Suc (nallocs (io_world e))\<rparr>\<rparr>"
  have m: "env_malloc e = (True, io_junk e (nallocs (io_world e)), e1)"
    using e by (simp add: env_malloc_def heap_alloc_def e1_def env_ok_def world_ok_def)
  have e1: "env_ok b e1" using e by (simp add: e1_def env_ok_def)
  have l1: "logs (io_world e) [] (io_world e1)" "io_buf e1 = io_buf e" by (simp_all add: e1_def)
  show ?thesis
  proof (rule a_data_closed[OF e1 r, of "Some b" "io_junk e (nallocs (io_world e))"], goal_cases)
    case (1 w)
    then show ?case using m rd l1 logs_append[OF l1(1) 1(2)]
      by (simp add: a_visit_def check_exit_def fd_isset_def)
  qed
qed

text \<open>The clients at the even places of the list, and the others.\<close>

fun even_places :: "'x list \<Rightarrow> 'x list" where
  "even_places (x # y # xs) = x # even_places xs"
| "even_places xs = xs"

fun odd_places :: "'x list \<Rightarrow> 'x list" where
  "odd_places (x # y # xs) = y # odd_places xs"
| "odd_places xs = []"

lemma a_pass_skips:
  assumes "env_ok b e" "\<And>c n. c \<in> set cs \<Longrightarrow> closed_read (fst (sys_recv K (cl_sd c) 2 n))"
    and "\<And>c. c \<in> set cs \<Longrightarrow> cl_sd c \<in> rd \<and> fd_range (cl_sd c) = Inr ()"
  shows "\<exists>n' e'. a_pass K tmo (Some b) rd cs n e = Inr (odd_places cs, n', e')
    \<and> logs (io_world e) (map (\<lambda>c. msg_closed (cl_id c)) (even_places cs)) (io_world e') \<and> io_buf e' = io_buf e"
  using assms
proof (induction cs arbitrary: n e rule: odd_places.induct [case_names two none one])
  case (two c d cs)
  obtain n1 e1 where v: "a_visit K tmo (Some b) rd c n e = Inr (None, n1, e1)" "env_ok b e1"
    "logs (io_world e) [msg_closed (cl_id c)] (io_world e1)" "io_buf e1 = io_buf e"
    using a_visit_closed[OF two(2), of K c n "fst (sys_recv K (cl_sd c) 2 n)" "snd (sys_recv K (cl_sd c) 2 n)" rd tmo]
      two(3)[of c n] two(4)[of c] by auto
  obtain n' e' where "a_pass K tmo (Some b) rd cs n1 e1 = Inr (odd_places cs, n', e')"
    "logs (io_world e1) (map (\<lambda>c. msg_closed (cl_id c)) (even_places cs)) (io_world e')" "io_buf e' = io_buf e1"
    using two.IH[OF v(2), of n1] two(3,4) by auto
  then show ?case using v logs_append[OF v(3)] by auto
next
  case (one c)
  then show ?case
    using a_visit_closed[OF one(1), of K c n "fst (sys_recv K (cl_sd c) 2 n)" "snd (sys_recv K (cl_sd c) 2 n)" rd tmo]
      one(2)[of c n] one(3)[of c] by auto
qed simp

text \<open>
  C23: When a client is removed, the next one takes its index while the loop goes on to the index after it. So
  when all clients have ended their connections and all are reported as ready, a round closes and logs
  only every second of them; the others stay in the list until another round.
\<close>

theorem connmgr_skips:
  assumes rep: "cm_is cap srv lsd xs n e s" and e: "env_ok b e"
    and closed: "\<And>sd n. closed_read (fst (sys_recv K sd 2 n))"
    and rd: "\<And>x. x \<in> set xs \<Longrightarrow> si_sd (s_val x) \<in> rd \<and> fd_range (si_sd (s_val x)) = Inr ()"
  shows "\<exists>s' zs n' e'. visit_loop (fuel (nodes (cm_mem s))) K tmo (Some b) 0 rd s = Inr s'
    \<and> cm_is cap srv lsd zs n' e' s' \<and> clients_of zs = odd_places (clients_of xs)
    \<and> logs (io_world e) (map (\<lambda>c. msg_closed (cl_id c)) (even_places (clients_of xs))) (io_world e')"
proof -
  have "\<And>c. c \<in> set (clients_of xs) \<Longrightarrow> cl_sd c \<in> rd \<and> fd_range (cl_sd c) = Inr ()"
    using rd by (auto simp: clients_of_def)
  then obtain n' e' where "a_pass K tmo (Some b) rd (clients_of xs) n e = Inr (odd_places (clients_of xs), n', e')"
    "logs (io_world e) (map (\<lambda>c. msg_closed (cl_id c)) (even_places (clients_of xs))) (io_world e')"
    using a_pass_skips[OF e, of "clients_of xs" K rd tmo n] closed by blast
  then show ?thesis
    using visit_loop_sim[of cap srv lsd "[]" xs n e s "fuel (nodes (cm_mem s))" K tmo "Some b" rd] rep
      cm_is_size(2)[OF rep] by fastforce
qed

definition closing_api :: "(nat \<times> byte list) sockapi" where
  "closing_api = demo_api\<lparr>sys_recv := \<lambda>_ _ n. (Received [], n)\<rparr>"

theorem connmgr_skips_witness:
  "\<exists>s s' zs n' e' srv. visit_loop (fuel (nodes (cm_mem s))) closing_api 5 (Some 0) 0 {3, 4, 5} s = Inr s'
    \<and> cm_is 2 srv 3 zs n' e' s' \<and> clients_of zs = [\<lparr>cl_sd = 5, cl_ts = 8, cl_id = 21\<rparr>]
    \<and> logs cm_world [msg_closed 15] (io_world e')"
proof -
  obtain s srv y1 y2 where s: "cm_is 2 srv 3 [y1, y2] (6 :: nat, [] :: byte list) demo_env s"
    "clients_of [y1, y2] = [\<lparr>cl_sd = 4, cl_ts = 7, cl_id = 15\<rparr>, \<lparr>cl_sd = 5, cl_ts = 8, cl_id = 21\<rparr>]"
    by (rule demo_clients)
  have c: "closed_read (fst (sys_recv closing_api sd 2 n))" for sd n by (simp add: closing_api_def closed_read_def)
  have rd: "si_sd (s_val x) \<in> {3, 4, 5} \<and> fd_range (si_sd (s_val x)) = Inr ()" if "x \<in> set [y1, y2]" for x
    using that s(2) by (auto simp: cl_of_def fd_range_def FD_SETSIZE_def)
  have "io_world demo_env = cm_world" by (simp add: demo_env_def)
  then obtain s' zs n' e' where "visit_loop (fuel (nodes (cm_mem s))) closing_api 5 (Some 0) 0 {3, 4, 5} s = Inr s'"
    "cm_is 2 srv 3 zs n' e' s'" "clients_of zs = [\<lparr>cl_sd = 5, cl_ts = 8, cl_id = 21\<rparr>]"
    "logs cm_world [msg_closed 15] (io_world e')"
    using connmgr_skips[OF s(1) demo_env_ok c rd, of 5] unfolding s(2) by auto
  then show ?thesis by blast
qed

end
