(* ===== verification/Gateway.thy ===== *)
theory Gateway
  imports Readers
begin

text \<open>
  The main process (\<open>main\<close>, \<open>connmgr_function\<close>, \<open>datamgr_function\<close> and \<open>storagemgr_function\<close> of \<open>main.c\<close>): it
  creates the shared buffer and three threads, waits for the connection manager, clears the two run
  flags, waits for the readers and releases the buffer. The threads run in any order. A step of a thread
  is a stretch in which it enters a critical section of the shared buffer at most once; the log, the clock
  and the heap (\<open>world\<close>) and the buffer are shared. The process that \<open>fork\<close> creates runs the log process. The
  answers of the system calls that start, join and destroy threads are a parameter (\<open>main_calls\<close>).

  The connection manager appears with what it does to the rest of the process: it inserts measurements,
  logs events, allocates measurements, reads the clock, and returns. That the runs of theory \<open>Connmgr\<close> in which no
  other thread interferes are made of these steps is shown in theory \<open>Gateway_Connmgr\<close>.
\<close>

section \<open>The threads that read\<close>

text \<open>
  Where a reader is: not created, before its start, before looking for a first node, before reading,
  with a packet to process, before reading its run flag, after the loop, and ended.
\<close>

datatype phase =
    Unborn | Starting | Polling | Taking | Processing sensor_data_t | Checking | Ending | Finished

text \<open>
  One step, for a thread that starts with \<open>start\<close> (and ends at once unless that succeeds), takes a packet
  with \<open>take_op\<close>, processes it with \<open>process\<close> and ends with \<open>finish\<close>.
\<close>

definition reader_step ::
  "('m \<Rightarrow> (bool \<times> 'm) res) \<Rightarrow> ('m \<Rightarrow> sbmem \<Rightarrow> (sensor_data_t \<times> 'm \<times> sbmem) res)
   \<Rightarrow> ('m \<Rightarrow> sensor_data_t \<Rightarrow> 'm res) \<Rightarrow> ('m \<Rightarrow> 'm res) \<Rightarrow> ptr \<Rightarrow> bool \<Rightarrow> phase \<Rightarrow> 'm \<Rightarrow> sbmem
   \<Rightarrow> (phase \<times> 'm \<times> sbmem) res" where
  "reader_step start take_op process finish buffer run ph m B = (case ph of
      Unborn \<Rightarrow> Inr (Unborn, m, B)
    | Starting \<Rightarrow> bindR (start m) (\<lambda>(ok, m). Inr (if ok then Polling else Finished, m, B))
    | Polling \<Rightarrow> bindR (sbuffer_get_first_node B buffer) (\<lambda>p. Inr (if p \<noteq> NULL then Taking else Checking, m, B))
    | Taking \<Rightarrow> bindR (take_op m B) (\<lambda>(d, m, B). Inr (Processing d, m, B))
    | Processing d \<Rightarrow> bindR (process m d) (\<lambda>m. Inr (Checking, m, B))
    | Checking \<Rightarrow> Inr (if run then Polling else Ending, m, B)
    | Ending \<Rightarrow> bindR (finish m) (\<lambda>m. Inr (Finished, m, B))
    | Finished \<Rightarrow> Inr (Finished, m, B))"

text \<open>The data manager's thread. The room map is \<open>None\<close> when the file cannot be opened.\<close>

definition datamgr_begin :: "string option \<Rightarrow> ptr \<Rightarrow> dm_state \<Rightarrow> (bool \<times> dm_state) res" where
  "datamgr_begin fp buffer M =
     bindR (check_exit (fp \<noteq> None)) (\<lambda>_.
     bindR (datamgr_read_map fp M) (\<lambda>M.
     bindR (check_exit (buffer \<noteq> NULL)) (\<lambda>_. Inr (True, M))))"

text \<open>
  The thread \<open>self\<close> reads while the two thread variables have the values \<open>D\<close> and \<open>S\<close>; \<open>sbuffer_remove\<close> compares them with
  \<open>pthread_self()\<close>.
\<close>

definition datamgr_remove ::
  "pthread_t \<Rightarrow> pthread_t \<Rightarrow> pthread_t \<Rightarrow> ptr \<Rightarrow> dm_state \<Rightarrow> sbmem \<Rightarrow> (sensor_data_t \<times> dm_state \<times> sbmem) res" where
  "datamgr_remove D S self buffer M B =
     (let (ok, w) = heap_alloc (dm_world M); M = M\<lparr>dm_world := w\<rparr> in
      bindR (check_exit ok) (\<lambda>_.
      bindR (sbuffer_remove D S self B buffer no_data) (\<lambda>(err, d, B).
      bindR (check_exit (err \<noteq> SBUFFER_FAILURE)) (\<lambda>_. Inr (d, M, B)))))"

text \<open>\<open>closed\<close> tells whether \<open>fclose\<close> of the room map succeeds.\<close>

definition datamgr_end :: "bool \<Rightarrow> dm_state \<Rightarrow> dm_state res" where
  "datamgr_end closed M = bindR (datamgr_free M) (\<lambda>M. bindR (check_exit closed) (\<lambda>_. Inr M))"

definition datamgr_function ::
  "pthread_t \<Rightarrow> pthread_t \<Rightarrow> pthread_t \<Rightarrow> sensor_value_t \<Rightarrow> sensor_value_t \<Rightarrow> string option \<Rightarrow> bool \<Rightarrow> ptr \<Rightarrow> bool
   \<Rightarrow> phase \<Rightarrow> dm_state \<Rightarrow> sbmem \<Rightarrow> (phase \<times> dm_state \<times> sbmem) res" where
  "datamgr_function D S self lo hi fp closed buffer =
     reader_step (datamgr_begin fp buffer) (datamgr_remove D S self buffer) (process_data lo hi) (datamgr_end closed) buffer"

text \<open>The storage manager's thread.\<close>

definition storagemgr_begin ::
  "('db, 'c) sqlite \<Rightarrow> 'c \<Rightarrow> ptr \<Rightarrow> 'db st_state \<Rightarrow> (bool \<times> 'db st_state) res" where
  "storagemgr_begin Q c buffer s =
     bindR (storagemgr_connect Q c s) (\<lambda>(connection, s).
     if \<not> connection then Inr (False, s)
     else bindR (check_exit (buffer \<noteq> NULL)) (\<lambda>_. Inr (True, s)))"

definition storagemgr_remove ::
  "pthread_t \<Rightarrow> pthread_t \<Rightarrow> pthread_t \<Rightarrow> ptr \<Rightarrow> 'db st_state \<Rightarrow> sbmem \<Rightarrow> (sensor_data_t \<times> 'db st_state \<times> sbmem) res" where
  "storagemgr_remove D S self buffer s B =
     (let (ok, w) = heap_alloc (st_world s); s = s\<lparr>st_world := w\<rparr> in
      bindR (check_exit ok) (\<lambda>_.
      bindR (sbuffer_remove D S self B buffer no_data) (\<lambda>(err, d, B).
      bindR (check_exit (err \<noteq> SBUFFER_FAILURE)) (\<lambda>_. Inr (d, s, B)))))"

definition storagemgr_steps ::
  "pthread_t \<Rightarrow> pthread_t \<Rightarrow> pthread_t \<Rightarrow> ('db, 'c) sqlite \<Rightarrow> 'c \<Rightarrow> ptr \<Rightarrow> bool
   \<Rightarrow> phase \<Rightarrow> 'db st_state \<Rightarrow> sbmem \<Rightarrow> (phase \<times> 'db st_state \<times> sbmem) res" where
  "storagemgr_steps D S self Q c buffer =
     reader_step (storagemgr_begin Q c buffer) (storagemgr_remove D S self buffer)
       (\<lambda>s d. Inr (store_data Q c s d)) (disconnect Q) buffer"

text \<open>The steps of an iteration without interference are the iteration of theories \<open>Datamgr\<close> and \<open>Sensor_db\<close>.\<close>

lemma datamgr_take_steps:
  "datamgr_take D S lo hi M B buffer
   = bindR (datamgr_remove D S D buffer M B) (\<lambda>(d, M, B). bindR (process_data lo hi M d) (\<lambda>M. Inr (M, B)))"
  by (simp add: datamgr_take_def datamgr_remove_def Let_def bindR_assoc split_def)

lemma storagemgr_take_steps:
  "storagemgr_take D S Q c s B buffer
   = bindR (storagemgr_remove D S S buffer s B) (\<lambda>(d, s, B). Inr (store_data Q c s d, B))"
  by (simp add: storagemgr_take_def storagemgr_remove_def Let_def bindR_assoc split_def)

section \<open>The process\<close>

text \<open>\<open>fork\<close> returns in both processes; the calls of \<open>main\<close> that can fail, and \<open>fclose\<close> of the room map.\<close>

datatype fork_result = Fork_Failed | In_Child | In_Parent

record main_calls =
  mc_sigaction :: bool
  mc_attr_init :: bool
  mc_attr_setdetachstate :: bool
  mc_mutex_buf_init :: bool
  mc_mutex_fifo_init :: bool
  mc_create_connmgr :: bool
  mc_create_datamgr :: bool
  mc_create_storagemgr :: bool
  mc_join_connmgr :: bool
  mc_join_datamgr :: bool
  mc_join_storagemgr :: bool
  mc_attr_destroy :: bool
  mc_mutex_destroy :: bool
  mc_fclose_map :: bool

datatype main_at =
    Setting_Flags | Creating_Datamgr | Storing_Datamgr | Creating_Storagemgr | Storing_Storagemgr
  | Joining_Connmgr | Stopping_Datamgr | Stopping_Storagemgr | Joining_Datamgr | Joining_Storagemgr | Freeing | Exited

text \<open>
  The state; \<open>g_accepted\<close>, \<open>dm_taken\<close> and \<open>st_taken\<close> only record the measurements that were inserted and that
  the readers have been given.
\<close>

record 'db gateway =
  g_main :: main_at
  datamgr_td :: pthread_t
  storagemgr_td :: pthread_t
  run_datamgr :: bool
  run_storagemgr :: bool
  connmgr_running :: bool
  dm_at :: phase
  dm_part :: dm_state
  st_at :: phase
  st_part :: "'db st_state"
  g_buf :: sbmem
  g_world :: world
  g_accepted :: "sensor_data_t list"
  dm_taken :: "sensor_data_t list"
  st_taken :: "sensor_data_t list"

text \<open>
  The argument of the connection manager's thread. \<open>main\<close> reads the port from its second argument; when there
  is only one, \<open>atoi\<close> is given the \<open>NULL\<close> that ends \<open>argv\<close>.
\<close>

record connmgr_data =
  cd_buf :: ptr
  cd_port :: int

definition main_connmgr_data :: "string list \<Rightarrow> ptr \<Rightarrow> connmgr_data res" where
  "main_connmgr_data argv buffer =
     bindR (if length argv < 2 then Inl Null_Deref else atoi (argv ! 1)) (\<lambda>p.
     Inr \<lparr>cd_buf = buffer, cd_port = p\<rparr>)"

lemma main_connmgr_data_port:
  "INT_MIN \<le> n \<Longrightarrow> n \<le> INT_MAX \<Longrightarrow> main_connmgr_data [prog, pr_d n] buffer = Inr \<lparr>cd_buf = buffer, cd_port = n\<rparr>"
  by (simp add: main_connmgr_data_def atoi_pr_d)

text \<open>From \<open>sbuffer_init\<close> to the creation of the connection manager's thread.\<close>

definition main_begin ::
  "main_calls \<Rightarrow> string list \<Rightarrow> sbmem \<Rightarrow> world \<Rightarrow> dm_state \<Rightarrow> 'db st_state \<Rightarrow> (connmgr_data \<times> 'db gateway) res" where
  "main_begin c argv B w M s =
     bindR (sbuffer_init B) (\<lambda>(err, buffer, B).
     bindR (check_exit (err = SBUFFER_SUCCESS)) (\<lambda>_.
     bindR (main_connmgr_data argv buffer) (\<lambda>td_data.
     bindR (check_exit (mc_attr_init c)) (\<lambda>_.
     bindR (check_exit (mc_attr_setdetachstate c)) (\<lambda>_.
     bindR (check_exit (mc_mutex_buf_init c)) (\<lambda>_.
     bindR (check_exit (mc_mutex_fifo_init c)) (\<lambda>_.
     bindR (check_exit (mc_create_connmgr c)) (\<lambda>_.
     Inr (td_data, \<lparr>g_main = Setting_Flags, datamgr_td = 0, storagemgr_td = 0,
       run_datamgr = False, run_storagemgr = False, connmgr_running = True,
       dm_at = Unborn, dm_part = M, st_at = Unborn, st_part = s, g_buf = B, g_world = w,
       g_accepted = [], dm_taken = [], st_taken = []\<rparr>)))))))))"

text \<open>
  \<open>main\<close> as each of the two processes sees it. The child runs the log process (\<open>le\<close>: whether the
  end-of-file indicator is sticky, the answers of the system, and the bytes that it finds in the FIFO in each round),
  and ends. The result of the parent is its state when the first thread has been created.
\<close>

datatype 'db process = Log_Process logproc | Main_Process connmgr_data "'db gateway"

definition main ::
  "fork_result \<Rightarrow> main_calls \<Rightarrow> string list \<Rightarrow> bool \<times> logproc_calls \<times> (int \<Rightarrow> nat option) \<times> string list
   \<Rightarrow> sbmem \<Rightarrow> world \<Rightarrow> dm_state \<Rightarrow> 'db st_state \<Rightarrow> 'db process res" where
  "main child_pid c argv le B w M s =
     bindR (check_exit (\<not> length argv < 1)) (\<lambda>_.
     bindR (check_exit (child_pid \<noteq> Fork_Failed)) (\<lambda>_.
     if child_pid = In_Child then
       bindR (check_exit (mc_sigaction c)) (\<lambda>_.
       bindR (case le of (sticky, lc, io, rounds) \<Rightarrow> fifo_to_log sticky lc io rounds) (\<lambda>p.
       Inr (Log_Process p)))
     else bindR (main_begin c argv B w M s) (\<lambda>(td_data, g). Inr (Main_Process td_data g))))"

text \<open>
  The next step of \<open>main\<close>, or \<open>None\<close> when it waits or has ended. \<open>pthread_create\<close> starts a thread and stores its id (\<open>D\<close>, \<open>S\<close>)
  in the thread variable, in any order as POSIX has it: the thread may run before its id is stored.
\<close>

definition main_step :: "main_calls \<Rightarrow> pthread_t \<Rightarrow> pthread_t \<Rightarrow> ptr \<Rightarrow> 'db gateway \<Rightarrow> 'db gateway option res" where
  "main_step c D S buffer g = (case g_main g of
      Setting_Flags \<Rightarrow> Inr (Some (g\<lparr>run_datamgr := True, run_storagemgr := True, g_main := Creating_Datamgr\<rparr>))
    | Creating_Datamgr \<Rightarrow>
        bindR (check_exit (mc_create_datamgr c)) (\<lambda>_. Inr (Some (g\<lparr>dm_at := Starting, g_main := Storing_Datamgr\<rparr>)))
    | Storing_Datamgr \<Rightarrow> Inr (Some (g\<lparr>datamgr_td := D, g_main := Creating_Storagemgr\<rparr>))
    | Creating_Storagemgr \<Rightarrow>
        bindR (check_exit (mc_create_storagemgr c)) (\<lambda>_. Inr (Some (g\<lparr>st_at := Starting, g_main := Storing_Storagemgr\<rparr>)))
    | Storing_Storagemgr \<Rightarrow> Inr (Some (g\<lparr>storagemgr_td := S, g_main := Joining_Connmgr\<rparr>))
    | Joining_Connmgr \<Rightarrow>
        bindR (check_exit (mc_join_connmgr c)) (\<lambda>_.
        Inr (if connmgr_running g then None else Some (g\<lparr>g_main := Stopping_Datamgr\<rparr>)))
    | Stopping_Datamgr \<Rightarrow> Inr (Some (g\<lparr>run_datamgr := False, g_main := Stopping_Storagemgr\<rparr>))
    | Stopping_Storagemgr \<Rightarrow> Inr (Some (g\<lparr>run_storagemgr := False, g_main := Joining_Datamgr\<rparr>))
    | Joining_Datamgr \<Rightarrow>
        bindR (check_exit (mc_join_datamgr c)) (\<lambda>_.
        Inr (if dm_at g = Finished then Some (g\<lparr>g_main := Joining_Storagemgr\<rparr>) else None))
    | Joining_Storagemgr \<Rightarrow>
        bindR (check_exit (mc_join_storagemgr c)) (\<lambda>_.
        Inr (if st_at g = Finished then Some (g\<lparr>g_main := Freeing\<rparr>) else None))
    | Freeing \<Rightarrow>
        bindR (check_exit (mc_attr_destroy c)) (\<lambda>_.
        bindR (check_exit (mc_mutex_destroy c)) (\<lambda>_.
        bindR (sbuffer_print_data (g_buf g) buffer) (\<lambda>_.
        bindR (sbuffer_free (g_buf g) (Some buffer)) (\<lambda>(err, _, B).
        bindR (check_exit (err = SBUFFER_SUCCESS)) (\<lambda>_.
        Inr (Some (g\<lparr>g_buf := B, g_main := Exited\<rparr>)))))))
    | Exited \<Rightarrow> Inr None)"

text \<open>What a reader is given when it reads the buffer \<open>B\<close> in the phase \<open>ph\<close>.\<close>

definition given :: "addr \<Rightarrow> reader \<Rightarrow> phase \<Rightarrow> sbmem \<Rightarrow> sensor_data_t list" where
  "given b r ph B = (if ph = Taking then take 1 (sb_pending b r B) else [])"

text \<open>
  What the connection manager may do while it runs: the blocks of \<open>connmgr.c\<close> that touch what the threads share. It may
  do these things in any order, so there are more runs than those of \<open>connmgr.c\<close>.
\<close>

inductive cm_step :: "addr \<Rightarrow> 'db gateway \<Rightarrow> 'db gateway \<Rightarrow> bool" for b where
  insert: "connmgr_running g \<Longrightarrow> sbuffer_insert (g_buf g) (Some b) d = Inr (SBUFFER_SUCCESS, B) \<Longrightarrow>
    cm_step b g (g\<lparr>g_buf := B, g_accepted := g_accepted g @ [d]\<rparr>)"
| log: "connmgr_running g \<Longrightarrow> fmt \<in> range msg_opened \<union> range msg_closed \<Longrightarrow> log_event fmt (g_world g) = Inr w \<Longrightarrow>
    cm_step b g (g\<lparr>g_world := w\<rparr>)"
| alloc: "connmgr_running g \<Longrightarrow> heap_alloc (g_world g) = (True, w) \<Longrightarrow> cm_step b g (g\<lparr>g_world := w\<rparr>)"
| clock: "connmgr_running g \<Longrightarrow> time_now (g_world g) = (t, w) \<Longrightarrow> cm_step b g (g\<lparr>g_world := w\<rparr>)"
| return: "connmgr_running g \<Longrightarrow> cm_step b g (g\<lparr>connmgr_running := False\<rparr>)"

text \<open>A step of the process: of the connection manager, of one of the readers, whose ids are \<open>D\<close> and \<open>S\<close>, or of \<open>main\<close>.\<close>

inductive gw_step ::
  "pthread_t \<Rightarrow> pthread_t \<Rightarrow> sensor_value_t \<Rightarrow> sensor_value_t \<Rightarrow> string option \<Rightarrow> main_calls
   \<Rightarrow> ('db, 'c) sqlite \<Rightarrow> 'c \<Rightarrow> addr
   \<Rightarrow> 'db gateway \<Rightarrow> 'db gateway \<Rightarrow> bool"
  for D S lo hi fp mc Q c b where
  connmgr: "cm_step b g g' \<Longrightarrow> gw_step D S lo hi fp mc Q c b g g'"
| datamgr: "dm_at g \<noteq> Unborn \<Longrightarrow> dm_at g \<noteq> Finished \<Longrightarrow>
    datamgr_function (datamgr_td g) (storagemgr_td g) D lo hi fp (mc_fclose_map mc) (Some b) (run_datamgr g) (dm_at g)
      ((dm_part g)\<lparr>dm_world := g_world g\<rparr>) (g_buf g) = Inr (ph, M, B) \<Longrightarrow>
    gw_step D S lo hi fp mc Q c b g (g\<lparr>dm_at := ph, dm_part := M, g_world := dm_world M, g_buf := B,
      dm_taken := dm_taken g @ given b Data_Reader (dm_at g) (g_buf g)\<rparr>)"
| storagemgr: "st_at g \<noteq> Unborn \<Longrightarrow> st_at g \<noteq> Finished \<Longrightarrow>
    storagemgr_steps (datamgr_td g) (storagemgr_td g) S Q c (Some b) (run_storagemgr g) (st_at g)
      ((st_part g)\<lparr>st_world := g_world g\<rparr>) (g_buf g) = Inr (ph, s, B) \<Longrightarrow>
    gw_step D S lo hi fp mc Q c b g (g\<lparr>st_at := ph, st_part := s, g_world := st_world s, g_buf := B,
      st_taken := st_taken g @ given b Storage_Reader (st_at g) (g_buf g)\<rparr>)"
| main: "main_step mc D S (Some b) g = Inr (Some g') \<Longrightarrow> gw_step D S lo hi fp mc Q c b g g'"

lemmas connmgr_insert_step = gw_step.connmgr[OF cm_step.insert]
lemmas connmgr_log_step = gw_step.connmgr[OF cm_step.log]
lemmas connmgr_alloc_step = gw_step.connmgr[OF cm_step.alloc]
lemmas connmgr_clock_step = gw_step.connmgr[OF cm_step.clock]
lemmas connmgr_return_step = gw_step.connmgr[OF cm_step.return]

lemma gw_stepE [consumes 1, case_names connmgr_insert connmgr_log connmgr_alloc connmgr_clock connmgr_return datamgr storagemgr main]:
  assumes "gw_step D S lo hi fp mc Q c b g g'"
  obtains d B where "g' = g\<lparr>g_buf := B, g_accepted := g_accepted g @ [d]\<rparr>" "connmgr_running g"
      "sbuffer_insert (g_buf g) (Some b) d = Inr (SBUFFER_SUCCESS, B)"
  | fmt w where "g' = g\<lparr>g_world := w\<rparr>" "connmgr_running g" "fmt \<in> range msg_opened \<union> range msg_closed"
      "log_event fmt (g_world g) = Inr w"
  | w where "g' = g\<lparr>g_world := w\<rparr>" "connmgr_running g" "heap_alloc (g_world g) = (True, w)"
  | t w where "g' = g\<lparr>g_world := w\<rparr>" "connmgr_running g" "time_now (g_world g) = (t, w)"
  | "g' = g\<lparr>connmgr_running := False\<rparr>" "connmgr_running g"
  | ph M B where "g' = g\<lparr>dm_at := ph, dm_part := M, g_world := dm_world M, g_buf := B,
        dm_taken := dm_taken g @ given b Data_Reader (dm_at g) (g_buf g)\<rparr>" "dm_at g \<noteq> Unborn" "dm_at g \<noteq> Finished"
      "datamgr_function (datamgr_td g) (storagemgr_td g) D lo hi fp (mc_fclose_map mc) (Some b) (run_datamgr g) (dm_at g)
        ((dm_part g)\<lparr>dm_world := g_world g\<rparr>) (g_buf g) = Inr (ph, M, B)"
  | ph s B where "g' = g\<lparr>st_at := ph, st_part := s, g_world := st_world s, g_buf := B,
        st_taken := st_taken g @ given b Storage_Reader (st_at g) (g_buf g)\<rparr>" "st_at g \<noteq> Unborn" "st_at g \<noteq> Finished"
      "storagemgr_steps (datamgr_td g) (storagemgr_td g) S Q c (Some b) (run_storagemgr g) (st_at g)
        ((st_part g)\<lparr>st_world := g_world g\<rparr>) (g_buf g) = Inr (ph, s, B)"
  | "main_step mc D S (Some b) g = Inr (Some g')"
  using assms
proof cases
  case connmgr
  then show ?thesis by cases (erule that(1-5); assumption)+
next
  case (datamgr ph M B)
  then show ?thesis by (rule that(6))
next
  case (storagemgr ph s B)
  then show ?thesis by (rule that(7))
next
  case main
  then show ?thesis by (rule that(8))
qed

end
