(* ===== verification/Gateway_Inv.thy ===== *)
theory Gateway_Inv
  imports Gateway
begin

text \<open>
  The invariant of the gateway. The interface \<open>reader_thread\<close> states what a reading thread promises at each of
  its steps; it is interpreted on the data manager's and on the storage manager's thread. With it every
  step of the process keeps the invariant and no step faults, in any interleaving.
\<close>

section \<open>The interface of a reading thread\<close>

text \<open>
  \<open>before m\<close> holds of the thread's state until it starts, \<open>did ds m\<close> when it has processed \<open>ds\<close>, and \<open>ended ds m\<close>
  after its end. Between reading and processing the packet is one more measurement, or the preset that
  the read has left alone.
\<close>

fun thread_ok ::
  "('m \<Rightarrow> bool) \<Rightarrow> (sensor_data_t list \<Rightarrow> 'm \<Rightarrow> bool) \<Rightarrow> (sensor_data_t list \<Rightarrow> 'm \<Rightarrow> bool)
   \<Rightarrow> sensor_data_t list \<Rightarrow> phase \<Rightarrow> 'm \<Rightarrow> bool" where
  "thread_ok before did ended ds Unborn m = (ds = [] \<and> before m)"
| "thread_ok before did ended ds Starting m = (ds = [] \<and> before m)"
| "thread_ok before did ended ds (Processing d) m =
     ((\<exists>ds'. ds = ds' @ [d] \<and> did ds' m) \<or> d = no_data \<and> did ds m)"
| "thread_ok before did ended ds Finished m = ended ds m"
| "thread_ok before did ended ds _ m = did ds m"

locale reader_thread =
  fixes b :: addr and r :: reader and lim :: nat
    and world_of :: "'m \<Rightarrow> world" and set_world :: "world \<Rightarrow> 'm \<Rightarrow> 'm"
    and before :: "'m \<Rightarrow> bool" and did ended :: "sensor_data_t list \<Rightarrow> 'm \<Rightarrow> bool"
    and start :: "'m \<Rightarrow> (bool \<times> 'm) res"
    and take_op :: "'m \<Rightarrow> sbmem \<Rightarrow> (sensor_data_t \<times> 'm \<times> sbmem) res"
    and process :: "'m \<Rightarrow> sensor_data_t \<Rightarrow> 'm res" and finish :: "'m \<Rightarrow> 'm res"
  assumes world_set: "world_of (set_world w m) = w"
    and any_world: "world_ok w \<Longrightarrow> before m \<Longrightarrow> before (set_world w m)"
      "world_ok w \<Longrightarrow> did ds m \<Longrightarrow> did ds (set_world w m)" "world_ok w \<Longrightarrow> ended ds m \<Longrightarrow> ended ds (set_world w m)"
    and start_ok: "before m \<Longrightarrow> world_ok (world_of m) \<Longrightarrow>
      \<exists>ok m'. start m = Inr (ok, m') \<and> (if ok then did [] m' else ended [] m') \<and> world_ok (world_of m')"
    and take_next: "did ds m \<Longrightarrow> world_ok (world_of m) \<Longrightarrow> sb_inv b B \<Longrightarrow> sb_pending b r B = x # q \<Longrightarrow>
      \<exists>m' B'. take_op m B = Inr (x, m', B') \<and> did ds m' \<and> world_ok (world_of m') \<and> sb_inv b B'
        \<and> sb_pending b r B' = q \<and> sb_pending b (other r) B' = sb_pending b (other r) B"
    and take_none: "did ds m \<Longrightarrow> world_ok (world_of m) \<Longrightarrow> sb_inv b B \<Longrightarrow> sb_pending b r B = [] \<Longrightarrow>
      \<exists>m'. take_op m B = Inr (no_data, m', B) \<and> did ds m' \<and> world_ok (world_of m')"
    and process_next: "did ds m \<Longrightarrow> world_ok (world_of m) \<Longrightarrow> length ds < lim \<Longrightarrow>
      \<exists>m'. process m d = Inr m' \<and> did (ds @ [d]) m' \<and> world_ok (world_of m')"
    and process_none: "did ds m \<Longrightarrow> world_ok (world_of m) \<Longrightarrow>
      \<exists>m'. process m no_data = Inr m' \<and> did ds m' \<and> world_ok (world_of m')"
    and finish_ok: "did ds m \<Longrightarrow> world_ok (world_of m) \<Longrightarrow>
      \<exists>m'. finish m = Inr m' \<and> ended ds m' \<and> world_ok (world_of m')"
begin

abbreviation ok :: "sensor_data_t list \<Rightarrow> phase \<Rightarrow> 'm \<Rightarrow> bool" where
  "ok \<equiv> thread_ok before did ended"

lemma ok_world: "ok ds ph m \<Longrightarrow> world_ok w \<Longrightarrow> ok ds ph (set_world w m)"
  by (cases ph) (auto intro: any_world)

text \<open>A step never faults; what the thread is given leaves its part of the buffer, and nothing else changes there.\<close>

lemma step_ok:
  assumes th: "ok ds ph m" and w: "world_ok (world_of m)" and B: "sb_inv b B" and len: "length ds \<le> lim"
  shows "\<exists>ph' m' B'. reader_step start take_op process finish (Some b) run ph m B = Inr (ph', m', B')
    \<and> ok (ds @ given b r ph B) ph' m' \<and> world_ok (world_of m') \<and> sb_inv b B'
    \<and> sb_pending b r B = given b r ph B @ sb_pending b r B'
    \<and> sb_pending b (other r) B' = sb_pending b (other r) B"
proof (cases ph)
  case Starting
  then show ?thesis using start_ok[of m] th w B by (auto simp: reader_step_def given_def)
next
  case Polling
  then show ?thesis using first_node_entries[OF B] th w B by (auto simp: reader_step_def given_def)
next
  case Taking
  then have did: "did ds m" using th by simp
  show ?thesis
  proof (cases "sb_pending b r B")
    case Nil
    then show ?thesis using take_none[OF did w B Nil] B Taking by (auto simp: reader_step_def given_def)
  next
    case (Cons x q)
    then show ?thesis using take_next[OF did w B Cons] Taking by (auto simp: reader_step_def given_def)
  qed
next
  case (Processing d)
  then consider (packet) ds' where "ds = ds' @ [d]" "did ds' m" | (preset) "d = no_data" "did ds m"
    using th by auto
  then show ?thesis
  proof cases
    case packet
    then show ?thesis using process_next[OF packet(2) w, of d] len B Processing
      by (auto simp: reader_step_def given_def)
  next
    case preset
    then show ?thesis using process_none[OF preset(2) w] B Processing by (auto simp: reader_step_def given_def)
  qed
next
  case Ending
  then show ?thesis using finish_ok[of ds m] th w B by (auto simp: reader_step_def given_def)
qed (use th w B in \<open>auto simp: reader_step_def given_def\<close>)

end

section \<open>The data manager's thread\<close>

lemma spec_run_snoc:
  "fst (spec_run lo hi ids (ds @ [d]) hss) = fst (spec_step lo hi ids d (fst (spec_run lo hi ids ds hss)))"
  by (induction ds arbitrary: hss) (simp_all add: Let_def split_def)

text \<open>The histories of the sensors \<open>ids\<close> after the measurements \<open>ds\<close>.\<close>

definition histories ::
  "sensor_value_t \<Rightarrow> sensor_value_t \<Rightarrow> sensor_id_t list \<Rightarrow> sensor_data_t list \<Rightarrow> sensor_value_t list list" where
  "histories lo hi ids ds = fst (spec_run lo hi ids ds (replicate (length ids) []))"

lemma histories_bound: "\<forall>hs \<in> set (histories lo hi ids ds). length hs \<le> length ds"
proof (induction ds rule: rev_induct)
  case Nil
  then show ?case by (simp add: histories_def)
next
  case (snoc d ds)
  then show ?case using spec_step_bound[of "histories lo hi ids ds" "length ds" lo hi ids d]
    by (simp add: histories_def spec_run_snoc)
qed

definition dm_before :: "string \<Rightarrow> nat \<Rightarrow> nat \<Rightarrow> dm_state \<Rightarrow> bool" where
  "dm_before fl nn ne M \<longleftrightarrow> (\<exists>w. M = dm_fresh nn ne w)
     \<and> length (map_entries fl (-1) (-1)) < ne \<and> length (map_entries fl (-1) (-1)) \<le> nn"

definition dm_did ::
  "sensor_value_t \<Rightarrow> sensor_value_t \<Rightarrow> string \<Rightarrow> sensor_data_t list \<Rightarrow> dm_state \<Rightarrow> bool" where
  "dm_did lo hi fl ds M \<longleftrightarrow> dm_ids M = map snd (map_entries fl (-1) (-1))
     \<and> dm_inv M (histories lo hi (map snd (map_entries fl (-1) (-1))) ds)"

definition dm_ended :: "sensor_data_t list \<Rightarrow> dm_state \<Rightarrow> bool" where
  "dm_ended ds M \<longleftrightarrow> sensor_list M = NULL \<and> dom (cells (elems (dm_mem M))) = {} \<and> dom (cells (nodes (dm_mem M))) = {}"

lemma dm_inv_world: "dm_inv M hss \<Longrightarrow> world_ok w \<Longrightarrow> dm_inv (M\<lparr>dm_world := w\<rparr>) hss"
  by (simp add: dm_inv_def)

lemma dm_did_world: "world_ok w \<Longrightarrow> dm_did lo hi fl ds M \<Longrightarrow> dm_did lo hi fl ds (M\<lparr>dm_world := w\<rparr>)"
  unfolding dm_did_def dm_ids_world by (blast intro: dm_inv_world)

lemma dm_did_alloc:
  "dm_did lo hi fl ds M \<Longrightarrow> dm_did lo hi fl ds (M\<lparr>dm_world := (dm_world M)\<lparr>nallocs := k\<rparr>\<rparr>)"
  unfolding dm_did_def dm_ids_world by (blast intro: dm_inv_alloc)

lemma dm_inv_worldD: "dm_inv M hss \<Longrightarrow> world_ok (dm_world M)"
  by (simp add: dm_inv_def)

interpretation dm_thread: reader_thread b Data_Reader "nat INT_MAX" dm_world "\<lambda>w M. M\<lparr>dm_world := w\<rparr>"
  "\<lambda>M. D \<noteq> S \<and> dm_before fl nn ne M" "\<lambda>ds M. D \<noteq> S \<and> dm_did lo hi fl ds M" dm_ended
  "datamgr_begin (Some fl) (Some b)" "datamgr_remove D S D (Some b)" "process_data lo hi" "datamgr_end True"
  for b D S fl nn ne lo hi
proof (unfold_locales, goal_cases)
  case 1
  then show ?case by simp
next
  case 2
  then show ?case by (auto simp: dm_before_def dm_fresh_def)
next
  case (3 w ds M)
  then show ?case by (simp add: dm_did_world)
next
  case 4
  then show ?case by (simp add: dm_ended_def)
next
  case (5 M)
  then obtain w where w: "M = dm_fresh nn ne w" "world_ok w" by (auto simp: dm_before_def dm_fresh_def)
  have room: "length (map_entries fl (-1) (-1)) < ne" "length (map_entries fl (-1) (-1)) \<le> nn"
    using 5 by (simp_all add: dm_before_def)
  obtain M' where M': "datamgr_read_map (Some fl) M = Inr M'"
    "dm_inv M' (replicate (length (map_entries fl (-1) (-1))) [])"
    "dm_ids M' = map snd (map_entries fl (-1) (-1))"
    using read_map_rep[OF w(2) room] unfolding w(1) by blast
  then have "dm_did lo hi fl [] M'" by (simp add: dm_did_def histories_def)
  then show ?case using M'(1,2) 5 dm_inv_worldD by (auto simp: datamgr_begin_def check_exit_def)
next
  case (6 ds M B x q)
  let ?M = "M\<lparr>dm_world := (dm_world M)\<lparr>nallocs := Suc (nallocs (dm_world M))\<rparr>\<rparr>"
  obtain B' where B': "sbuffer_remove D S D B (Some b) no_data = Inr (SBUFFER_SUCCESS, x, B')" "sb_inv b B'"
    "sb_pending b Data_Reader B' = q"
    "sb_pending b (other Data_Reader) B' = sb_pending b (other Data_Reader) B"
    using sbq.rem_next[of b B D S Data_Reader x q no_data] 6 by (auto simp: td_of_def SBUFFER_SUCCESS_def)
  have "heap (dm_world M) (nallocs (dm_world M))" using 6(2) by (simp add: world_ok_def)
  then have "datamgr_remove D S D (Some b) M B = Inr (x, ?M, B')"
    using B'(1) by (simp add: datamgr_remove_def heap_alloc_def check_exit_def SBUFFER_FAILURE_def SBUFFER_SUCCESS_def)
  then show ?case using B' 6 by (simp add: dm_did_alloc)
next
  case (7 ds M B)
  let ?M = "M\<lparr>dm_world := (dm_world M)\<lparr>nallocs := Suc (nallocs (dm_world M))\<rparr>\<rparr>"
  have rm: "sbuffer_remove D S D B (Some b) no_data = Inr (SBUFFER_NO_DATA, no_data, B)"
    using sbuffer_remove_empty[OF 7(3) _ 7(4)] 7(1) by (simp add: td_of_def)
  have "heap (dm_world M) (nallocs (dm_world M))" using 7(2) by (simp add: world_ok_def)
  then have "datamgr_remove D S D (Some b) M B = Inr (no_data, ?M, B)"
    using rm by (simp add: datamgr_remove_def heap_alloc_def check_exit_def SBUFFER_FAILURE_def SBUFFER_NO_DATA_def)
  then show ?case using 7 by (simp add: dm_did_alloc)
next
  case (8 ds M d)
  let ?h = "histories lo hi (dm_ids M)"
  have inv: "dm_inv M (?h ds)" using 8(1) by (metis dm_did_def)
  have "\<forall>hs \<in> set (?h ds). int (length hs) < INT_MAX"
    using histories_bound[of lo hi "dm_ids M" ds] 8(3) by (fastforce simp: zless_nat_conj)
  from process_data_refines[OF inv this, of lo hi d]
  obtain M' where M': "process_data lo hi M d = Inr M'" "dm_ids M' = dm_ids M"
    "dm_inv M' (fst (spec_step lo hi (dm_ids M) d (?h ds)))" by blast
  then have "dm_inv M' (?h (ds @ [d]))" by (simp add: histories_def spec_run_snoc)
  then show ?case using M'(1,2) 8(1) dm_inv_worldD by (auto simp: dm_did_def)
next
  case (9 ds M)
  then show ?case by (simp add: process_data_def no_data_def)
next
  case (10 ds M)
  then show ?case using datamgr_free_rep[of M "histories lo hi (map snd (map_entries fl (-1) (-1))) ds"]
    by (auto simp: dm_did_def dm_ended_def datamgr_end_def check_exit_def)
qed

section \<open>The storage manager's thread\<close>

definition st_before :: "('db, 'c) sqlite \<Rightarrow> 'db st_state \<Rightarrow> 'db st_state \<Rightarrow> bool" where
  "st_before Q s0 s \<longleftrightarrow> (\<forall>db. fst (sqlite3_close Q db)) \<and> (\<exists>w. s = s0\<lparr>st_world := w\<rparr>)"

text \<open>The database is what the INSERT statements of \<open>ds\<close> make of the one that connecting has given.\<close>

definition st_did :: "('db, 'c) sqlite \<Rightarrow> 'c \<Rightarrow> 'db st_state \<Rightarrow> sensor_data_t list \<Rightarrow> 'db st_state \<Rightarrow> bool" where
  "st_did Q c s0 ds s \<longleftrightarrow> (\<forall>db. fst (sqlite3_close Q db))
     \<and> (\<exists>w s1. storagemgr_connect Q c (s0\<lparr>st_world := w\<rparr>) = Inr (True, s1)
          \<and> (st_db s, sql_live s) = foldl (store_step Q c) (st_db s1, sql_live s1) ds)"

definition st_ended :: "('db, 'c) sqlite \<Rightarrow> 'c \<Rightarrow> 'db st_state \<Rightarrow> sensor_data_t list \<Rightarrow> 'db st_state \<Rightarrow> bool" where
  "st_ended Q c s0 ds s \<longleftrightarrow> (\<exists>s1. st_did Q c s0 ds s1 \<and> st_db s = snd (sqlite3_close Q (st_db s1)))
     \<or> ds = [] \<and> (\<exists>w s1. storagemgr_connect Q c (s0\<lparr>st_world := w\<rparr>) = Inr (False, s1) \<and> st_db s = st_db s1)"

lemma disconnect_ok:
  assumes "fst (sqlite3_close Q (st_db s))" "world_ok (st_world s)"
  shows "\<exists>s'. disconnect Q s = Inr s' \<and> st_db s' = snd (sqlite3_close Q (st_db s)) \<and> world_ok (st_world s')"
proof -
  obtain db where db: "sqlite3_close Q (st_db s) = (True, db)" using assms(1) by (cases "sqlite3_close Q (st_db s)") auto
  then show ?thesis using st_log_ok[of "s\<lparr>st_db := db\<rparr>" msg_sql_lost] assms(2) by (auto simp: disconnect_def)
qed

lemma st_did_world: "st_did Q c s0 ds (s\<lparr>st_world := w\<rparr>) = st_did Q c s0 ds s"
  by (simp add: st_did_def)

lemma st_did_snoc: "st_did Q c s0 ds s \<Longrightarrow> st_did Q c s0 (ds @ [d]) (store_data Q c s d)"
proof -
  assume "st_did Q c s0 ds s"
  then obtain w s1 where s1: "\<forall>db. fst (sqlite3_close Q db)"
    "storagemgr_connect Q c (s0\<lparr>st_world := w\<rparr>) = Inr (True, s1)"
    "(st_db s, sql_live s) = foldl (store_step Q c) (st_db s1, sql_live s1) ds"
    by (auto simp: st_did_def)
  have "(st_db (store_data Q c s d), sql_live (store_data Q c s d))
      = foldl (store_step Q c) (st_db s1, sql_live s1) (ds @ [d])"
    by (simp add: store_data_step flip: s1(3))
  then show "st_did Q c s0 (ds @ [d]) (store_data Q c s d)" using s1(1,2) unfolding st_did_def by blast
qed

interpretation st_thread: reader_thread b Storage_Reader lim st_world "\<lambda>w s. s\<lparr>st_world := w\<rparr>"
  "\<lambda>s. D \<noteq> S \<and> st_before Q s0 s" "\<lambda>ds s. D \<noteq> S \<and> st_did Q c s0 ds s" "st_ended Q c s0"
  "storagemgr_begin Q c (Some b)" "storagemgr_remove D S S (Some b)" "\<lambda>s d. Inr (store_data Q c s d)" "disconnect Q"
  for b lim D S Q c s0
proof (unfold_locales, goal_cases)
  case (5 s)
  then obtain w where w: "s = s0\<lparr>st_world := w\<rparr>" "\<forall>db. fst (sqlite3_close Q db)" by (auto simp: st_before_def)
  obtain ok s' where s': "storagemgr_connect Q c s = Inr (ok, s')" "world_ok (st_world s')"
    using storagemgr_connect_ok[OF 5(2), of Q c] by blast
  then have "st_did Q c s0 [] s'" if ok using that w by (auto simp: st_did_def)
  moreover have "st_ended Q c s0 [] s'" if "\<not> ok" using that s' w by (auto simp: st_ended_def)
  ultimately show ?case using s' 5(1)
    by (cases ok) (auto simp: storagemgr_begin_def check_exit_def)
next
  case (6 ds s B x q)
  obtain B' where B': "sbuffer_remove D S S B (Some b) no_data = Inr (SBUFFER_SUCCESS, x, B')" "sb_inv b B'"
    "sb_pending b Storage_Reader B' = q"
    "sb_pending b (other Storage_Reader) B' = sb_pending b (other Storage_Reader) B"
    using sbq.rem_next[of b B D S Storage_Reader x q no_data] 6 by (auto simp: td_of_def SBUFFER_SUCCESS_def)
  have "heap (st_world s) (nallocs (st_world s))" using 6(2) by (simp add: world_ok_def)
  then have "storagemgr_remove D S S (Some b) s B
      = Inr (x, s\<lparr>st_world := (st_world s)\<lparr>nallocs := Suc (nallocs (st_world s))\<rparr>\<rparr>, B')"
    using B'(1) by (simp add: storagemgr_remove_def heap_alloc_def check_exit_def SBUFFER_FAILURE_def SBUFFER_SUCCESS_def)
  then show ?case using B' 6 by (simp add: st_did_world)
next
  case (7 ds s B)
  have rm: "sbuffer_remove D S S B (Some b) no_data = Inr (SBUFFER_NO_DATA, no_data, B)"
    using sbuffer_remove_empty[OF 7(3) _ 7(4)] 7(1) by (simp add: td_of_def)
  have "heap (st_world s) (nallocs (st_world s))" using 7(2) by (simp add: world_ok_def)
  then have "storagemgr_remove D S S (Some b) s B
      = Inr (no_data, s\<lparr>st_world := (st_world s)\<lparr>nallocs := Suc (nallocs (st_world s))\<rparr>\<rparr>, B)"
    using rm by (simp add: storagemgr_remove_def heap_alloc_def check_exit_def SBUFFER_FAILURE_def SBUFFER_NO_DATA_def)
  then show ?case using 7 by (simp add: st_did_world)
next
  case (8 ds s d)
  then show ?case using st_did_snoc[of Q c s0 ds s d] by (simp add: store_data_step)
next
  case (9 ds s)
  then show ?case by (simp add: store_data_def)
next
  case (10 ds s)
  then have "fst (sqlite3_close Q (st_db s))" by (simp add: st_did_def)
  from disconnect_ok[OF this 10(2)] show ?case using 10(1) by (auto simp: st_ended_def)
qed (auto simp: st_before_def st_did_world st_ended_def)

section \<open>Readers and their ids\<close>

text \<open>A reader whose id is stored removes as before; which value the other variable has makes no difference.\<close>

lemma remove_stored: "sbuffer_remove D T D B b x = sbuffer_remove D S D B b x"
  unfolding sbuffer_remove_def simp_thms(6) if_True ..

lemma remove_unknown:
  assumes "sb_inv b B" "self \<noteq> D" "self \<noteq> S"
  shows "sbuffer_remove D S self B (Some b) x
    = Inr (if sb_entries B b = [] then SBUFFER_NO_DATA else SBUFFER_FAILURE, x, B)"
proof -
  obtain ns where ns: "sb_rep B b ns" "sb_entries B b = map snd ns" by (rule sb_invE[OF assms(1)])
  then show ?thesis using assms(2,3) by (cases ns) (auto simp: sbuffer_remove_def sb_rep_def mem_simps)
qed

lemma remove_nothing: "sb_inv b B \<Longrightarrow> sb_entries B b = [] \<Longrightarrow> sbuffer_remove D S self B (Some b) x = Inr (SBUFFER_NO_DATA, x, B)"
  by (erule sb_invE) (auto simp: sbuffer_remove_def sb_rep_def mem_simps)

lemma dm_stored:
  assumes "D' = D \<or> ph \<noteq> Taking \<or> sb_inv b B \<and> sb_entries B b = []"
  shows "datamgr_function D' S' D lo hi fp cl (Some b) run ph m B = datamgr_function D S D lo hi fp cl (Some b) run ph m B"
  using assms
  by (cases ph) (auto simp: datamgr_function_def reader_step_def datamgr_remove_def remove_nothing remove_stored[of D S' B _ _ S])

lemma st_stored:
  assumes "D \<noteq> S" "S' = S \<or> ph \<noteq> Taking \<or> sb_inv b B \<and> sb_entries B b = []"
  shows "storagemgr_steps D S' S Q c (Some b) run ph m B = storagemgr_steps D S S Q c (Some b) run ph m B"
  using assms
  by (cases ph) (auto simp: storagemgr_steps_def reader_step_def storagemgr_remove_def remove_nothing)

text \<open>One whose id is not stored exits when there is data.\<close>

lemma dm_exits:
  assumes "world_ok (dm_world m)" "sb_inv b B" "self \<noteq> D" "self \<noteq> S" "sb_entries B b \<noteq> []"
  shows "datamgr_function D S self lo hi fp cl (Some b) run Taking m B = Inl Exit_Failure"
  using assms by (simp add: datamgr_function_def reader_step_def datamgr_remove_def heap_alloc_def world_ok_def
    remove_unknown check_exit_def)

lemma st_exits:
  assumes "world_ok (st_world s)" "sb_inv b B" "self \<noteq> D" "self \<noteq> S" "sb_entries B b \<noteq> []"
  shows "storagemgr_steps D S self Q c (Some b) run Taking s B = Inl Exit_Failure"
  using assms by (simp add: storagemgr_steps_def reader_step_def storagemgr_remove_def heap_alloc_def world_ok_def
    remove_unknown check_exit_def)

section \<open>The invariant of the process\<close>

text \<open>What a run of the program is given; \<open>params\<close> collects it.\<close>

record ('db, 'c) params =
  p_D :: pthread_t
  p_S :: pthread_t
  p_lo :: sensor_value_t
  p_hi :: sensor_value_t
  p_map :: string
  p_sqlite :: "('db, 'c) sqlite"
  p_cb :: 'c
  p_st :: "'db st_state"
  p_nodes :: nat
  p_elems :: nat
  p_buf :: addr
  p_calls :: main_calls
  p_argv :: "string list"

abbreviation step :: "('db, 'c) params \<Rightarrow> 'db gateway \<Rightarrow> 'db gateway \<Rightarrow> bool" where
  "step p \<equiv> gw_step (p_D p) (p_S p) (p_lo p) (p_hi p) (Some (p_map p)) (p_calls p) (p_sqlite p) (p_cb p) (p_buf p)"

abbreviation dm_ok :: "('db, 'c) params \<Rightarrow> sensor_data_t list \<Rightarrow> phase \<Rightarrow> dm_state \<Rightarrow> bool" where
  "dm_ok p \<equiv> thread_ok (\<lambda>M. p_D p \<noteq> p_S p \<and> dm_before (p_map p) (p_nodes p) (p_elems p) M)
     (\<lambda>ds M. p_D p \<noteq> p_S p \<and> dm_did (p_lo p) (p_hi p) (p_map p) ds M) dm_ended"

abbreviation st_ok :: "('db, 'c) params \<Rightarrow> sensor_data_t list \<Rightarrow> phase \<Rightarrow> 'db st_state \<Rightarrow> bool" where
  "st_ok p \<equiv> thread_ok (\<lambda>s. p_D p \<noteq> p_S p \<and> st_before (p_sqlite p) (p_st p) s)
     (\<lambda>ds s. p_D p \<noteq> p_S p \<and> st_did (p_sqlite p) (p_cb p) (p_st p) ds s) (st_ended (p_sqlite p) (p_cb p) (p_st p))"

text \<open>All calls of \<open>main\<close> succeed.\<close>

definition main_calls_ok :: "main_calls \<Rightarrow> bool" where
  "main_calls_ok c \<longleftrightarrow> mc_sigaction c \<and> mc_attr_init c \<and> mc_attr_setdetachstate c \<and> mc_mutex_buf_init c
     \<and> mc_mutex_fifo_init c \<and> mc_create_connmgr c \<and> mc_create_datamgr c \<and> mc_create_storagemgr c
     \<and> mc_join_connmgr c \<and> mc_join_datamgr c \<and> mc_join_storagemgr c \<and> mc_attr_destroy c \<and> mc_mutex_destroy c
     \<and> mc_fclose_map c"

fun taken :: "reader \<Rightarrow> 'db gateway \<Rightarrow> sensor_data_t list" where
  "taken Data_Reader g = dm_taken g"
| "taken Storage_Reader g = st_taken g"

lemma taken_upd [simp]:
  "taken r (g\<lparr>g_main := a\<rparr>) = taken r g" "taken r (g\<lparr>g_buf := B\<rparr>) = taken r g"
  "taken r (g\<lparr>g_world := w\<rparr>) = taken r g" "taken r (g\<lparr>connmgr_running := q\<rparr>) = taken r g"
  "taken r (g\<lparr>run_datamgr := q\<rparr>) = taken r g" "taken r (g\<lparr>run_storagemgr := q\<rparr>) = taken r g"
  "taken r (g\<lparr>dm_at := ph\<rparr>) = taken r g" "taken r (g\<lparr>st_at := ph\<rparr>) = taken r g"
  "taken r (g\<lparr>g_accepted := ds\<rparr>) = taken r g" "taken r (g\<lparr>datamgr_td := i\<rparr>) = taken r g"
  "taken r (g\<lparr>storagemgr_td := i\<rparr>) = taken r g"
  by (cases r; simp)+

text \<open>Where the threads are while \<open>main\<close> is where it is.\<close>

definition stopping :: "main_at set" where
  "stopping = {Stopping_Datamgr, Stopping_Storagemgr, Joining_Datamgr, Joining_Storagemgr, Freeing, Exited}"

definition phases_ok :: "'db gateway \<Rightarrow> bool" where
  "phases_ok g \<longleftrightarrow> (g_main g \<in> stopping \<longrightarrow> \<not> connmgr_running g)
     \<and> (dm_at g = Unborn \<longleftrightarrow> g_main g \<in> {Setting_Flags, Creating_Datamgr})
     \<and> (st_at g = Unborn \<longleftrightarrow> g_main g \<in> {Setting_Flags, Creating_Datamgr, Storing_Datamgr, Creating_Storagemgr})
     \<and> (run_datamgr g \<longleftrightarrow> g_main g \<in> {Creating_Datamgr, Storing_Datamgr, Creating_Storagemgr, Storing_Storagemgr,
          Joining_Connmgr, Stopping_Datamgr})
     \<and> (run_storagemgr g \<longleftrightarrow> g_main g \<in> {Creating_Datamgr, Storing_Datamgr, Creating_Storagemgr, Storing_Storagemgr,
          Joining_Connmgr, Stopping_Datamgr, Stopping_Storagemgr})
     \<and> (g_main g \<in> {Joining_Storagemgr, Freeing, Exited} \<longrightarrow> dm_at g = Finished)
     \<and> (g_main g \<in> {Freeing, Exited} \<longrightarrow> st_at g = Finished)"

text \<open>
  While the buffer exists, what each reader has been given, followed by what it still has to read, is what
  was inserted; at the end nothing of the buffer is left.
\<close>

definition buffer_ok :: "addr \<Rightarrow> 'db gateway \<Rightarrow> bool" where
  "buffer_ok b g \<longleftrightarrow> (if g_main g = Exited then dom (cells (snodes (g_buf g))) = {}
     else sb_inv b (g_buf g) \<and> (\<forall>r. g_accepted g = taken r g @ sb_pending b r (g_buf g)))
     \<and> (\<forall>r. \<exists>rest. g_accepted g = taken r g @ rest)"

text \<open>A thread variable has its thread's id from when \<open>pthread_create\<close> has stored it.\<close>

definition ids_ok :: "('db, 'c) params \<Rightarrow> 'db gateway \<Rightarrow> bool" where
  "ids_ok p g \<longleftrightarrow> datamgr_td g = (if g_main g \<in> {Setting_Flags, Creating_Datamgr, Storing_Datamgr} then 0 else p_D p)
     \<and> storagemgr_td g = (if g_main g \<in> {Setting_Flags, Creating_Datamgr, Storing_Datamgr, Creating_Storagemgr,
          Storing_Storagemgr} then 0 else p_S p)
     \<and> p_D p \<noteq> p_S p"

lemma ids_ok_upd [simp]:
  "ids_ok p (g\<lparr>g_buf := B\<rparr>) = ids_ok p g" "ids_ok p (g\<lparr>g_accepted := ds\<rparr>) = ids_ok p g"
  "ids_ok p (g\<lparr>g_world := w\<rparr>) = ids_ok p g" "ids_ok p (g\<lparr>connmgr_running := q\<rparr>) = ids_ok p g"
  by (simp_all add: ids_ok_def)

text \<open>A reader comes to a buffer with data in it before its id is stored: \<open>sbuffer_remove\<close> does not know it.\<close>

definition dm_unknown :: "('db, 'c) params \<Rightarrow> 'db gateway \<Rightarrow> bool" where
  "dm_unknown p g \<longleftrightarrow> dm_at g = Taking \<and> datamgr_td g \<noteq> p_D p \<and> sb_entries (g_buf g) (p_buf p) \<noteq> []"

definition st_unknown :: "('db, 'c) params \<Rightarrow> 'db gateway \<Rightarrow> bool" where
  "st_unknown p g \<longleftrightarrow> st_at g = Taking \<and> storagemgr_td g \<noteq> p_S p \<and> sb_entries (g_buf g) (p_buf p) \<noteq> []"

definition gw_inv :: "('db, 'c) params \<Rightarrow> 'db gateway \<Rightarrow> bool" where
  "gw_inv p g \<longleftrightarrow> main_calls_ok (p_calls p) \<and> world_ok (g_world g) \<and> dm_ok p (dm_taken g) (dm_at g) (dm_part g)
     \<and> st_ok p (st_taken g) (st_at g) (st_part g) \<and> phases_ok g \<and> buffer_ok (p_buf p) g
     \<and> ids_ok p g"

lemma gw_inv_phases: "gw_inv p g \<Longrightarrow> phases_ok g"
  by (simp add: gw_inv_def)

lemma gw_inv_calls: "gw_inv p g \<Longrightarrow> main_calls_ok (p_calls p)"
  by (simp add: gw_inv_def)

lemma calls_fclose: "main_calls_ok c \<Longrightarrow> mc_fclose_map c"
  by (simp add: main_calls_ok_def)

section \<open>Every step keeps the invariant\<close>

lemma reader_step_born: "reader_step st tk pr fi bf run ph m B = Inr (ph', m', B') \<Longrightarrow> ph \<noteq> Unborn \<Longrightarrow> ph' \<noteq> Unborn"
  by (cases ph) (auto simp: reader_step_def bindR_Inr_iff split: if_splits)

lemma taken_le: "gw_inv p g \<Longrightarrow> length (taken r g) \<le> length (g_accepted g)"
  by (metis buffer_ok_def gw_inv_def le_add1 length_append)

text \<open>A running reader does its step, which cannot fault.\<close>

lemma gw_datamgr:
  assumes inv: "gw_inv p g" and at: "dm_at g \<noteq> Unborn" "dm_at g \<noteq> Finished"
    and known: "\<not> dm_unknown p g" and len: "length (g_accepted g) \<le> nat INT_MAX"
  shows "\<exists>ph M B. datamgr_function (datamgr_td g) (storagemgr_td g) (p_D p) (p_lo p) (p_hi p) (Some (p_map p)) (mc_fclose_map (p_calls p)) (Some (p_buf p)) (run_datamgr g)
      (dm_at g) ((dm_part g)\<lparr>dm_world := g_world g\<rparr>) (g_buf g) = Inr (ph, M, B)
    \<and> gw_inv p (g\<lparr>dm_at := ph, dm_part := M, g_world := dm_world M, g_buf := B,
        dm_taken := dm_taken g @ given (p_buf p) Data_Reader (dm_at g) (g_buf g)\<rparr>)"
proof -
  have main: "g_main g \<notin> {Setting_Flags, Creating_Datamgr, Joining_Storagemgr, Freeing, Exited}"
    using inv at by (auto simp: gw_inv_def phases_ok_def)
  have buf: "sb_inv (p_buf p) (g_buf g)" "\<And>r. g_accepted g = taken r g @ sb_pending (p_buf p) r (g_buf g)"
    using inv main by (auto simp: gw_inv_def buffer_ok_def)
  have le: "length (dm_taken g) \<le> nat INT_MAX" using taken_le[OF inv, of Data_Reader] len by simp
  have w: "world_ok (g_world g)" using inv by (simp add: gw_inv_def)
  have th: "dm_ok p (dm_taken g) (dm_at g) ((dm_part g)\<lparr>dm_world := g_world g\<rparr>)"
    using dm_thread.ok_world[OF _ w] inv by (simp add: gw_inv_def)
  have stored: "datamgr_function (datamgr_td g) (storagemgr_td g) (p_D p) lo hi fp cl (Some (p_buf p)) run (dm_at g) m (g_buf g)
      = datamgr_function (p_D p) (p_S p) (p_D p) lo hi fp cl (Some (p_buf p)) run (dm_at g) m (g_buf g)" for lo hi fp cl run m
    using known buf(1) by (intro dm_stored) (auto simp: dm_unknown_def)
  obtain ph M B where st: "datamgr_function (p_D p) (p_S p) (p_D p) (p_lo p) (p_hi p) (Some (p_map p)) (mc_fclose_map (p_calls p)) (Some (p_buf p))
      (run_datamgr g) (dm_at g) ((dm_part g)\<lparr>dm_world := g_world g\<rparr>) (g_buf g) = Inr (ph, M, B)"
    "dm_ok p (dm_taken g @ given (p_buf p) Data_Reader (dm_at g) (g_buf g)) ph M" "world_ok (dm_world M)"
    "sb_inv (p_buf p) B"
    "sb_pending (p_buf p) Data_Reader (g_buf g)
      = given (p_buf p) Data_Reader (dm_at g) (g_buf g) @ sb_pending (p_buf p) Data_Reader B"
    "sb_pending (p_buf p) Storage_Reader B = sb_pending (p_buf p) Storage_Reader (g_buf g)"
    using dm_thread.step_ok[OF th _ buf(1) le, of "run_datamgr g"] w calls_fclose[OF gw_inv_calls[OF inv]]
    by (auto simp: datamgr_function_def)
  have ph: "ph \<noteq> Unborn" using reader_step_born[OF st(1)[unfolded datamgr_function_def] at(1)] .
  let ?g = "g\<lparr>dm_at := ph, dm_part := M, g_world := dm_world M, g_buf := B,
        dm_taken := dm_taken g @ given (p_buf p) Data_Reader (dm_at g) (g_buf g)\<rparr>"
  have all: "g_accepted ?g = taken r ?g @ sb_pending (p_buf p) r (g_buf ?g)" for r
    using buf(2)[of r] st(5,6) by (cases r) simp_all
  have "phases_ok ?g" using inv main at ph by (auto simp: gw_inv_def phases_ok_def)
  moreover have "buffer_ok (p_buf p) ?g" using all st(4) main by (auto simp: buffer_ok_def)
  moreover have "ids_ok p ?g" using inv by (simp add: gw_inv_def ids_ok_def)
  ultimately show ?thesis using st(1-3) inv by (auto simp: gw_inv_def stored)
qed

lemma gw_storagemgr:
  assumes inv: "gw_inv p g" and at: "st_at g \<noteq> Unborn" "st_at g \<noteq> Finished"
    and known: "\<not> st_unknown p g" and len: "length (g_accepted g) \<le> nat INT_MAX"
  shows "\<exists>ph s B. storagemgr_steps (datamgr_td g) (storagemgr_td g) (p_S p) (p_sqlite p) (p_cb p) (Some (p_buf p)) (run_storagemgr g)
      (st_at g) ((st_part g)\<lparr>st_world := g_world g\<rparr>) (g_buf g) = Inr (ph, s, B)
    \<and> gw_inv p (g\<lparr>st_at := ph, st_part := s, g_world := st_world s, g_buf := B,
        st_taken := st_taken g @ given (p_buf p) Storage_Reader (st_at g) (g_buf g)\<rparr>)"
proof -
  have main: "g_main g \<notin> {Setting_Flags, Creating_Datamgr, Storing_Datamgr, Creating_Storagemgr, Freeing, Exited}"
    using inv at by (auto simp: gw_inv_def phases_ok_def)
  then have D: "datamgr_td g = p_D p" "p_D p \<noteq> p_S p" using inv by (simp_all add: gw_inv_def ids_ok_def)
  have buf: "sb_inv (p_buf p) (g_buf g)" "\<And>r. g_accepted g = taken r g @ sb_pending (p_buf p) r (g_buf g)"
    using inv main by (auto simp: gw_inv_def buffer_ok_def)
  have le: "length (st_taken g) \<le> nat INT_MAX" using taken_le[OF inv, of Storage_Reader] len by simp
  have w: "world_ok (g_world g)" using inv by (simp add: gw_inv_def)
  have th: "st_ok p (st_taken g) (st_at g) ((st_part g)\<lparr>st_world := g_world g\<rparr>)"
    by (rule st_thread.ok_world[OF _ w]) (use inv in \<open>simp add: gw_inv_def\<close>)
  have stored: "storagemgr_steps (datamgr_td g) (storagemgr_td g) (p_S p) Q c (Some (p_buf p)) run (st_at g) m (g_buf g)
      = storagemgr_steps (p_D p) (p_S p) (p_S p) Q c (Some (p_buf p)) run (st_at g) m (g_buf g)" for Q c run and m :: "'a st_state"
    unfolding D(1) using known buf(1) by (intro st_stored D(2)) (auto simp: st_unknown_def)
  obtain ph s B where st: "storagemgr_steps (p_D p) (p_S p) (p_S p) (p_sqlite p) (p_cb p) (Some (p_buf p))
      (run_storagemgr g) (st_at g) ((st_part g)\<lparr>st_world := g_world g\<rparr>) (g_buf g) = Inr (ph, s, B)"
    "st_ok p (st_taken g @ given (p_buf p) Storage_Reader (st_at g) (g_buf g)) ph s" "world_ok (st_world s)"
    "sb_inv (p_buf p) B"
    "sb_pending (p_buf p) Storage_Reader (g_buf g)
      = given (p_buf p) Storage_Reader (st_at g) (g_buf g) @ sb_pending (p_buf p) Storage_Reader B"
    "sb_pending (p_buf p) Data_Reader B = sb_pending (p_buf p) Data_Reader (g_buf g)"
    using st_thread.step_ok[OF th _ buf(1) le, of "run_storagemgr g"] w by (auto simp: storagemgr_steps_def)
  have ph: "ph \<noteq> Unborn" using reader_step_born[OF st(1)[unfolded storagemgr_steps_def] at(1)] .
  let ?g = "g\<lparr>st_at := ph, st_part := s, g_world := st_world s, g_buf := B,
        st_taken := st_taken g @ given (p_buf p) Storage_Reader (st_at g) (g_buf g)\<rparr>"
  have all: "g_accepted ?g = taken r ?g @ sb_pending (p_buf p) r (g_buf ?g)" for r
    using buf(2)[of r] st(5,6) by (cases r) simp_all
  have "phases_ok ?g" using inv main at ph by (auto simp: gw_inv_def phases_ok_def)
  moreover have "buffer_ok (p_buf p) ?g" using all st(4) main by (auto simp: buffer_ok_def)
  moreover have "ids_ok p ?g" using inv by (simp add: gw_inv_def ids_ok_def)
  ultimately show ?thesis using st(1-3) inv by (auto simp: gw_inv_def stored)
qed

text \<open>One that \<open>sbuffer_remove\<close> does not know exits.\<close>

lemma dm_unknown_exits:
  assumes inv: "gw_inv p g" and un: "dm_unknown p g"
  shows "datamgr_function (datamgr_td g) (storagemgr_td g) (p_D p) lo hi fp cl (Some (p_buf p)) run
      (dm_at g) ((dm_part g)\<lparr>dm_world := g_world g\<rparr>) (g_buf g) = Inl Exit_Failure"
proof -
  have at: "dm_at g = Taking" "sb_entries (g_buf g) (p_buf p) \<noteq> []" "datamgr_td g \<noteq> p_D p"
    using un by (simp_all add: dm_unknown_def)
  have "g_main g \<noteq> Exited" using gw_inv_phases[OF inv] at(1) by (auto simp: phases_ok_def)
  then have buf: "sb_inv (p_buf p) (g_buf g)" using inv by (simp add: gw_inv_def buffer_ok_def)
  have "ids_ok p g" and w: "world_ok (g_world g)" using inv by (simp_all add: gw_inv_def)
  then have "p_D p \<noteq> datamgr_td g" "p_D p \<noteq> storagemgr_td g" using at(3) by (auto simp: ids_ok_def split: if_splits)
  then show ?thesis unfolding at(1) using w buf at(2) by (intro dm_exits) simp_all
qed

lemma st_unknown_exits:
  assumes inv: "gw_inv p g" and un: "st_unknown p g"
  shows "storagemgr_steps (datamgr_td g) (storagemgr_td g) (p_S p) Q c (Some (p_buf p)) run
      (st_at g) ((st_part g)\<lparr>st_world := g_world g\<rparr>) (g_buf g) = Inl Exit_Failure"
proof -
  have at: "st_at g = Taking" "sb_entries (g_buf g) (p_buf p) \<noteq> []" "storagemgr_td g \<noteq> p_S p"
    using un by (simp_all add: st_unknown_def)
  have m: "g_main g \<notin> {Exited, Setting_Flags, Creating_Datamgr, Storing_Datamgr, Creating_Storagemgr}"
    using gw_inv_phases[OF inv] at(1) by (auto simp: phases_ok_def)
  then have buf: "sb_inv (p_buf p) (g_buf g)" using inv by (simp add: gw_inv_def buffer_ok_def)
  have "ids_ok p g" and w: "world_ok (g_world g)" using inv by (simp_all add: gw_inv_def)
  then have "p_S p \<noteq> datamgr_td g" "p_S p \<noteq> storagemgr_td g" using at(3) m by (auto simp: ids_ok_def split: if_splits)
  then show ?thesis unfolding at(1) using w buf at(2) by (intro st_exits) simp_all
qed

text \<open>\<open>main\<close> waits, has ended, or does its next step.\<close>

lemma print_ok: "sb_inv b B \<Longrightarrow> \<exists>x. sbuffer_print_data B (Some b) = Inr x"
proof -
  assume "sb_inv b B"
  then obtain ns where ns: "sb_rep B b ns" by (rule sb_invE)
  then show ?thesis
    using print_loop_sseg[of "snodes B" ns "fuel (snodes B)" 0] sb_rep_length[OF ns(1)]
    by (simp add: sbuffer_print_data_def sb_rep_def mem_simps)
qed

lemma gw_main:
  assumes inv: "gw_inv p g"
  shows "\<exists>r. main_step (p_calls p) (p_D p) (p_S p) (Some (p_buf p)) g = Inr r \<and> (\<forall>g'. r = Some g' \<longrightarrow> gw_inv p g')"
proof (cases "g_main g = Freeing")
  case True
  have buf: "sb_inv (p_buf p) (g_buf g)" using inv True by (simp add: gw_inv_def buffer_ok_def)
  obtain ns where ns: "sb_rep (g_buf g) (p_buf p) ns" using buf by (rule sb_invE)
  obtain B where B: "sbuffer_free (g_buf g) (Some (Some (p_buf p))) = Inr (SBUFFER_SUCCESS, Some NULL, B)"
    "dom (cells (snodes B)) = {}"
    by (rule sbuffer_free_rep[OF ns])
  then show ?thesis using inv True print_ok[OF buf] gw_inv_calls[OF inv]
    by (auto simp: main_step_def main_calls_ok_def check_exit_def gw_inv_def phases_ok_def buffer_ok_def stopping_def ids_ok_def)
next
  case False
  have before: "dm_ok p ds Unborn M \<Longrightarrow> dm_ok p ds Starting M" "st_ok p ds Unborn s \<Longrightarrow> st_ok p ds Starting s" for ds M s
    by simp_all
  show ?thesis
    by (cases "g_main g")
      (use inv False before gw_inv_calls[OF inv] in \<open>auto simp: main_step_def main_calls_ok_def check_exit_def gw_inv_def phases_ok_def buffer_ok_def stopping_def ids_ok_def\<close>)
qed

text \<open>
  So every step of the process keeps the invariant, as long as the counters of the sensors cannot
  overflow.
\<close>

lemma gw_step_inv:
  assumes inv: "gw_inv p g" and st: "step p g g'" and len: "length (g_accepted g) \<le> nat INT_MAX"
  shows "gw_inv p g'"
  using st
proof (cases rule: gw_stepE)
  case (connmgr_insert d B)
  have run: "g_main g \<noteq> Exited" using inv connmgr_insert(2) by (auto simp: gw_inv_def phases_ok_def stopping_def)
  then have buf: "sb_inv (p_buf p) (g_buf g)" "\<And>r. g_accepted g = taken r g @ sb_pending (p_buf p) r (g_buf g)"
    using inv by (simp_all add: gw_inv_def buffer_ok_def)
  have B: "sb_inv (p_buf p) B" "\<And>r. sb_pending (p_buf p) r B = sb_pending (p_buf p) r (g_buf g) @ [d]"
    using sbuffer_insert_inv[OF buf(1) connmgr_insert(3)] by simp_all
  have "g_accepted g @ [d] = taken r g @ sb_pending (p_buf p) r B" for r
    unfolding B(2) append_assoc[symmetric] buf(2)[symmetric] ..
  then have "buffer_ok (p_buf p) g'" using connmgr_insert(1) run B(1) unfolding buffer_ok_def by auto
  then show ?thesis using connmgr_insert(1) inv by (simp add: gw_inv_def phases_ok_def)
next
  case (connmgr_log fmt w)
  have "world_ok w" using log_event_logs[of "g_world g" fmt] logs_ok inv connmgr_log(4) by (fastforce simp: gw_inv_def)
  then show ?thesis using connmgr_log(1) inv by (simp add: gw_inv_def phases_ok_def buffer_ok_def)
next
  case (connmgr_alloc w)
  have "world_ok w" using inv connmgr_alloc(3) by (auto simp: gw_inv_def heap_alloc_def world_ok_def)
  then show ?thesis using connmgr_alloc(1) inv by (simp add: gw_inv_def phases_ok_def buffer_ok_def)
next
  case (connmgr_clock t w)
  have "world_ok w" using inv connmgr_clock(3) by (auto simp: gw_inv_def time_now_def world_ok_def)
  then show ?thesis using connmgr_clock(1) inv by (simp add: gw_inv_def phases_ok_def buffer_ok_def)
next
  case connmgr_return
  then show ?thesis using inv by (simp add: gw_inv_def phases_ok_def buffer_ok_def)
next
  case (datamgr ph M B)
  then have "\<not> dm_unknown p g" using dm_unknown_exits[OF inv] by auto
  then show ?thesis using gw_datamgr[OF inv datamgr(2,3) _ len] datamgr by simp
next
  case (storagemgr ph s B)
  then have "\<not> st_unknown p g" using st_unknown_exits[OF inv, of "p_sqlite p" "p_cb p"] by auto
  then show ?thesis using gw_storagemgr[OF inv storagemgr(2,3) _ len] storagemgr by simp
next
  case main
  then show ?thesis using gw_main[OF inv] by auto
qed

lemma step_accepted: "step p g g' \<Longrightarrow> length (g_accepted g) \<le> length (g_accepted g')"
  by (erule gw_stepE)
    (auto simp: main_step_def bindR_Inr_iff split: main_at.splits if_splits)

lemma steps_accepted: "(step p)\<^sup>*\<^sup>* g g' \<Longrightarrow> length (g_accepted g) \<le> length (g_accepted g')"
  by (induction rule: rtranclp_induct) (use step_accepted le_trans in blast)+

lemma steps_inv:
  assumes "(step p)\<^sup>*\<^sup>* g g'" "gw_inv p g" "length (g_accepted g') \<le> nat INT_MAX"
  shows "gw_inv p g'"
  using assms
proof (induction rule: rtranclp_induct)
  case (step g1 g2)
  have le: "length (g_accepted g1) \<le> nat INT_MAX" using step_accepted[OF step(2)] step.prems(2) by simp
  show ?case by (rule gw_step_inv[OF step.IH[OF step.prems(1) le] step(2) le])
qed simp

text \<open>The invariant holds when \<open>main\<close> has forked and created the buffer and the connection manager's thread.\<close>

definition starts :: "('db, 'c) params \<Rightarrow> nat \<Rightarrow> world \<Rightarrow> 'db gateway \<Rightarrow> bool" where
  "starts p cap w g \<longleftrightarrow> (\<exists>td le. main In_Parent (p_calls p) (p_argv p) le
      \<lparr>sbufs = empty_store 1, snodes = empty_store cap\<rparr> w (dm_fresh (p_nodes p) (p_elems p) w) (p_st p)
      = Inr (Main_Process td g) \<and> cd_buf td = Some (p_buf p))
    \<and> main_calls_ok (p_calls p) \<and> world_ok w \<and> p_D p \<noteq> p_S p \<and> (\<forall>db. fst (sqlite3_close (p_sqlite p) db))
    \<and> length (map_entries (p_map p) (-1) (-1)) < p_elems p \<and> length (map_entries (p_map p) (-1) (-1)) \<le> p_nodes p"

lemma main_parentE:
  assumes "main In_Parent c argv le B w M s = Inr (Main_Process td g)"
  obtains b B' where "argv \<noteq> []" "sbuffer_init B = Inr (SBUFFER_SUCCESS, b, B')" "cd_buf td = b"
    "g = \<lparr>g_main = Setting_Flags, datamgr_td = 0, storagemgr_td = 0, run_datamgr = False, run_storagemgr = False, connmgr_running = True,
       dm_at = Unborn, dm_part = M, st_at = Unborn, st_part = s, g_buf = B', g_world = w,
       g_accepted = [], dm_taken = [], st_taken = []\<rparr>"
  using assms by (auto simp: main_def main_begin_def main_connmgr_data_def check_exit_def bindR_Inr_iff split: if_splits)

lemma starts_inv:
  assumes "starts p cap w g"
  shows "gw_inv p g" "g_accepted g = []" "sb_entries (g_buf g) (p_buf p) = []" "msize (snodes (g_buf g)) = cap"
proof -
  let ?B = "\<lparr>sbufs = empty_store 1, snodes = empty_store cap\<rparr>"
  obtain b B where B: "sbuffer_init ?B = Inr (SBUFFER_SUCCESS, Some b, B)" "sb_rep B b []" "snodes B = snodes ?B"
    by (rule sbuffer_init_rep[of ?B]) simp_all
  obtain td le where td: "main In_Parent (p_calls p) (p_argv p) le ?B w (dm_fresh (p_nodes p) (p_elems p) w) (p_st p)
      = Inr (Main_Process td g)"
    "cd_buf td = Some (p_buf p)" using assms by (auto simp: starts_def)
  have g: "g = \<lparr>g_main = Setting_Flags, datamgr_td = 0, storagemgr_td = 0, run_datamgr = False, run_storagemgr = False, connmgr_running = True,
       dm_at = Unborn, dm_part = dm_fresh (p_nodes p) (p_elems p) w, st_at = Unborn, st_part = p_st p, g_buf = B,
       g_world = w, g_accepted = [], dm_taken = [], st_taken = []\<rparr>" "b = p_buf p"
    using main_parentE[OF td(1)] td(2) B(1) by auto
  have none: "sb_entries B b = []" using sb_rep_entries[OF B(2)] by simp
  have tk: "taken r g = []" for r by (cases r) (simp_all add: g)
  have "st_before (p_sqlite p) (p_st p) (p_st p)"
    using assms by (auto simp: starts_def st_before_def intro: exI[of _ "st_world (p_st p)"])
  moreover have "dm_before (p_map p) (p_nodes p) (p_elems p) (dm_fresh (p_nodes p) (p_elems p) w)"
    using assms by (auto simp: starts_def dm_before_def)
  moreover have "buffer_ok (p_buf p) g" using none tk sb_invI[OF B(2)] g by (simp add: buffer_ok_def)
  ultimately show "gw_inv p g"
    using assms by (simp add: gw_inv_def starts_def g(1) phases_ok_def stopping_def ids_ok_def)
  show "g_accepted g = []" "sb_entries (g_buf g) (p_buf p) = []" "msize (snodes (g_buf g)) = cap"
    using g none B(3) by simp_all
qed

end
