(* ===== verification/Gateway_Props.thy ===== *)
theory Gateway_Props
  imports Gateway_Inv Storage_Props
begin

text \<open>The properties of the whole process: what holds in every interleaving, and how it ends.\<close>

section \<open>Ranks\<close>

text \<open>How many steps a reader can still do once its run flag is cleared, and \<open>main\<close> once it joins the readers.\<close>

fun phase_rank :: "phase \<Rightarrow> nat" where
  "phase_rank Unborn = 7"
| "phase_rank Starting = 6"
| "phase_rank Polling = 5"
| "phase_rank Taking = 4"
| "phase_rank (Processing d) = 3"
| "phase_rank Checking = 2"
| "phase_rank Ending = 1"
| "phase_rank Finished = 0"

lemma phase_rank_le: "ph \<noteq> Unborn \<Longrightarrow> phase_rank ph \<le> 6"
  by (cases ph) simp_all

fun main_rank :: "main_at \<Rightarrow> nat" where
  "main_rank Joining_Datamgr = 3"
| "main_rank Joining_Storagemgr = 2"
| "main_rank Freeing = 1"
| "main_rank Exited = 0"
| "main_rank _ = 4"

definition gw_rank :: "'db gateway \<Rightarrow> nat" where
  "gw_rank g = main_rank (g_main g) + phase_rank (dm_at g) + phase_rank (st_at g)"

definition joining :: "main_at set" where
  "joining = {Joining_Datamgr, Joining_Storagemgr, Freeing, Exited}"

text \<open>Whether a reader may read once more before it looks at its run flag.\<close>

definition may_take :: "phase \<Rightarrow> nat" where
  "may_take ph = (if phase_rank ph < 4 then 0 else 1)"

lemma reader_step_rank:
  "reader_step st tk pr fi bf False ph m B = Inr (ph', m', B') \<Longrightarrow> ph \<noteq> Unborn \<Longrightarrow> ph \<noteq> Finished
   \<Longrightarrow> phase_rank ph' < phase_rank ph \<and> length (given b r ph B) + may_take ph' \<le> may_take ph"
  by (cases ph) (auto simp: reader_step_def bindR_Inr_iff given_def may_take_def split: if_splits)

lemma step_joining:
  assumes inv: "gw_inv p g" and at: "g_main g \<in> joining" and st: "step p g g'"
  shows "gw_rank g' < gw_rank g \<and> g_main g' \<in> joining \<and> g_accepted g' = g_accepted g
    \<and> length (dm_taken g') + may_take (dm_at g') \<le> length (dm_taken g) + may_take (dm_at g)
    \<and> length (st_taken g') + may_take (st_at g') \<le> length (st_taken g) + may_take (st_at g)"
proof -
  have "connmgr_running g = False \<and> run_datamgr g = False \<and> run_storagemgr g = False"
    using gw_inv_phases[OF inv] at by (cases "g_main g") (simp_all add: phases_ok_def stopping_def joining_def)
  then have off: "connmgr_running g = False" "run_datamgr g = False" "run_storagemgr g = False" by blast+
  from st show ?thesis
  proof (cases rule: gw_stepE)
    case (datamgr ph M B)
    note r = datamgr(4)[unfolded datamgr_function_def, unfolded off]
    show ?thesis using reader_step_rank[OF r datamgr(2,3), of "p_buf p" Data_Reader] at
      by (simp add: datamgr(1) gw_rank_def)
  next
    case (storagemgr ph s B)
    note r = storagemgr(4)[unfolded storagemgr_steps_def, unfolded off]
    show ?thesis using reader_step_rank[OF r storagemgr(2,3), of "p_buf p" Storage_Reader] at
      by (simp add: storagemgr(1) gw_rank_def)
  next
    case main
    then show ?thesis using at
      by (auto simp: main_step_def gw_rank_def joining_def bindR_Inr_iff split: main_at.splits if_splits)
  qed (use off in simp_all)
qed

text \<open>Something can always be done until \<open>main\<close> has exited.\<close>

lemma progress:
  assumes inv: "gw_inv p g" and at: "g_main g \<in> joining" "g_main g \<noteq> Exited" and len: "length (g_accepted g) \<le> nat INT_MAX"
  shows "\<exists>g'. step p g g'"
proof -
  have "dm_at g \<noteq> Unborn \<and> st_at g \<noteq> Unborn"
    using gw_inv_phases[OF inv] at by (cases "g_main g") (simp_all add: phases_ok_def joining_def)
  then have born: "dm_at g \<noteq> Unborn" "st_at g \<noteq> Unborn" by blast+
  have "ids_ok p g" using inv by (simp add: gw_inv_def)
  then have known: "\<not> dm_unknown p g" "\<not> st_unknown p g"
    using at by (auto simp: ids_ok_def dm_unknown_def st_unknown_def joining_def)
  obtain x where x: "main_step (p_calls p) (p_D p) (p_S p) (Some (p_buf p)) g = Inr x" using gw_main[OF inv] by blast
  show ?thesis
  proof (cases x)
    case (Some g')
    then have "step p g g'" using x by (intro gw_step.main) simp
    then show ?thesis ..
  next
    case None
    then have "g_main g = Joining_Datamgr \<and> dm_at g \<noteq> Finished \<or> g_main g = Joining_Storagemgr \<and> st_at g \<noteq> Finished"
      using x at by (cases "g_main g") (auto simp: main_step_def joining_def bindR_Inr_iff split: if_splits)
    then show ?thesis
    proof
      assume "g_main g = Joining_Datamgr \<and> dm_at g \<noteq> Finished"
      then have go: "dm_at g \<noteq> Finished" by simp
      then show ?thesis using gw_datamgr[OF inv born(1) go known(1) len] by (blast intro: gw_step.datamgr[OF born(1) go])
    next
      assume "g_main g = Joining_Storagemgr \<and> st_at g \<noteq> Finished"
      then have go: "st_at g \<noteq> Finished" by simp
      then show ?thesis using gw_storagemgr[OF inv born(2) go known(2) len] by (blast intro: gw_step.storagemgr[OF born(2) go])
    qed
  qed
qed

text \<open>All steps from where \<open>main\<close> joins the readers.\<close>

lemma steps_joining:
  assumes "gw_inv p g" "g_main g \<in> joining" "(step p ^^ n) g g'" "length (g_accepted g) \<le> nat INT_MAX"
  shows "gw_inv p g' \<and> n + gw_rank g' \<le> gw_rank g \<and> g_main g' \<in> joining \<and> g_accepted g' = g_accepted g
    \<and> length (dm_taken g') + may_take (dm_at g') \<le> length (dm_taken g) + may_take (dm_at g)
    \<and> length (st_taken g') + may_take (st_at g') \<le> length (st_taken g) + may_take (st_at g)"
  using assms(3)
proof (induction n arbitrary: g')
  case 0
  then show ?case using assms by simp
next
  case (Suc n)
  then obtain g1 where g1: "(step p ^^ n) g g1" "step p g1 g'" by auto
  note IH = Suc.IH[OF g1(1)]
  then have inv: "gw_inv p g1" "g_main g1 \<in> joining" "length (g_accepted g1) \<le> nat INT_MAX" using assms(4) by auto
  show ?case using step_joining[OF inv(1,2) g1(2)] gw_step_inv[OF inv(1) g1(2) inv(3)] IH by auto
qed

lemma runs_to_exit:
  assumes "gw_inv p g" "g_main g \<in> joining" "length (g_accepted g) \<le> nat INT_MAX"
  shows "\<exists>n g'. (step p ^^ n) g g' \<and> g_main g' = Exited"
  using assms
proof (induction "gw_rank g" arbitrary: g rule: less_induct)
  case less
  show ?case
  proof (cases "g_main g = Exited")
    case True
    then show ?thesis by (intro exI[of _ 0] exI[of _ g]) simp
  next
    case False
    then obtain g1 where g1: "step p g g1" using progress less.prems by blast
    note s = step_joining[OF less.prems(1,2) g1]
    have "gw_inv p g1" by (rule gw_step_inv[OF less.prems(1) g1 less.prems(3)])
    then obtain n g' where "(step p ^^ n) g1 g'" "g_main g' = Exited" using less.hyps[of g1] s less.prems(3) by auto
    then show ?thesis using g1 relpowp_Suc_I2 by metis
  qed
qed

section \<open>Runs in which the readers find nothing\<close>

lemma get_first_empty: "sb_inv b B \<Longrightarrow> sb_entries B b = [] \<Longrightarrow> sbuffer_get_first_node B (Some b) = Inr NULL"
  using first_node_entries[of b B] by auto

definition idle :: "phase \<Rightarrow> phase set" where
  "idle ph = (if ph = Starting then {Polling, Finished} else {Checking})"

lemma reader_step_idle:
  "reader_step st tk pr fi (Some b) run ph m B = Inr (ph', m', B') \<Longrightarrow> sb_inv b B \<Longrightarrow> sb_entries B b = []
   \<Longrightarrow> ph = Starting \<or> ph = Polling \<Longrightarrow> ph' \<in> idle ph \<and> B' = B \<and> given b r ph B = []"
  by (auto simp: reader_step_def idle_def given_def get_first_empty bindR_Inr_iff split: if_splits)

lemma dm_idle_step:
  assumes inv: "gw_inv p g" and at: "dm_at g = Starting \<or> dm_at g = Polling" and none: "sb_entries (g_buf g) (p_buf p) = []"
    and len: "length (g_accepted g) \<le> nat INT_MAX"
  obtains ph M where "ph \<in> idle (dm_at g)" "step p g (g\<lparr>dm_at := ph, dm_part := M, g_world := dm_world M\<rparr>)"
    "gw_inv p (g\<lparr>dm_at := ph, dm_part := M, g_world := dm_world M\<rparr>)"
proof -
  have born: "dm_at g \<noteq> Unborn" "dm_at g \<noteq> Finished" using at by auto
  then have "g_main g \<noteq> Exited" using gw_inv_phases[OF inv] by (auto simp: phases_ok_def)
  then have buf: "sb_inv (p_buf p) (g_buf g)" using inv by (simp add: gw_inv_def buffer_ok_def)
  obtain ph M B where f: "datamgr_function (datamgr_td g) (storagemgr_td g) (p_D p) (p_lo p) (p_hi p) (Some (p_map p)) (mc_fclose_map (p_calls p)) (Some (p_buf p))
      (run_datamgr g) (dm_at g) ((dm_part g)\<lparr>dm_world := g_world g\<rparr>) (g_buf g) = Inr (ph, M, B)"
    using gw_datamgr[OF inv born _ len] at by (auto simp: dm_unknown_def)
  have i: "ph \<in> idle (dm_at g)" "B = g_buf g" "given (p_buf p) Data_Reader (dm_at g) (g_buf g) = []"
    using reader_step_idle[OF f[unfolded datamgr_function_def] buf none at, of Data_Reader] by auto
  have "g\<lparr>dm_at := ph, dm_part := M, g_world := dm_world M, g_buf := B,
      dm_taken := dm_taken g @ given (p_buf p) Data_Reader (dm_at g) (g_buf g)\<rparr>
      = g\<lparr>dm_at := ph, dm_part := M, g_world := dm_world M\<rparr>"
    using i(2,3) by (intro gateway.equality) simp_all
  then have s: "step p g (g\<lparr>dm_at := ph, dm_part := M, g_world := dm_world M\<rparr>)"
    using gw_step.datamgr[OF born f] by (metis (no_types, lifting))
  show ?thesis by (rule that[OF i(1) s gw_step_inv[OF inv s len]])
qed

lemma st_idle_step:
  assumes inv: "gw_inv p g" and at: "st_at g = Starting \<or> st_at g = Polling" and none: "sb_entries (g_buf g) (p_buf p) = []"
    and len: "length (g_accepted g) \<le> nat INT_MAX"
  obtains ph s where "ph \<in> idle (st_at g)" "step p g (g\<lparr>st_at := ph, st_part := s, g_world := st_world s\<rparr>)"
    "gw_inv p (g\<lparr>st_at := ph, st_part := s, g_world := st_world s\<rparr>)"
proof -
  have born: "st_at g \<noteq> Unborn" "st_at g \<noteq> Finished" using at by auto
  then have "g_main g \<noteq> Exited" using gw_inv_phases[OF inv] by (auto simp: phases_ok_def)
  then have buf: "sb_inv (p_buf p) (g_buf g)" using inv by (simp add: gw_inv_def buffer_ok_def)
  obtain ph s B where f: "storagemgr_steps (datamgr_td g) (storagemgr_td g) (p_S p) (p_sqlite p) (p_cb p) (Some (p_buf p)) (run_storagemgr g)
      (st_at g) ((st_part g)\<lparr>st_world := g_world g\<rparr>) (g_buf g) = Inr (ph, s, B)"
    using gw_storagemgr[OF inv born _ len] at by (auto simp: st_unknown_def)
  have i: "ph \<in> idle (st_at g)" "B = g_buf g" "given (p_buf p) Storage_Reader (st_at g) (g_buf g) = []"
    using reader_step_idle[OF f[unfolded storagemgr_steps_def] buf none at, of Storage_Reader] by auto
  have "g\<lparr>st_at := ph, st_part := s, g_world := st_world s, g_buf := B,
      st_taken := st_taken g @ given (p_buf p) Storage_Reader (st_at g) (g_buf g)\<rparr>
      = g\<lparr>st_at := ph, st_part := s, g_world := st_world s\<rparr>"
    using i(2,3) by (intro gateway.equality) simp_all
  then have s: "step p g (g\<lparr>st_at := ph, st_part := s, g_world := st_world s\<rparr>)"
    using gw_step.storagemgr[OF born f] by (metis (no_types, lifting))
  show ?thesis by (rule that[OF i(1) s gw_step_inv[OF inv s len]])
qed

text \<open>From its start to the place before it looks at its run flag, or to its end.\<close>

lemma dm_idle_run:
  assumes "gw_inv p g" "dm_at g = Starting" "sb_entries (g_buf g) (p_buf p) = []" "length (g_accepted g) \<le> nat INT_MAX"
  obtains ph M w where "ph \<in> {Checking, Finished}" "(step p)\<^sup>*\<^sup>* g (g\<lparr>dm_at := ph, dm_part := M, g_world := w\<rparr>)"
    "gw_inv p (g\<lparr>dm_at := ph, dm_part := M, g_world := w\<rparr>)"
proof -
  obtain ph M where 1: "ph \<in> idle Starting" "step p g (g\<lparr>dm_at := ph, dm_part := M, g_world := dm_world M\<rparr>)"
    "gw_inv p (g\<lparr>dm_at := ph, dm_part := M, g_world := dm_world M\<rparr>)" (is "gw_inv p ?g")
    using dm_idle_step[OF assms(1) _ assms(3,4)] assms(2) by metis
  show ?thesis
  proof (cases "ph = Finished")
    case True
    then show ?thesis using that[of ph "dm_world M" M] 1 by (simp add: r_into_rtranclp)
  next
    case False
    then have ph: "ph = Polling" using 1(1) by (simp add: idle_def)
    then have at: "dm_at ?g = Starting \<or> dm_at ?g = Polling" by simp
    obtain ph2 M2 where "ph2 \<in> idle Polling" "step p ?g (?g\<lparr>dm_at := ph2, dm_part := M2, g_world := dm_world M2\<rparr>)"
      "gw_inv p (?g\<lparr>dm_at := ph2, dm_part := M2, g_world := dm_world M2\<rparr>)"
      using dm_idle_step[OF 1(3) at] assms(3,4) ph by auto
    then show ?thesis using that[of ph2 "dm_world M2" M2] 1(2)
      by (simp add: idle_def converse_rtranclp_into_rtranclp r_into_rtranclp)
  qed
qed

lemma st_idle_run:
  assumes "gw_inv p g" "st_at g = Starting" "sb_entries (g_buf g) (p_buf p) = []" "length (g_accepted g) \<le> nat INT_MAX"
  obtains ph s w where "ph \<in> {Checking, Finished}" "(step p)\<^sup>*\<^sup>* g (g\<lparr>st_at := ph, st_part := s, g_world := w\<rparr>)"
    "gw_inv p (g\<lparr>st_at := ph, st_part := s, g_world := w\<rparr>)"
proof -
  obtain ph s where 1: "ph \<in> idle Starting" "step p g (g\<lparr>st_at := ph, st_part := s, g_world := st_world s\<rparr>)"
    "gw_inv p (g\<lparr>st_at := ph, st_part := s, g_world := st_world s\<rparr>)" (is "gw_inv p ?g")
    using st_idle_step[OF assms(1) _ assms(3,4)] assms(2) by metis
  show ?thesis
  proof (cases "ph = Finished")
    case True
    then show ?thesis using that[of ph "st_world s" s] 1 by (simp add: r_into_rtranclp)
  next
    case False
    then have ph: "ph = Polling" using 1(1) by (simp add: idle_def)
    then have at: "st_at ?g = Starting \<or> st_at ?g = Polling" by simp
    obtain ph2 s2 where "ph2 \<in> idle Polling" "step p ?g (?g\<lparr>st_at := ph2, st_part := s2, g_world := st_world s2\<rparr>)"
      "gw_inv p (?g\<lparr>st_at := ph2, st_part := s2, g_world := st_world s2\<rparr>)"
      using st_idle_step[OF 1(3) at] assms(3,4) ph by auto
    then show ?thesis using that[of ph2 "st_world s2" s2] 1(2)
      by (simp add: idle_def converse_rtranclp_into_rtranclp r_into_rtranclp)
  qed
qed

text \<open>The connection manager fills the buffer.\<close>

lemma insert_msize: "sbuffer_insert M b d = Inr (c, M') \<Longrightarrow> msize (snodes M') = msize (snodes M)"
  by (auto simp: sbuffer_insert_def malloc_def assign_def bindR_Inr_iff split: if_splits list.splits)

lemma inserts_run:
  assumes "gw_inv p g" "connmgr_running g"
    and "length (sb_entries (g_buf g) (p_buf p)) + length ds \<le> msize (snodes (g_buf g))"
    and "length (g_accepted g) + length ds \<le> nat INT_MAX"
  obtains B where "(step p)\<^sup>*\<^sup>* g (g\<lparr>g_buf := B, g_accepted := g_accepted g @ ds\<rparr>)"
  using assms
proof (induction ds arbitrary: g thesis)
  case Nil
  have "g\<lparr>g_buf := g_buf g, g_accepted := g_accepted g @ []\<rparr> = g" by simp
  then show ?case using Nil.prems(1)[of "g_buf g"] by simp
next
  case (Cons d ds)
  have run: "g_main g \<noteq> Exited" using gw_inv_phases[OF Cons.prems(2)] Cons.prems(3) by (auto simp: phases_ok_def stopping_def)
  then have buf: "sb_inv (p_buf p) (g_buf g)" using Cons.prems(2) by (simp add: gw_inv_def buffer_ok_def)
  obtain ns where ns: "sb_rep (g_buf g) (p_buf p) ns" "sb_entries (g_buf g) (p_buf p) = map snd ns" by (rule sb_invE[OF buf])
  have "card (dom (cells (snodes (g_buf g)))) = length (sb_entries (g_buf g) (p_buf p))"
    using ns distinct_card[of "addrs ns"] by (simp add: sb_rep_def)
  then have "avail (snodes (g_buf g)) \<noteq> []"
    using card_live_avail[of "snodes (g_buf g)"] ns(1) Cons.prems(4) by (auto simp: sb_rep_def)
  then obtain B1 where B1: "sbuffer_insert (g_buf g) (Some (p_buf p)) d = Inr (SBUFFER_SUCCESS, B1)"
    "sb_entries B1 (p_buf p) = sb_entries (g_buf g) (p_buf p) @ [fresh_entry d]"
    using sbuffer_insert_returns[OF buf, of d] sbuffer_insert_inv(2,3)[OF buf, of d] by metis
  let ?g = "g\<lparr>g_buf := B1, g_accepted := g_accepted g @ [d]\<rparr>"
  have s: "step p g ?g" by (rule connmgr_insert_step[OF Cons.prems(3) B1(1)])
  have "length (g_accepted g) \<le> nat INT_MAX" using Cons.prems(5) by simp
  from gw_step_inv[OF Cons.prems(2) s this] have inv: "gw_inv p ?g" .
  obtain B where "(step p)\<^sup>*\<^sup>* ?g (?g\<lparr>g_buf := B, g_accepted := g_accepted ?g @ ds\<rparr>)"
    by (rule Cons.IH[OF _ inv]) (use Cons.prems B1(2) insert_msize[OF B1(1)] in simp_all)
  then show ?case using Cons.prems(1)[of B] s by (simp add: converse_rtranclp_into_rtranclp)
qed

text \<open>A reader that is not known has been created by the \<open>pthread_create\<close> that \<open>main\<close> is in.\<close>

lemma unknown_at:
  assumes "gw_inv p g"
  shows "dm_unknown p g \<Longrightarrow> g_main g = Storing_Datamgr" "st_unknown p g \<Longrightarrow> g_main g = Storing_Storagemgr"
proof -
  have "ids_ok p g" "phases_ok g" using assms by (simp_all add: gw_inv_def)
  then show "dm_unknown p g \<Longrightarrow> g_main g = Storing_Datamgr" "st_unknown p g \<Longrightarrow> g_main g = Storing_Storagemgr"
    by (auto simp: ids_ok_def phases_ok_def dm_unknown_def st_unknown_def split: if_splits)
qed

text \<open>
  A run in which both readers find the buffer empty and are then held back, while the connection manager
  receives \<open>ds\<close> and returns.
\<close>

lemma starts_at:
  "starts p cap w g \<Longrightarrow> g_main g = Setting_Flags \<and> connmgr_running g \<and> dm_taken g = [] \<and> st_taken g = []"
  by (auto simp: starts_def elim!: main_parentE)

lemma main_run: "main_step (p_calls p) (p_D p) (p_S p) (Some (p_buf p)) g = Inr (Some g') \<Longrightarrow> (step p)\<^sup>*\<^sup>* g' g'' \<Longrightarrow> (step p)\<^sup>*\<^sup>* g g''"
  by (blast intro: converse_rtranclp_into_rtranclp gw_step.main)

lemma ignored_run:
  fixes ds :: "sensor_data_t list"
  assumes start: "starts p cap w g0" and room: "length ds \<le> cap" "length ds \<le> nat INT_MAX"
  obtains g where "(step p)\<^sup>*\<^sup>* g0 g" "g_main g = Joining_Datamgr" "g_accepted g = ds" "dm_taken g = []" "st_taken g = []"
    "may_take (dm_at g) = 0" "may_take (st_at g) = 0"
proof -
  note at = starts_at[OF start] and i = starts_inv[OF start]
  note calls = gw_inv_calls[OF i(1), unfolded main_calls_ok_def]
  let ?g3 = "g0\<lparr>run_datamgr := True, run_storagemgr := True, dm_at := Starting, datamgr_td := p_D p,
      st_at := Starting, storagemgr_td := p_S p, g_main := Joining_Connmgr\<rparr>"
  have r3: "(step p)\<^sup>*\<^sup>* g0 ?g3"
    by (rule main_run, simp add: main_step_def at, rule main_run, simp add: main_step_def check_exit_def calls,
      rule main_run, simp add: main_step_def, rule main_run, simp add: main_step_def check_exit_def calls,
      rule main_run, simp add: main_step_def, simp add: at)
  have len: "length (g_accepted g0) \<le> nat INT_MAX" by (simp add: i(2))
  have "gw_inv p ?g3" by (rule steps_inv[OF r3 i(1)]) (simp add: i(2))
  then obtain ph M w1 where 4: "ph \<in> {Checking, Finished}" "(step p)\<^sup>*\<^sup>* ?g3 (?g3\<lparr>dm_at := ph, dm_part := M, g_world := w1\<rparr>)"
    "gw_inv p (?g3\<lparr>dm_at := ph, dm_part := M, g_world := w1\<rparr>)" (is "gw_inv p ?g4")
    by (rule dm_idle_run) (simp_all add: i(2,3))
  from 4(3) obtain ph2 s w2 where 5: "ph2 \<in> {Checking, Finished}"
    "(step p)\<^sup>*\<^sup>* ?g4 (?g4\<lparr>st_at := ph2, st_part := s, g_world := w2\<rparr>)"
    "gw_inv p (?g4\<lparr>st_at := ph2, st_part := s, g_world := w2\<rparr>)" (is "gw_inv p ?g5")
    by (rule st_idle_run) (simp_all add: i(2,3))
  from 5(3) obtain B where 6: "(step p)\<^sup>*\<^sup>* ?g5 (?g5\<lparr>g_buf := B, g_accepted := g_accepted ?g5 @ ds\<rparr>)"
    (is "(step p)\<^sup>*\<^sup>* _ ?g6")
    by (rule inserts_run[where ds = ds]) (use room in \<open>simp_all add: i at\<close>)
  let ?g = "?g6\<lparr>connmgr_running := False, run_datamgr := False, run_storagemgr := False, g_main := Joining_Datamgr\<rparr>"
  have 7: "step p ?g6 (?g6\<lparr>connmgr_running := False\<rparr>)" by (rule connmgr_return_step) (simp add: at)
  have 8: "(step p)\<^sup>*\<^sup>* (?g6\<lparr>connmgr_running := False\<rparr>) ?g"
    by (rule main_run, simp add: main_step_def check_exit_def calls, rule main_run, simp add: main_step_def,
      rule main_run, simp add: main_step_def) simp
  have "(step p)\<^sup>*\<^sup>* g0 ?g6" by (rule rtranclp_trans[OF rtranclp_trans[OF rtranclp_trans[OF r3 4(2)] 5(2)] 6])
  then have "(step p)\<^sup>*\<^sup>* g0 (?g6\<lparr>connmgr_running := False\<rparr>)" using 7 by (rule rtranclp.rtrancl_into_rtrancl)
  then have "(step p)\<^sup>*\<^sup>* g0 ?g" using 8 by (rule rtranclp_trans)
  then show ?thesis by (rule that) (use at i(2) 4(1) 5(1) in \<open>auto simp: may_take_def\<close>)
qed

section \<open>A concrete process\<close>

definition demo_calls :: main_calls where
  "demo_calls = \<lparr>mc_sigaction = True, mc_attr_init = True, mc_attr_setdetachstate = True, mc_mutex_buf_init = True,
     mc_mutex_fifo_init = True, mc_create_connmgr = True, mc_create_datamgr = True, mc_create_storagemgr = True,
     mc_join_connmgr = True, mc_join_datamgr = True, mc_join_storagemgr = True, mc_attr_destroy = True,
     mc_mutex_destroy = True, mc_fclose_map = True\<rparr>"

lemma demo_calls_ok: "main_calls_ok demo_calls"
  by (simp add: main_calls_ok_def demo_calls_def)

definition demo_params :: "(string list, unit) params" where
  "demo_params = \<lparr>p_D = 1, p_S = 2, p_lo = d_of_int 10, p_hi = d_of_int 30, p_map = demo_map,
     p_sqlite = demo_sqlite, p_cb = (), p_st = demo_st, p_nodes = 5, p_elems = 6, p_buf = 0,
     p_calls = demo_calls, p_argv = [''main.out'', pr_d 1234]\<rparr>"

definition demo_start :: "string list gateway" where
  "demo_start = \<lparr>g_main = Setting_Flags, datamgr_td = 0, storagemgr_td = 0, run_datamgr = False, run_storagemgr = False, connmgr_running = True,
     dm_at = Unborn, dm_part = dm_fresh 5 6 demo_world, st_at = Unborn, st_part = demo_st, g_buf = demo_empty,
     g_world = demo_world, g_accepted = [], dm_taken = [], st_taken = []\<rparr>"

lemma demo_starts: "starts demo_params 2 demo_world demo_start"
proof -
  have "length (map_entries demo_map (-1) (-1)) = 2"
    using arg_cong[OF map_entries_lines[of "[(1, 15), (2, 21)]" "-1" "-1"], of length] by (simp add: demo_map_def)
  moreover have "main In_Parent demo_calls [''main.out'', pr_d 1234] le demo_fresh demo_world (dm_fresh 5 6 demo_world) demo_st
      = Inr (Main_Process \<lparr>cd_buf = Some 0, cd_port = 1234\<rparr> demo_start)" for le
    by (simp add: main_def main_begin_def demo_init main_connmgr_data_port INT_MIN_def INT_MAX_def check_exit_def demo_calls_def
      demo_start_def)
  ultimately show ?thesis
    by (simp add: starts_def demo_params_def demo_world_ok demo_sqlite_def demo_fresh_def demo_calls_ok)
qed

section \<open>Properties\<close>

text \<open>
  C2: In every interleaving of the three threads and \<open>main\<close>, as long as the buffer exists, what the connection
  manager has inserted is, for each reader, what it has been given followed by what it can still read: no
  measurement is lost, given twice or given out of order, whatever the other threads do. The histories
  of the sensors are those of what the data manager was given, and the database is what the INSERT
  statements of what the storage manager was given make of it.
\<close>

theorem gateway_exactly_once:
  assumes "starts p cap w g0" "(step p)\<^sup>*\<^sup>* g0 g" "length (g_accepted g) \<le> nat INT_MAX" "g_main g \<noteq> Exited"
  shows "g_accepted g = dm_taken g @ sb_pending (p_buf p) Data_Reader (g_buf g)
    \<and> g_accepted g = st_taken g @ sb_pending (p_buf p) Storage_Reader (g_buf g)
    \<and> (dm_at g \<in> {Polling, Taking, Checking, Ending} \<longrightarrow> dm_inv (dm_part g)
         (histories (p_lo p) (p_hi p) (map snd (map_entries (p_map p) (-1) (-1))) (dm_taken g)))
    \<and> (st_at g \<in> {Polling, Taking, Checking, Ending} \<longrightarrow> st_did (p_sqlite p) (p_cb p) (p_st p) (st_taken g) (st_part g))"
proof -
  have inv: "gw_inv p g" by (rule steps_inv[OF assms(2) starts_inv(1)[OF assms(1)] assms(3)])
  have all: "g_accepted g = taken r g @ sb_pending (p_buf p) r (g_buf g)" for r
    using inv assms(4) by (simp add: gw_inv_def buffer_ok_def)
  have "dm_ok p (dm_taken g) (dm_at g) (dm_part g)" "st_ok p (st_taken g) (st_at g) (st_part g)"
    using inv by (simp_all add: gw_inv_def)
  then show ?thesis using all[of Data_Reader] all[of Storage_Reader] by (auto simp: dm_did_def)
qed

theorem gateway_exactly_once_witness:
  "\<exists>g. step demo_params demo_start g \<and> g_accepted g = [demo_data]
    \<and> g_accepted g = dm_taken g @ sb_pending 0 Data_Reader (g_buf g)"
proof -
  obtain B where B: "sbuffer_insert demo_empty (Some 0) demo_data = Inr (SBUFFER_SUCCESS, B)"
    using sbuffer_insert_inv(2)[OF demo_inv(1)] sbuffer_insert_returns[OF demo_inv(1), of demo_data]
    by (auto simp: demo_empty_def)
  let ?g = "demo_start\<lparr>g_buf := B, g_accepted := g_accepted demo_start @ [demo_data]\<rparr>"
  have s: "step demo_params demo_start ?g"
    by (rule connmgr_insert_step) (simp_all add: demo_start_def demo_params_def B)
  have "length (g_accepted ?g) \<le> nat INT_MAX" by (simp add: demo_start_def INT_MAX_def)
  then have "g_accepted ?g = dm_taken ?g @ sb_pending (p_buf demo_params) Data_Reader (g_buf ?g)"
    using gateway_exactly_once[OF demo_starts r_into_rtranclp[of "step demo_params", OF s]] by (simp add: demo_start_def)
  then show ?thesis using s by (intro exI[of _ ?g]) (simp add: demo_params_def demo_start_def)
qed

text \<open>
  C5: In every interleaving the next step of the data manager, of the storage manager and of \<open>main\<close> returns, and an
  insertion does, whatever the state of the other threads, with one exception: a reader that comes to
  \<open>sbuffer_remove\<close> with data in the buffer before \<open>pthread_create\<close> has stored its id is not known there and ends the
  process with \<open>exit(EXIT_FAILURE)\<close>; then \<open>main\<close> is still inside that \<open>pthread_create\<close>. So no thread follows a wild
  pointer into the shared buffer, reads what was not written, or exits on any other error code of it.
\<close>

theorem gateway_no_fault:
  assumes "starts p cap w g0" "(step p)\<^sup>*\<^sup>* g0 g" "length (g_accepted g) \<le> nat INT_MAX"
  defines "dm_next \<equiv> datamgr_function (datamgr_td g) (storagemgr_td g) (p_D p) (p_lo p) (p_hi p) (Some (p_map p))
      (mc_fclose_map (p_calls p)) (Some (p_buf p)) (run_datamgr g) (dm_at g) ((dm_part g)\<lparr>dm_world := g_world g\<rparr>) (g_buf g)"
    and "st_next \<equiv> storagemgr_steps (datamgr_td g) (storagemgr_td g) (p_S p) (p_sqlite p) (p_cb p) (Some (p_buf p))
      (run_storagemgr g) (st_at g) ((st_part g)\<lparr>st_world := g_world g\<rparr>) (g_buf g)"
  shows "(if dm_at g = Taking \<and> datamgr_td g \<noteq> p_D p \<and> sb_entries (g_buf g) (p_buf p) \<noteq> []
        then dm_next = Inl Exit_Failure \<and> g_main g = Storing_Datamgr else \<exists>x. dm_next = Inr x)
    \<and> (if st_at g = Taking \<and> storagemgr_td g \<noteq> p_S p \<and> sb_entries (g_buf g) (p_buf p) \<noteq> []
        then st_next = Inl Exit_Failure \<and> g_main g = Storing_Storagemgr else \<exists>y. st_next = Inr y)
    \<and> (\<exists>z. main_step (p_calls p) (p_D p) (p_S p) (Some (p_buf p)) g = Inr z)
    \<and> (connmgr_running g \<longrightarrow> (\<exists>c B. sbuffer_insert (g_buf g) (Some (p_buf p)) d = Inr (c, B)))"
proof -
  have inv: "gw_inv p g" by (rule steps_inv[OF assms(2) starts_inv(1)[OF assms(1)] assms(3)])
  have idle: "reader_step st tk pr fi bf run ph m B = Inr (ph, m, B)" if "ph = Unborn \<or> ph = Finished"
    for st tk pr fi bf run ph and m :: 'm and B
    using that by (auto simp: reader_step_def)
  have dm: "\<exists>x. dm_next = Inr x" if "\<not> dm_unknown p g"
    using gw_datamgr[OF inv _ _ that assms(3)] unfolding dm_next_def
    by (cases "dm_at g = Unborn \<or> dm_at g = Finished") (auto simp: datamgr_function_def idle)
  have st: "\<exists>y. st_next = Inr y" if "\<not> st_unknown p g"
    using gw_storagemgr[OF inv _ _ that assms(3)] unfolding st_next_def
    by (cases "st_at g = Unborn \<or> st_at g = Finished") (auto simp: storagemgr_steps_def idle)
  have dm': "dm_next = Inl Exit_Failure \<and> g_main g = Storing_Datamgr" if "dm_unknown p g"
    using dm_unknown_exits[OF inv that] unknown_at(1)[OF inv that] by (simp add: dm_next_def)
  have st': "st_next = Inl Exit_Failure \<and> g_main g = Storing_Storagemgr" if "st_unknown p g"
    using st_unknown_exits[OF inv that] unknown_at(2)[OF inv that] by (simp add: st_next_def)
  have "\<exists>c B. sbuffer_insert (g_buf g) (Some (p_buf p)) d = Inr (c, B)" if "connmgr_running g"
  proof -
    have "g_main g \<noteq> Exited" using gw_inv_phases[OF inv] that by (auto simp: phases_ok_def stopping_def)
    then have "sb_inv (p_buf p) (g_buf g)" using inv by (simp add: gw_inv_def buffer_ok_def)
    then show ?thesis by (rule sbuffer_insert_returns)
  qed
  moreover have "if dm_unknown p g then dm_next = Inl Exit_Failure \<and> g_main g = Storing_Datamgr else \<exists>x. dm_next = Inr x"
    using dm dm' by simp
  moreover have "if st_unknown p g then st_next = Inl Exit_Failure \<and> g_main g = Storing_Storagemgr else \<exists>y. st_next = Inr y"
    using st st' by simp
  moreover have "\<exists>z. main_step (p_calls p) (p_D p) (p_S p) (Some (p_buf p)) g = Inr z" using gw_main[OF inv] by blast
  ultimately show ?thesis unfolding dm_unknown_def st_unknown_def by simp
qed

theorem gateway_no_fault_witness:
  "\<exists>c B. sbuffer_insert (g_buf demo_start) (Some 0) demo_data = Inr (c, B)"
  using gateway_no_fault[OF demo_starts rtranclp.rtrancl_refl, of demo_data] by (simp add: demo_start_def demo_params_def)

text \<open>
  C7: Once the connection manager has returned and \<open>main\<close> has cleared the run flags, the process ends: every
  schedule has at most 15 further steps, it never gets stuck before \<open>main\<close> has exited, and then no node of
  the buffer is left in memory. Each reader is given at most one more measurement on the way.
\<close>

theorem gateway_shutdown:
  assumes "starts p cap w g0" "(step p)\<^sup>*\<^sup>* g0 g" "length (g_accepted g) \<le> nat INT_MAX"
    and "g_main g = Joining_Datamgr" "(step p ^^ n) g g'"
  shows "n \<le> 15 \<and> (g_main g' = Exited \<or> (\<exists>g''. step p g' g''))
    \<and> (g_main g' = Exited \<longrightarrow> dom (cells (snodes (g_buf g'))) = {})
    \<and> length (dm_taken g') \<le> Suc (length (dm_taken g)) \<and> length (st_taken g') \<le> Suc (length (st_taken g))"
proof -
  have inv: "gw_inv p g" by (rule steps_inv[OF assms(2) starts_inv(1)[OF assms(1)] assms(3)])
  have at: "g_main g \<in> joining" using assms(4) by (simp add: joining_def)
  note s = steps_joining[OF inv at assms(5,3)]
  have "dm_at g \<noteq> Unborn" "st_at g \<noteq> Unborn" using gw_inv_phases[OF inv] assms(4) by (simp_all add: phases_ok_def)
  then have "phase_rank (dm_at g) \<le> 6" "phase_rank (st_at g) \<le> 6" using phase_rank_le by blast+
  then have "n \<le> 15" using s assms(4) by (simp add: gw_rank_def)
  moreover have "g_main g' = Exited \<or> (\<exists>g''. step p g' g'')" using progress[of p g'] s assms(3) by auto
  moreover have "g_main g' = Exited \<longrightarrow> dom (cells (snodes (g_buf g'))) = {}" using s by (simp add: gw_inv_def buffer_ok_def)
  moreover have "may_take (dm_at g) \<le> 1" "may_take (st_at g) \<le> 1" by (simp_all add: may_take_def)
  ultimately show ?thesis using s by auto
qed

theorem gateway_shutdown_witness:
  "\<exists>g. (step demo_params)\<^sup>*\<^sup>* demo_start g \<and> g_main g = Joining_Datamgr
    \<and> (\<forall>g'. step demo_params g g' \<longrightarrow> g_main g' = Exited \<or> (\<exists>g''. step demo_params g' g''))"
proof -
  obtain g where g: "(step demo_params)\<^sup>*\<^sup>* demo_start g" "g_main g = Joining_Datamgr" "g_accepted g = []"
    by (rule ignored_run[OF demo_starts, of "[]"]) simp_all
  then show ?thesis using gateway_shutdown[OF demo_starts g(1) _ g(2), of 1] by auto
qed

text \<open>
  C12: Measurements the buffer has accepted can be lost at shutdown: whatever the connection manager receives
  (as long as it fits), there is a schedule in which the process ends normally, neither the data manager
  nor the storage manager has been given any of it, and the buffer is released with the measurements in it.
  The readers look at the run flag, not at the buffer, to decide whether to stop.
\<close>

theorem gateway_can_lose_all:
  assumes "starts p cap w g0" "length ds \<le> cap" "length ds \<le> nat INT_MAX"
  shows "\<exists>g. (step p)\<^sup>*\<^sup>* g0 g \<and> g_main g = Exited \<and> g_accepted g = ds \<and> dm_taken g = [] \<and> st_taken g = []
    \<and> dom (cells (snodes (g_buf g))) = {}"
proof -
  obtain g where g: "(step p)\<^sup>*\<^sup>* g0 g" "g_main g = Joining_Datamgr" "g_accepted g = ds" "dm_taken g = []" "st_taken g = []"
    "may_take (dm_at g) = 0" "may_take (st_at g) = 0" by (rule ignored_run[OF assms])
  have len: "length (g_accepted g) \<le> nat INT_MAX" using g(3) assms(3) by simp
  have inv: "gw_inv p g" by (rule steps_inv[OF g(1) starts_inv(1)[OF assms(1)] len])
  have at: "g_main g \<in> joining" using g(2) by (simp add: joining_def)
  obtain n g' where g': "(step p ^^ n) g g'" "g_main g' = Exited" using runs_to_exit[OF inv at len] by blast
  note s = steps_joining[OF inv at g'(1) len]
  have "(step p)\<^sup>*\<^sup>* g0 g'" using g(1) relpowp_imp_rtranclp[OF g'(1)] by (rule rtranclp_trans)
  moreover have "dom (cells (snodes (g_buf g'))) = {}" using s g'(2) by (simp add: gw_inv_def buffer_ok_def)
  ultimately show ?thesis using s g g'(2) by auto
qed

theorem gateway_can_lose_all_witness:
  "\<exists>g. (step demo_params)\<^sup>*\<^sup>* demo_start g \<and> g_main g = Exited \<and> g_accepted g = [demo_data]
    \<and> dm_taken g = [] \<and> st_taken g = []"
  using gateway_can_lose_all[OF demo_starts, of "[demo_data]"] by (auto simp: INT_MAX_def)

end
