(* ===== verification/Gateway_Connmgr.thy ===== *)
theory Gateway_Connmgr
  imports Gateway_Props Connmgr_Props
begin

text \<open>
  The connection manager within the process: everything it does to the clock, the heap, the FIFO and the
  shared buffer, when no other thread interferes, is a run of its steps in theory \<open>Gateway\<close>. Shown for the abstract connection manager and
  carried over to \<open>connmgr.c\<close> by the refinement.
\<close>

section \<open>The thread\<close>

definition connmgr_function ::
  "nat \<Rightarrow> 'n sockapi \<Rightarrow> int \<Rightarrow> connmgr_data \<Rightarrow> 'n cm_state \<Rightarrow> (bool \<times> 'n cm_state) res" where
  "connmgr_function k K tmo td_data s = connmgr_listen k K tmo (cd_port td_data) (cd_buf td_data) s"

section \<open>Runs of the environment\<close>

definition after :: "environ \<Rightarrow> sensor_data_t list \<Rightarrow> 'db gateway \<Rightarrow> 'db gateway" where
  "after e ds g = g\<lparr>g_world := io_world e, g_buf := io_buf e, g_accepted := g_accepted g @ ds\<rparr>"

text \<open>Between \<open>e\<close> and \<open>e'\<close> the measurements \<open>ds\<close> are inserted; no other thread touches the buffer.\<close>

definition env_run :: "('db, 'c) params \<Rightarrow> sensor_data_t list \<Rightarrow> environ \<Rightarrow> environ \<Rightarrow> bool" where
  "env_run p ds e e' \<longleftrightarrow> io_others e' = io_others e \<and> io_inserts e' = io_inserts e + length ds
     \<and> (\<forall>g :: 'db gateway. connmgr_running g \<longrightarrow> g_world g = io_world e \<longrightarrow> g_buf g = io_buf e \<longrightarrow> (cm_step (p_buf p))\<^sup>*\<^sup>* g (after e' ds g))"

definition env_runs :: "('db, 'c) params \<Rightarrow> environ \<Rightarrow> environ \<Rightarrow> bool" where
  "env_runs p e e' \<longleftrightarrow> (\<exists>ds. env_run p ds e e')"

definition alone :: "environ \<Rightarrow> bool" where
  "alone e \<longleftrightarrow> io_others e = (\<lambda>_ B. B)"

lemma env_runD:
  fixes p :: "('db, 'c) params" and g :: "'db gateway"
  shows "env_run p ds e e' \<Longrightarrow> connmgr_running g \<Longrightarrow> g_world g = io_world e \<Longrightarrow> g_buf g = io_buf e \<Longrightarrow> (cm_step (p_buf p))\<^sup>*\<^sup>* g (after e' ds g)"
  by (simp add: env_run_def)

lemma after_simps [simp]:
  "connmgr_running (after e ds g) = connmgr_running g" "g_world (after e ds g) = io_world e"
  "g_buf (after e ds g) = io_buf e" "g_accepted (after e ds g) = g_accepted g @ ds"
  "after e' fs (after e ds g) = after e' (ds @ fs) g"
  by (simp_all add: after_def)

lemma env_run_refl: fixes p :: "('db, 'c) params" shows "env_run p [] e e"
proof -
  have "after e [] g = g" if "g_world g = io_world e" "g_buf g = io_buf e" for g :: "'db gateway"
    using that by (auto simp: after_def intro!: gateway.equality)
  then show ?thesis by (simp add: env_run_def)
qed

lemma env_run_trans:
  fixes p :: "('db, 'c) params"
  shows "env_run p ds e e1 \<Longrightarrow> env_run p fs e1 e2 \<Longrightarrow> env_run p (ds @ fs) e e2"
proof -
  assume 1: "env_run p ds e e1" and 2: "env_run p fs e1 e2"
  have "(cm_step (p_buf p))\<^sup>*\<^sup>* g (after e2 (ds @ fs) g)"
    if g: "connmgr_running g" "g_world g = io_world e" "g_buf g = io_buf e" for g :: "'db gateway"
    using rtranclp_trans[OF env_runD[OF 1 g] env_runD[OF 2]] g(1) by simp
  then show ?thesis using 1 2 by (simp add: env_run_def)
qed

lemma env_runs_refl [simp]: "env_runs p e e"
  using env_run_refl by (auto simp: env_runs_def)

lemma env_runs_trans [trans]: "env_runs p e e1 \<Longrightarrow> env_runs p e1 e2 \<Longrightarrow> env_runs p e e2"
  unfolding env_runs_def by (blast intro: env_run_trans)

lemma env_runs_alone: "env_runs p e e' \<Longrightarrow> alone e' = alone e"
  by (auto simp: env_runs_def env_run_def alone_def)

text \<open>The elementary steps.\<close>

lemma env_run_world:
  fixes p :: "('db, 'c) params"
  assumes "\<And>g :: 'db gateway. connmgr_running g \<Longrightarrow> g_world g = io_world e \<Longrightarrow> cm_step (p_buf p) g (g\<lparr>g_world := w\<rparr>)"
  shows "env_runs p e (e\<lparr>io_world := w\<rparr>)"
proof -
  have "after (e\<lparr>io_world := w\<rparr>) [] g = g\<lparr>g_world := w\<rparr>" if "g_buf g = io_buf e" for g :: "'db gateway"
    using that by (auto simp: after_def intro!: gateway.equality)
  then have "env_run p [] e (e\<lparr>io_world := w\<rparr>)" using assms by (auto simp: env_run_def)
  then show ?thesis by (auto simp: env_runs_def)
qed

lemma env_log_runs:
  assumes "env_log fmt e = Inr e'" "fmt \<in> range msg_opened \<union> range msg_closed"
  shows "env_runs p e e'"
proof -
  obtain w where w: "log_event fmt (io_world e) = Inr w" "e' = e\<lparr>io_world := w\<rparr>"
    using assms(1) by (auto simp: env_log_def bindR_Inr_iff)
  show ?thesis unfolding w(2) by (rule env_run_world, rule cm_step.log[OF _ assms(2)]) (simp_all add: w(1))
qed

lemma env_time_runs: "time_now (io_world e) = (t, w) \<Longrightarrow> env_runs p e (e\<lparr>io_world := w\<rparr>)"
  by (rule env_run_world, rule cm_step.clock) simp_all

lemma env_malloc_runs: "env_malloc e = (True, m, e') \<Longrightarrow> env_runs p e e'"
proof -
  assume "env_malloc e = (True, m, e')"
  then have h: "heap_alloc (io_world e) = (True, io_world e')" and e': "e' = e\<lparr>io_world := io_world e'\<rparr>"
    by (auto simp: env_malloc_def heap_alloc_def)
  have "env_runs p e (e\<lparr>io_world := io_world e'\<rparr>)" by (rule env_run_world, rule cm_step.alloc) (simp_all add: h)
  then show ?thesis using e' by simp
qed

lemma env_insert_runs:
  fixes p :: "('db, 'c) params"
  assumes "alone e" "env_insert (Some (p_buf p)) d e = Inr e'"
  shows "env_runs p e e'"
proof -
  obtain B where B: "sbuffer_insert (io_buf e) (Some (p_buf p)) d = Inr (SBUFFER_SUCCESS, B)"
    and e': "e' = e\<lparr>io_buf := B, io_inserts := Suc (io_inserts e)\<rparr>"
    using assms by (auto simp: env_insert_def alone_def bindR_Inr_iff check_exit_def split: if_splits)
  have "(cm_step (p_buf p))\<^sup>*\<^sup>* g (after e' [d] g)" if "connmgr_running g" "g_world g = io_world e" "g_buf g = io_buf e" for g :: "'db gateway"
  proof -
    have "after e' [d] g = g\<lparr>g_buf := B, g_accepted := g_accepted g @ [d]\<rparr>"
      using that by (auto simp: after_def e' intro!: gateway.equality)
    then show ?thesis using cm_step.insert[OF that(1)] B that(3) by (metis r_into_rtranclp)
  qed
  then have "env_run p [d] e e'" by (simp add: env_run_def e')
  then show ?thesis by (auto simp: env_runs_def)
qed

section \<open>The abstract connection manager\<close>

lemma a_store_runs:
  assumes "alone e" "a_store K (Some (p_buf p)) c m n e = Inr (r, n', e')"
  shows "env_runs p e e'"
proof -
  obtain d i e1 where e1: "(if cl_ts c = 0 then env_log (msg_opened i) e else Inr e) = Inr e1"
    and e2: "env_insert (Some (p_buf p)) d e1 = Inr e'"
    using assms(2) by (auto simp only: a_store_def split_def Let_def bindR_Inr_iff prod.inject sum.inject)
  have "env_runs p e e1" using e1 by (auto split: if_splits intro: env_log_runs)
  then show ?thesis using env_insert_runs[OF _ e2] env_runs_alone env_runs_trans assms(1) by metis
qed

lemma a_data_runs:
  assumes "alone e" "a_data K (Some (p_buf p)) c m n e = Inr (r, n', e')"
  shows "env_runs p e e'"
proof -
  obtain result nbytes v n1 where r: "a_receive K (cl_sd c) 2 (unat (raw_id m)) n = (result, nbytes, v, n1)"
    by (metis prod_cases4)
  show ?thesis using assms(2) a_store_runs[OF assms(1)] env_log_runs[of "msg_closed (cl_id c)" e e']
    by (auto simp: a_data_def r Let_def bindR_Inr_iff split: if_splits)
qed

lemma a_timeout_runs: "a_timeout K tmo c n e = Inr (r, n', e') \<Longrightarrow> env_runs p e e'"
  using env_time_runs[of e, OF surjective_pairing]
  by (auto simp: a_timeout_def split_def Let_def bindR_Inr_iff split: if_splits)

lemma a_visit_runs:
  assumes "alone e" "a_visit K tmo (Some (p_buf p)) rd c n e = Inr (r, n', e')"
  shows "env_runs p e e'"
proof -
  obtain m e1 where m: "env_malloc e = (True, m, e1)"
    using assms(2) by (cases "env_malloc e") (auto simp: a_visit_def check_exit_def bindR_Inr_iff split: if_splits)
  note e1 = env_malloc_runs[OF m, of p]
  then have "alone e1" using assms(1) env_runs_alone by blast
  then have "env_runs p e1 e'" using assms(2) m a_data_runs a_timeout_runs
    by (fastforce simp: a_visit_def bindR_Inr_iff split: if_splits)
  with e1 show ?thesis by (rule env_runs_trans)
qed

lemma a_pass_runs:
  "a_pass K tmo (Some (p_buf p)) rd cs n e = Inr (cs', n', e') \<Longrightarrow> alone e \<Longrightarrow> env_runs p e e'"
proof (induction K tmo "Some (p_buf p)" rd cs n e arbitrary: cs' n' e' rule: a_pass.induct)
  case (2 K tmo rd c cs n e)
  obtain r n1 e1 where v: "a_visit K tmo (Some (p_buf p)) rd c n e = Inr (r, n1, e1)"
    using 2(3) by (auto simp: bindR_Inr_iff)
  note e1 = a_visit_runs[OF 2(4) v]
  then have al: "alone e1" using 2(4) env_runs_alone by blast
  have "env_runs p e1 e'"
  proof (cases r)
    case (Some c')
    then show ?thesis using 2 v al by (fastforce simp: bindR_Inr_iff)
  next
    case None
    then show ?thesis using 2 v al by (cases cs) (fastforce simp: bindR_Inr_iff)+
  qed
  with e1 show ?case by (rule env_runs_trans)
qed simp

lemma a_round_runs:
  assumes "a_round K cap tmo (Some (p_buf p)) listener a = Inr (ended, a')" "alone (ac_env a)"
  shows "env_runs p (ac_env a) (ac_env a')"
  using assms a_pass_runs
  by (fastforce simp: a_round_def split_def Let_def bindR_Inr_iff split: if_splits)

lemma a_loop_runs:
  "a_loop k K cap tmo (Some (p_buf p)) listener a = Inr (ended, a') \<Longrightarrow> alone (ac_env a)
   \<Longrightarrow> env_runs p (ac_env a) (ac_env a')"
proof (induction k arbitrary: a)
  case (Suc k)
  obtain e1 a1 where r: "a_round K cap tmo (Some (p_buf p)) listener a = Inr (e1, a1)"
    using Suc.prems(1) by (auto simp: bindR_Inr_iff)
  note 1 = a_round_runs[OF r Suc.prems(2)]
  show ?case
  proof (cases e1)
    case False
    have "alone (ac_env a1)" using 1 Suc.prems(2) env_runs_alone by blast
    then have "env_runs p (ac_env a1) (ac_env a')" using Suc r False by simp
    with 1 show ?thesis by (rule env_runs_trans)
  qed (use Suc.prems r 1 in simp)
qed simp

lemma a_listen_runs:
  assumes "a_listen k K cap tmo port (Some (p_buf p)) n e = Inr (ended, a)" "alone e"
  shows "env_runs p e (ac_env a)"
  using assms a_loop_runs[of k K cap tmo p] by (fastforce simp: a_listen_def bindR_Inr_iff)

section \<open>A concrete run: a client connects and sends one measurement\<close>

lemma demo_listen:
  "\<exists>a. a_listen 2 demo_api 3 5 1234 (Some 0) (3, replicate 18 7) demo_env = Inr (False, a) \<and> io_inserts (ac_env a) = 1"
proof -
  note defs = a_round_def demo_api_def fd_set_def fd_range_def fd_isset_def FD_SETSIZE_def a_accept_def
      a_visit_def a_timeout_def check_exit_def env_malloc_def heap_alloc_def demo_env_def cm_world_def
      time_now_def time_diff_def
  define e1 where "e1 = demo_env\<lparr>io_world := cm_world\<lparr>ticks := 1, nallocs := 1\<rparr>\<rparr>"
  have 1: "a_round demo_api 3 5 (Some 0) 3 \<lparr>ac_clients = [], ac_net = (4, replicate 18 7), ac_env = demo_env\<rparr>
    = Inr (False, \<lparr>ac_clients = [\<lparr>cl_sd = 4, cl_ts = 0, cl_id = 0\<rparr>], ac_net = (5, replicate 18 7), ac_env = e1\<rparr>)"
    by (simp add: defs e1_def)
  have "\<forall>d. \<exists>B. sbuffer_insert demo_empty (Some 0) d = Inr (SBUFFER_SUCCESS, B)"
    using sbuffer_insert_returns[OF demo_inv(1)] sbuffer_insert_inv(2)[OF demo_inv(1)] by (fastforce simp: demo_empty_def)
  then obtain f where f: "\<And>d. sbuffer_insert demo_empty (Some 0) d = Inr (SBUFFER_SUCCESS, f d)" by metis
  have rcv: "\<exists>v. a_receive demo_api sd k old (j, bs) = (TCP_NO_ERROR, int k, v, (j, drop k bs))"
    if "0 < k" "k \<le> length bs" for sd k old j and bs :: "byte list"
    using that by (cases bs) (auto simp: a_receive_def recv_effect_def demo_api_def)
  obtain v1 where v1: "a_receive demo_api 4 2 (unat (0xAAAA :: 16 word)) (6, replicate 18 7) = (TCP_NO_ERROR, 2, v1, (6, replicate 16 7))"
    using rcv[of 2 "replicate 18 7" 4 "unat (0xAAAA :: 16 word)" 6] by (auto simp del: unat_numeral)
  obtain v2 where v2: "a_receive demo_api 4 8 (unat (0xBBBB :: 64 word)) (6, replicate 16 7) = (TCP_NO_ERROR, 8, v2, (6, replicate 8 7))"
    using rcv[of 8 "replicate 16 7" 4 "unat (0xBBBB :: 64 word)" 6] by (auto simp del: unat_numeral)
  obtain v3 where v3: "a_receive demo_api 4 8 (unat (0xCCCC :: 64 word)) (6, replicate 8 7) = (TCP_NO_ERROR, 8, v3, (6, []))"
    using rcv[of 8 "replicate 8 7" 4 "unat (0xCCCC :: 64 word)" 6] by (auto simp del: unat_numeral)
  define c4 where "c4 = \<lparr>cl_sd = 4, cl_ts = 0, cl_id = 0\<rparr>"
  obtain c e2 where v: "a_visit demo_api 5 (Some 0) {4, 3} c4 (6, replicate 18 7) e1 = Inr (Some c, (6, []), e2)"
      "io_inserts e2 = 1" "clock (io_world e2) = (\<lambda>_. 1535998100)" "heap (io_world e2) = (\<lambda>_. True)"
    using v1 v2 v3
    by (simp add: c4_def a_visit_def check_exit_def fd_isset_def fd_range_def FD_SETSIZE_def env_malloc_def heap_alloc_def
      e1_def demo_env_def cm_world_def TCP_NO_ERROR_def TCP_CONNECTION_CLOSED_def a_data_def a_store_def env_log_def log_event_def
     write_to_fifo_def env_insert_def f time_now_def del: unat_numeral cong: if_cong)
  define c5 where "c5 = \<lparr>cl_sd = 5, cl_ts = 0, cl_id = 0\<rparr>"
  obtain e3 where w: "a_visit demo_api 5 (Some 0) {4, 3} c5 (6, []) e2 = Inr (Some c5, (6, []), e3)" "io_inserts e3 = 1"
    by (simp add: v(2-4) a_visit_def check_exit_def fd_isset_def fd_range_def FD_SETSIZE_def env_malloc_def heap_alloc_def
      c5_def a_timeout_def time_now_def time_diff_def)
  have 2: "a_round demo_api 3 5 (Some 0) 3 \<lparr>ac_clients = [c4], ac_net = (5, replicate 18 7), ac_env = e1\<rparr>
    = Inr (False, \<lparr>ac_clients = [c, c5], ac_net = (6, []), ac_env = e3\<rparr>)"
    using v(1) w(1) by (simp add: a_round_def demo_api_def fd_set_def fd_range_def FD_SETSIZE_def a_accept_def
      fd_isset_def c4_def c5_def)
  have st: "a_start demo_api 1234 (3, replicate 18 7) = Inr (3, (4, replicate 18 7))"
    by (simp add: a_start_def demo_api_def MIN_PORT_def MAX_PORT_def)
  show ?thesis
    using 1 2 w(2) by (simp add: a_listen_def st numeral_2_eq_2 c4_def)
qed

section \<open>Properties\<close>

text \<open>
  C11: Composition. Started by \<open>main\<close> with the buffer and the port that is its argument, and running without
  interference from other threads, the connection manager's thread changes the clock, the heap, the FIFO and the shared
  buffer exactly as some run of the connection manager's own steps of the process (\<open>cm_step\<close>) does, in which nobody else does a step, and that run accepts as
  many measurements as the thread has inserted.
\<close>

theorem connmgr_in_gateway:
  fixes p :: "('db, 'c) params" and g :: "'db gateway"
  assumes "INT_MIN \<le> port" "port \<le> INT_MAX" "main_connmgr_data [prog, pr_d port] (Some (p_buf p)) = Inr td"
    and "connmgr_function k K tmo td (cm_fresh cap n e) = Inr (ended, s)"
    and "io_others e = (\<lambda>_ B. B)" "connmgr_running g" "g_world g = io_world e" "g_buf g = io_buf e"
  shows "cd_port td = port \<and> (\<exists>ds. length ds = io_inserts (env s) - io_inserts e
    \<and> (cm_step (p_buf p))\<^sup>*\<^sup>* g (g\<lparr>g_world := io_world (env s), g_buf := io_buf (env s), g_accepted := g_accepted g @ ds\<rparr>))"
proof -
  have td: "td = \<lparr>cd_buf = Some (p_buf p), cd_port = port\<rparr>" using main_connmgr_data_port[OF assms(1,2)] assms(3) by simp
  then have "connmgr_listen k K tmo port (Some (p_buf p)) (cm_fresh cap n e) = Inr (ended, s)"
    using assms(4) by (simp add: connmgr_function_def)
  then obtain a where "a_listen k K cap tmo port (Some (p_buf p)) n e = Inr (ended, a)" "env s = ac_env a"
    using listen_sim[of k K cap tmo port "Some (p_buf p)" n e]
    by (auto simp: sim_def cm_result_def split: sum.splits)
  then obtain ds where ds: "env_run p ds e (env s)"
    using a_listen_runs[where p = p] assms(5) by (metis alone_def env_runs_def)
  then have "length ds = io_inserts (env s) - io_inserts e" by (simp add: env_run_def)
  then show ?thesis using env_runD[OF ds assms(6-8)] td unfolding after_def by auto
qed

theorem connmgr_in_gateway_witness:
  "\<exists>td s ds. main_connmgr_data [''main.out'', pr_d 1234] (Some 0) = Inr td
    \<and> connmgr_function 2 demo_api 5 td (cm_fresh 3 (3, replicate 18 7) demo_env) = Inr (False, s)
    \<and> length ds = 1 \<and> (cm_step (p_buf demo_params))\<^sup>*\<^sup>* (demo_start\<lparr>g_world := cm_world\<rparr>)
        (demo_start\<lparr>g_world := io_world (env s), g_buf := io_buf (env s), g_accepted := ds\<rparr>)"
proof -
  have b: "Some 0 = Some (p_buf demo_params)" by (simp add: demo_params_def)
  have i: "INT_MIN \<le> 1234" "1234 \<le> INT_MAX" by (simp_all add: INT_MIN_def INT_MAX_def)
  note td = main_connmgr_data_port[OF i, of "''main.out''" "Some 0"]
  obtain s where "connmgr_listen 2 demo_api 5 1234 (Some 0) (cm_fresh 3 (3, replicate 18 7) demo_env) = Inr (False, s)"
    and n: "io_inserts (env s) = 1"
    using listen_sim[of 2 demo_api 3 5 1234 "Some 0" "(3, replicate 18 7)" demo_env] demo_listen
    by (auto simp: cm_result_def)
  then have s: "connmgr_function 2 demo_api 5 \<lparr>cd_buf = Some 0, cd_port = 1234\<rparr>
      (cm_fresh 3 (3, replicate 18 7) demo_env) = Inr (False, s)" by (simp add: connmgr_function_def)
  have e: "io_others demo_env = (\<lambda>_ B. B)" "connmgr_running (demo_start\<lparr>g_world := cm_world\<rparr>)"
    "g_world (demo_start\<lparr>g_world := cm_world\<rparr>) = io_world demo_env"
    "g_buf (demo_start\<lparr>g_world := cm_world\<rparr>) = io_buf demo_env" "io_inserts demo_env = 0" "g_accepted demo_start = []"
    by (simp_all add: demo_env_def demo_start_def)
  obtain ds where "length ds = 1" "(cm_step (p_buf demo_params))\<^sup>*\<^sup>* (demo_start\<lparr>g_world := cm_world\<rparr>)
        (demo_start\<lparr>g_world := io_world (env s), g_buf := io_buf (env s), g_accepted := ds\<rparr>)"
    using connmgr_in_gateway[OF i td[unfolded b] s[unfolded b] e(1-4)] n e(5,6) by auto
  with s td show ?thesis by blast
qed

end
