(* ===== verification/Gateway_Log.thy ===== *)
theory Gateway_Log
  imports Gateway_Props Log_Props
begin

text \<open>
  The log of the whole process: whatever the threads do in whatever order, the FIFO holds whole events, and
  the log process that \<open>main\<close> has forked numbers them.
\<close>

section \<open>Events\<close>

text \<open>The messages of the gateway's threads.\<close>

definition is_event :: "string \<Rightarrow> bool" where
  "is_event m \<longleftrightarrow> (\<exists>i v t. m \<in> {msg_opened i t, msg_closed i t, msg_invalid_id i t, msg_too_cold i v t, msg_too_hot i v t,
     msg_sql_unable t, msg_sql_connected t, msg_sql_lost t, msg_new_table TABLE_NAME t})"

lemma is_event_msgs [simp]:
  "is_event (msg_opened i t)" "is_event (msg_closed i t)" "is_event (msg_invalid_id i t)" "is_event (msg_too_cold i v t)"
  "is_event (msg_too_hot i v t)" "is_event (msg_sql_unable t)" "is_event (msg_sql_connected t)" "is_event (msg_sql_lost t)"
  "is_event (msg_new_table TABLE_NAME t)"
  by (auto simp: is_event_def)

text \<open>An event ends with its only newline, so that it is one line of the log if it fits the buffer.\<close>

lemma nl_notin_pr_f [simp]: "nl \<notin> set (pr_f v)"
  by (cases v) (simp_all add: Let_def)

lemma event_line: "is_event m \<Longrightarrow> length m < MAX_BUF \<Longrightarrow> log_line m"
proof -
  assume m: "is_event m" and len: "length m < MAX_BUF"
  from m have "\<exists>l. m = l @ [nl] \<and> nl \<notin> set l"
    unfolding is_event_def msg_opened_def msg_closed_def msg_invalid_id_def msg_too_cold_def msg_too_hot_def
      msg_sql_unable_def msg_sql_connected_def msg_sql_lost_def msg_new_table_def TABLE_NAME_def append_assoc[symmetric]
    by auto
  with len show ?thesis by (simp add: log_line_def)
qed

section \<open>What is written\<close>

definition writes :: "world \<Rightarrow> world \<Rightarrow> bool" where
  "writes w w' \<longleftrightarrow> (\<exists>ms. fifo w' = fifo w @ concat ms \<and> (\<forall>m \<in> set ms. is_event m))"

lemma writes_same: "fifo w' = fifo w \<Longrightarrow> writes w w'"
  by (auto simp: writes_def intro: exI[of _ "[]"])

lemma writes_refl [simp]: "writes w w"
  by (rule writes_same) simp

lemma writes_trans [trans]: "writes w w1 \<Longrightarrow> writes w1 w2 \<Longrightarrow> writes w w2"
proof -
  assume "writes w w1" "writes w1 w2"
  then obtain ms ns where "fifo w1 = fifo w @ concat ms" "\<forall>m \<in> set ms. is_event m"
    "fifo w2 = fifo w1 @ concat ns" "\<forall>m \<in> set ns. is_event m" unfolding writes_def by blast
  then show ?thesis unfolding writes_def by (intro exI[of _ "ms @ ns"]) auto
qed

lemma log_writes: "log_event fmt w = Inr w' \<Longrightarrow> (\<And>t. is_event (fmt t)) \<Longrightarrow> writes w w'"
  using log_event_Inr[of fmt w w'] by (auto simp: writes_def intro!: exI[of _ "[fmt (clock w (ticks w))]"])

section \<open>The data manager\<close>

lemma add_sensor_writes: "add_sensor r i n M = Inr M' \<Longrightarrow> writes (dm_world M) (dm_world M')"
  by (auto simp: add_sensor_def time_now_def bindR_Inr_iff intro!: writes_same split: option.splits)

lemma map_loop_writes: "map_loop fl n r i M = Inr M' \<Longrightarrow> writes (dm_world M) (dm_world M')"
proof (induction fl arbitrary: n r i M rule: measure_induct_rule [of length])
  case (less fl)
  show ?case
  proof (cases "getline fl")
    case None
    then show ?thesis using less.prems by (simp add: map_loop.simps[of fl])
  next
    case (Some x)
    obtain line rest where x: "x = (line, rest)" by (cases x)
    then obtain r' i' M1 where m: "add_sensor r' i' (n + 1) M = Inr M1" "map_loop rest (n + 1) r' i' M1 = Inr M'"
      using less.prems Some by (auto simp: map_loop.simps[of fl] bindR_Inr_iff split: prod.splits)
    have "length rest < length fl" using Some x by (auto simp: getline_def split: if_splits dest: take_line_smaller)
    then show ?thesis using less.IH[OF _ m(2)] add_sensor_writes[OF m(1)] writes_trans by blast
  qed
qed

lemma read_map_writes: "datamgr_read_map fp M = Inr M' \<Longrightarrow> writes (dm_world M) (dm_world M')"
  by (auto simp: datamgr_read_map_def bindR_Inr_iff dest!: map_loop_writes split: option.splits)

lemma node_world: "get_sensor_node_with_id M i = Inr (p, M') \<Longrightarrow> dm_world M' = dm_world M"
  by (auto simp: get_sensor_node_with_id_def bindR_Inr_iff split: option.splits)

lemma set_sensor_world: "set_sensor f M p = Inr M' \<Longrightarrow> dm_world M' = dm_world M"
  by (auto simp: set_sensor_def bindR_Inr_iff)

lemma dm_log_writes: "dm_log fmt M = Inr M' \<Longrightarrow> (\<And>t. is_event (fmt t)) \<Longrightarrow> writes (dm_world M) (dm_world M')"
  by (auto simp: dm_log_def bindR_Inr_iff intro: log_writes)

lemma alarm_writes:
  "(if q then dm_log fmt M else Inr M) = Inr M' \<Longrightarrow> (\<And>t. is_event (fmt t)) \<Longrightarrow> writes (dm_world M) (dm_world M')"
  by (auto intro: dm_log_writes split: if_splits)

lemma get_avg_writes:
  assumes "datamgr_get_avg lo hi M i = Inr (a, M')"
  shows "writes (dm_world M) (dm_world M')"
proof -
  obtain p M1 n where 1: "get_sensor_node_with_id M i = Inr (p, M1)" "load (elems (dm_mem M1)) p = Inr n"
    using assms by (auto simp: datamgr_get_avg_def bindR_Inr_iff)
  show ?thesis
  proof (cases "RUN_AVG_LENGTH \<le> nr_of_meass n")
    case False
    then show ?thesis using assms 1 node_world[OF 1(1)] by (simp add: datamgr_get_avg_def)
  next
    case True
    then obtain q q' f f' M2 M3 where 2: "(if q then dm_log f M1 else Inr M1) = Inr M2" "\<And>t. is_event (f t)"
      and 3: "(if q' then dm_log f' M2 else Inr M2) = Inr M3" "\<And>t. is_event (f' t)" and 4: "dm_world M' = dm_world M3"
      using assms 1 set_sensor_world by (fastforce simp: datamgr_get_avg_def bindR_Inr_iff Let_def)
    show ?thesis using alarm_writes[OF 2] alarm_writes[OF 3] node_world[OF 1(1)] 4 by (auto intro: writes_trans)
  qed
qed

lemma record_writes:
  assumes "record_measurement lo hi M p i t v = Inr M'"
  shows "writes (dm_world M) (dm_world M')"
proof -
  obtain M1 n where 1: "set_sensor (\<lambda>n. n\<lparr>timestamp := t\<rparr>) M p = Inr M1" "load (elems (dm_mem M1)) p = Inr n"
    using assms by (auto simp: record_measurement_def bindR_Inr_iff)
  obtain k where k: "ring_position (nr_of_meass n) = Some k" "\<not> (k < 0 \<or> RUN_AVG_LENGTH \<le> k)" "nr_of_meass n \<noteq> INT_MAX"
    using assms
    by (cases "ring_position (nr_of_meass n)") (simp_all add: record_measurement_def 1 bindR_Inr_iff split: if_splits)
  obtain f2 f3 f4 M2 M3 a M4 where 2: "set_sensor f2 M1 p = Inr M2" "set_sensor f3 M2 p = Inr M3"
    "datamgr_get_avg lo hi M3 i = Inr (a, M4)" "set_sensor f4 M4 p = Inr M'"
    using assms k by (auto simp: record_measurement_def 1 bindR_Inr_iff)
  show ?thesis using get_avg_writes[OF 2(3)] set_sensor_world[OF 1(1)] set_sensor_world[OF 2(1)] set_sensor_world[OF 2(2)]
      set_sensor_world[OF 2(4)] by simp
qed

lemma process_writes: "process_data lo hi M d = Inr M' \<Longrightarrow> writes (dm_world M) (dm_world M')"
  by (auto simp: process_data_def bindR_Inr_iff dest!: node_world dm_log_writes record_writes split: if_splits)

lemma datamgr_writes:
  assumes "datamgr_function D S self lo hi fp closed buffer run ph M B = Inr (ph', M', B')"
  shows "writes (dm_world M) (dm_world M')"
proof (cases ph)
  case Starting
  then show ?thesis using assms
    by (auto simp: datamgr_function_def reader_step_def datamgr_begin_def bindR_Inr_iff intro: read_map_writes)
next
  case Taking
  then show ?thesis using assms
    by (auto simp: datamgr_function_def reader_step_def datamgr_remove_def heap_alloc_def bindR_Inr_iff intro: writes_same)
next
  case (Processing d)
  then show ?thesis using assms
    by (auto simp: datamgr_function_def reader_step_def bindR_Inr_iff intro: process_writes)
next
  case Ending
  then show ?thesis using assms
    by (auto simp: datamgr_function_def reader_step_def datamgr_end_def datamgr_free_def Let_def bindR_Inr_iff
      intro: writes_same split: if_splits)
qed (use assms in \<open>auto simp: datamgr_function_def reader_step_def bindR_Inr_iff\<close>)

section \<open>The storage manager\<close>

lemma st_log_writes: "st_log fmt s = Inr s' \<Longrightarrow> (\<And>t. is_event (fmt t)) \<Longrightarrow> writes (st_world s) (st_world s')"
  by (auto simp: st_log_def bindR_Inr_iff intro: log_writes)

lemma run_sql_world: "run_sql Q c q s = (r, s') \<Longrightarrow> st_world s' = st_world s"
  by (auto simp: run_sql_def Let_def split: prod.splits)

lemma sql_world [simp]: "st_world (free_sql s) = st_world s" "st_world (close_db Q s) = st_world s"
  by (simp_all add: free_sql_def close_db_def)

lemma init_writes:
  assumes "init_connection Q c f s = Inr (r, s')"
  shows "writes (st_world s) (st_world s')"
proof -
  obtain opened db where o: "sqlite3_open Q DB_NAME (st_db s) = (opened, db)" by fastforce
  show ?thesis
  proof (cases opened)
    case False
    then show ?thesis using assms
      by (auto simp: init_connection_def o bindR_Inr_iff dest!: st_log_writes)
  next
    case True
    then obtain s1 where s1: "st_log msg_sql_connected (s\<lparr>st_db := db\<rparr>) = Inr s1"
      using assms by (auto simp: init_connection_def o bindR_Inr_iff)
    have 1: "writes (st_world s) (st_world s1)" using st_log_writes[OF s1] by simp
    obtain q s2 where q: "run_sql Q c (drop_sql Q) s1 = (q, s2)" by fastforce
    define s3 where "s3 = (if f = 1 then if q then free_sql s2 else close_db Q s2 else s1)"
    have 3: "st_world s3 = st_world s1" using run_sql_world[OF q] by (simp add: s3_def)
    obtain q' s4 where q': "run_sql Q c (create_sql Q) s3 = (q', s4)" by fastforce
    have 4: "st_world s4 = st_world s1" using run_sql_world[OF q'] 3 by simp
    have "writes (st_world s1) (st_world s')"
      using assms True s1 q q' 3 4
      by (auto simp: init_connection_def o s3_def bindR_Inr_iff Let_def dest!: st_log_writes split: if_splits)
    with 1 show ?thesis by (rule writes_trans)
  qed
qed

lemma connect_loop_writes: "connect_loop Q c k n (r, s) = Inr (r', s') \<Longrightarrow> writes (st_world s) (st_world s')"
proof (induction k arbitrary: n r s)
  case (Suc k)
  then show ?case by (auto simp: bindR_Inr_iff split: if_splits dest!: init_writes intro: writes_trans)
qed simp

lemma connect_writes: "storagemgr_connect Q c s = Inr (r, s') \<Longrightarrow> writes (st_world s) (st_world s')"
  by (auto simp: storagemgr_connect_def bindR_Inr_iff dest!: init_writes connect_loop_writes intro: writes_trans)

lemma store_data_world: "st_world (store_data Q c s d) = st_world s"
  by (auto simp: store_data_def insert_sensor_def split: prod.splits dest: run_sql_world)

lemma storagemgr_writes:
  assumes "storagemgr_steps D S self Q c buffer run ph s B = Inr (ph', s', B')"
  shows "writes (st_world s) (st_world s')"
proof (cases ph)
  case Starting
  then show ?thesis using assms
    by (auto simp: storagemgr_steps_def reader_step_def storagemgr_begin_def bindR_Inr_iff dest!: connect_writes
      split: if_splits)
next
  case Taking
  then show ?thesis using assms
    by (auto simp: storagemgr_steps_def reader_step_def storagemgr_remove_def heap_alloc_def bindR_Inr_iff intro: writes_same)
next
  case (Processing d)
  then show ?thesis using assms
    by (auto simp: storagemgr_steps_def reader_step_def bindR_Inr_iff store_data_world)
next
  case Ending
  then show ?thesis using assms
    by (auto simp: storagemgr_steps_def reader_step_def disconnect_def Let_def bindR_Inr_iff dest!: st_log_writes
      split: prod.splits if_splits)
qed (use assms in \<open>auto simp: storagemgr_steps_def reader_step_def bindR_Inr_iff\<close>)

section \<open>The process\<close>

lemma main_step_world: "main_step c D S b g = Inr (Some g') \<Longrightarrow> g_world g' = g_world g"
  by (auto simp: main_step_def bindR_Inr_iff split: main_at.splits if_splits)

lemma step_writes:
  assumes "step p g g'"
  shows "writes (g_world g) (g_world g')"
  using assms
proof (cases rule: gw_stepE)
  case (connmgr_log fmt w)
  then show ?thesis by (auto intro!: log_writes[of fmt])
next
  case (datamgr ph M B)
  then show ?thesis using datamgr_writes[OF datamgr(4)] by simp
next
  case (storagemgr ph s B)
  then show ?thesis using storagemgr_writes[OF storagemgr(4)] by simp
qed (auto simp: heap_alloc_def time_now_def main_step_world intro: writes_same)

lemma steps_write: "(step p)\<^sup>*\<^sup>* g g' \<Longrightarrow> writes (g_world g) (g_world g')"
  by (induction rule: rtranclp_induct) (auto intro: writes_trans step_writes)

section \<open>Properties\<close>

text \<open>
  The log. In every interleaving, the FIFO holds exactly the events that the threads have logged, one
  after the other and none torn apart. When each fits the buffer of the log process, as all but alarms
  about absurd temperatures do, then the process that \<open>main\<close> has forked writes them to the log
  file, numbered from 1 in the order of the FIFO, however they come in rounds (with a C library that reads
  on after an end of file).
\<close>

theorem gateway_log_complete:
  assumes "starts p cap w g0" "(step p)\<^sup>*\<^sup>* g0 g" "fifo w = []" "calls_succeed lc" "\<forall>n. io n \<noteq> None"
  shows "\<exists>ms. fifo (g_world g) = concat ms \<and> (\<forall>m \<in> set ms. is_event m)
    \<and> (\<forall>mss. concat mss = ms \<and> (\<forall>m \<in> set ms. length m < MAX_BUF) \<and> int (length ms) \<le> INT_MAX \<longrightarrow>
        (\<exists>q. main In_Child (p_calls p) (p_argv p) (False, lc, io, map concat mss) B w M s = Inr (Log_Process q)
          \<and> gateway_log q = numbered 1 ms \<and> sequence_number q = int (length ms)))"
proof -
  have "g_world g0 = w" "p_argv p \<noteq> []" using assms(1) by (auto simp: starts_def elim!: main_parentE)
  note argv = this(2)
  from \<open>g_world g0 = w\<close> obtain ms where ms: "fifo (g_world g) = concat ms" "\<forall>m \<in> set ms. is_event m"
    using steps_write[OF assms(2)] assms(3) by (auto simp: writes_def)
  have child: "main In_Child (p_calls p) (p_argv p) (False, lc, io, rs) B w M s
      = bindR (fifo_to_log False lc io rs) (\<lambda>q. Inr (Log_Process q))" for rs
    using gw_inv_calls[OF starts_inv(1)[OF assms(1)]] argv by (simp add: main_def check_exit_def main_calls_ok_def)
  have "\<exists>q. main In_Child (p_calls p) (p_argv p) (False, lc, io, map concat mss) B w M s = Inr (Log_Process q)
      \<and> gateway_log q = numbered 1 ms \<and> sequence_number q = int (length ms)"
    if "concat mss = ms" "\<forall>m \<in> set ms. length m < MAX_BUF" "int (length ms) \<le> INT_MAX" for mss
  proof -
    have "\<forall>ms' \<in> set mss. \<forall>m \<in> set ms'. log_line m" using that ms(2) event_line by auto
    from log_rounds_lenient[OF assms(5) this, of log_start]
    show ?thesis using that(1,3) by (auto simp: child fifo_to_log_rounds[OF assms(4)])
  qed
  then show ?thesis using ms by blast
qed

theorem gateway_log_complete_witness:
  "\<exists>g ms q. step demo_params demo_start g \<and> fifo (g_world g) = concat ms \<and> ms \<noteq> []
    \<and> main In_Child demo_calls [''main.out'', pr_d 1234] (False, all_succeed, \<lambda>_. Some 0, [fifo (g_world g)])
        demo_fresh demo_world (dm_fresh 5 6 demo_world) demo_st = Inr (Log_Process q) \<and> gateway_log q = numbered 1 ms"
proof -
  have p: "p_calls demo_params = demo_calls" "p_argv demo_params = [''main.out'', pr_d 1234]" by (simp_all add: demo_params_def)
  have empty: "fifo demo_world = []" by (simp add: demo_world_def)
  obtain w t where w: "log_event (msg_opened 15) demo_world = Inr w" "fifo w = msg_opened 15 t"
    using log_event_returns[OF demo_world_ok, of "msg_opened 15"] log_event_Inr empty by (metis append_Nil)
  let ?g = "demo_start\<lparr>g_world := w\<rparr>"
  have s: "step demo_params demo_start ?g"
    by (rule connmgr_log_step[of _ "msg_opened 15"]) (simp_all add: demo_start_def w(1))
  from gateway_log_complete[OF demo_starts r_into_rtranclp[of "step demo_params", OF s] empty calls_succeed_all,
      of "\<lambda>_. Some 0" demo_fresh "dm_fresh 5 6 demo_world" demo_st]
  obtain ms where ms: "fifo w = concat ms" "\<forall>m \<in> set ms. is_event m" and run: "\<forall>mss. concat mss = ms \<and> (\<forall>m \<in> set ms. length m < MAX_BUF) \<and> int (length ms) \<le> INT_MAX \<longrightarrow>
      (\<exists>q. main In_Child demo_calls [''main.out'', pr_d 1234] (False, all_succeed, \<lambda>_. Some 0, map concat mss)
        demo_fresh demo_world (dm_fresh 5 6 demo_world) demo_st = Inr (Log_Process q) \<and> gateway_log q = numbered 1 ms \<and> sequence_number q = int (length ms))"
    unfolding p by auto
  have fits: "length (fifo w) < MAX_BUF"
    using pr_ld_length[of t] pr_hu_length[of 15] w(2) by (simp add: msg_opened_def MAX_BUF_def)
  note fits
  moreover have "length m \<le> length (concat ms)" if "m \<in> set ms" for m
    using that by (induction ms) auto
  ultimately have "\<forall>m \<in> set ms. length m < MAX_BUF" using ms(1) by fastforce
  moreover have "ms \<noteq> []" using ms(1) w(2) by (auto simp: msg_opened_def)
  moreover have "\<forall>m \<in> set ms. m \<noteq> []" using ms(2) by (auto simp: is_event_def msg_opened_def msg_closed_def
      msg_invalid_id_def msg_too_cold_def msg_too_hot_def msg_sql_unable_def msg_sql_connected_def msg_sql_lost_def msg_new_table_def)
  then have "length ms \<le> length (fifo w)" unfolding ms(1) by (rule length_concat_ge)
  then have "int (length ms) \<le> INT_MAX" using fits by (simp add: MAX_BUF_def INT_MAX_def)
  ultimately show ?thesis using ms(1) run[rule_format, of "[ms]"] s by (intro exI[of _ ?g] exI[of _ ms]) auto
qed

end
