(* ===== verification/Gateway_System.thy ===== *)
theory Gateway_System
  imports Gateway_Log
begin

text \<open>
  Both processes of the gateway together (\<open>fifo_to_log\<close>, \<open>end_log_process\<close> and \<open>main\<close> of \<open>main.c\<close>): the main
  process with its threads (theory \<open>Gateway\<close>), the FIFO between the processes, and the log process step by
  step. \<open>main\<close> sends SIGTERM when the threads have ended; the handler clears \<open>run_logprocess\<close>, which the log
  process reads after it has found the FIFO empty.
\<close>

section \<open>The log process, step by step\<close>

text \<open>
  Where the log process is: before or in the \<open>fopen\<close> of the FIFO, which waits for a first writer; before a
  \<open>fgets\<close>; before it looks at \<open>run_logprocess\<close>; after its loop; and ended.
\<close>

datatype logproc_at = Opening | Reading | Looping | Closing | Log_Exited

record 'db system =
  sy_main :: "'db gateway"
  sy_log :: logproc
  sy_at :: logproc_at
  run_logprocess :: bool
  sy_killed :: bool

definition end_log_process :: "'db system \<Rightarrow> 'db system" where
  "end_log_process y = y\<lparr>run_logprocess := False\<rparr>"

text \<open>
  The next step of the log process, or \<open>None\<close> when it waits or has ended. A writer opens the FIFO, writes an
  event and closes it in one step of the system, so the \<open>fopen\<close> has a writer as soon as there are bytes, and a
  read of the empty FIFO finds no writer and does not wait.
\<close>

definition log_step :: "bool \<Rightarrow> logproc_calls \<Rightarrow> (int \<Rightarrow> nat option) \<Rightarrow> 'db system \<Rightarrow> 'db system option res" where
  "log_step sticky c io y = (case sy_at y of
      Opening \<Rightarrow>
        bindR (check_exit (lp_mkfifo c \<noteq> Fifo_Error)) (\<lambda>_.
        if lp_fifo (sy_log y) = [] then Inr None
        else
          bindR (check_exit (lp_fopen_fifo c)) (\<lambda>_.
          bindR (check_exit (lp_fopen_log c)) (\<lambda>_.
          Inr (Some (y\<lparr>sy_at := Reading\<rparr>)))))
    | Reading \<Rightarrow>
        bindR (log_read sticky io (sy_log y)) (\<lambda>(got, q).
        Inr (Some (y\<lparr>sy_log := q, sy_at := (if got then Reading else Looping)\<rparr>)))
    | Looping \<Rightarrow> Inr (Some (y\<lparr>sy_at := (if run_logprocess y then Reading else Closing)\<rparr>))
    | Closing \<Rightarrow>
        bindR (check_exit (lp_fclose_fifo c)) (\<lambda>_.
        bindR (check_exit (lp_fclose_log c)) (\<lambda>_.
        Inr (Some (y\<lparr>sy_log := log_fclose (sy_log y), sy_at := Log_Exited\<rparr>))))
    | Log_Exited \<Rightarrow> Inr None)"

section \<open>The system\<close>

text \<open>
  A step of the main process, which leaves what it writes in the FIFO; the \<open>kill\<close> of \<open>main\<close>, its first action
  after the joins; the arrival of the signal; and a step of the log process.
\<close>

definition main_writes :: "'db gateway \<Rightarrow> 'db system \<Rightarrow> 'db system" where
  "main_writes g y = y\<lparr>sy_main := g, sy_log := (sy_log y)\<lparr>lp_fifo := lp_fifo (sy_log y)
     @ drop (length (fifo (g_world (sy_main y)))) (fifo (g_world g))\<rparr>\<rparr>"

inductive sys_step ::
  "('db, 'c) params \<Rightarrow> bool \<Rightarrow> logproc_calls \<Rightarrow> (int \<Rightarrow> nat option) \<Rightarrow> 'db system \<Rightarrow> 'db system \<Rightarrow> bool"
  for p sticky c io where
  main_process: "step p (sy_main y) g \<Longrightarrow> (g_main (sy_main y) = Freeing \<longrightarrow> g_main g = Exited \<longrightarrow> sy_killed y) \<Longrightarrow>
    sys_step p sticky c io y (main_writes g y)"
| kill: "g_main (sy_main y) = Freeing \<Longrightarrow> \<not> sy_killed y \<Longrightarrow> sys_step p sticky c io y (y\<lparr>sy_killed := True\<rparr>)"
| sigterm: "sy_killed y \<Longrightarrow> run_logprocess y \<Longrightarrow> sy_at y \<notin> {Opening, Log_Exited} \<Longrightarrow> sys_step p sticky c io y (end_log_process y)"
| log_process: "log_step sticky c io y = Inr (Some y') \<Longrightarrow> sys_step p sticky c io y y'"

inductive_cases sys_stepE [consumes 1, case_names main_process kill sigterm log_process]:
  "sys_step p sticky c io y y'"

text \<open>After \<open>fork\<close>.\<close>

definition sys_start :: "'db gateway \<Rightarrow> 'db system" where
  "sys_start g = \<lparr>sy_main = g, sy_log = log_start, sy_at = Opening, run_logprocess = True, sy_killed = False\<rparr>"

lemma sys_start_sel [simp]:
  "sy_main (sys_start g) = g" "sy_at (sys_start g) = Opening" "run_logprocess (sys_start g)" "\<not> sy_killed (sys_start g)"
  "sy_log (sys_start g) = log_start"
  by (simp_all add: sys_start_def)

lemma main_writes_sel [simp]:
  "sy_main (main_writes g y) = g" "sy_at (main_writes g y) = sy_at y" "run_logprocess (main_writes g y) = run_logprocess y"
  "sy_killed (main_writes g y) = sy_killed y"
  "sequence_number (sy_log (main_writes g y)) = sequence_number (sy_log y)"
  "gateway_log (sy_log (main_writes g y)) = gateway_log (sy_log y)" "log_buf (sy_log (main_writes g y)) = log_buf (sy_log y)"
  "log_out (sy_log (main_writes g y)) = log_out (sy_log y)"
  "lp_eof (sy_log (main_writes g y)) = lp_eof (sy_log y)"
  by (simp_all add: main_writes_def)

lemma main_writes_fifo: "fifo (g_world g) = fifo (g_world (sy_main y)) @ x \<Longrightarrow>
    lp_fifo (sy_log (main_writes g y)) = lp_fifo (sy_log y) @ x"
  by (simp add: main_writes_def)

text \<open>A step of the log process leaves the rest alone.\<close>

lemma log_step_frame:
  "log_step sticky c io y = Inr (Some y') \<Longrightarrow>
   sy_main y' = sy_main y \<and> run_logprocess y' = run_logprocess y \<and> sy_killed y' = sy_killed y"
  by (auto simp: log_step_def bindR_Inr_iff split: logproc_at.splits if_splits)

text \<open>What a step of the main process is for the process alone.\<close>

lemma sys_main_step: "sys_step p sticky c io y y' \<Longrightarrow> sy_main y' = sy_main y \<or> step p (sy_main y) (sy_main y')"
  by (erule sys_stepE) (auto simp: end_log_process_def dest: log_step_frame)

lemma sys_main_run: "(sys_step p sticky c io)\<^sup>*\<^sup>* y y' \<Longrightarrow> (step p)\<^sup>*\<^sup>* (sy_main y) (sy_main y')"
proof (induction rule: rtranclp_induct)
  case (step y1 y2)
  then show ?case using sys_main_step[OF step(2)] by (auto intro: rtranclp.rtrancl_into_rtrancl)
qed simp

end
