(* ===== verification/Gateway_System_Props.thy ===== *)
theory Gateway_System_Props
  imports Gateway_System
begin

text \<open>
  What holds of the two processes in every interleaving: what the log file contains at any time, which events
  reach it, and how the log process ends.
\<close>

section \<open>One read of the log process\<close>

lemma log_read_cases:
  assumes "log_read sticky io p = Inr (got, q)"
  obtains (eof) "\<not> got" "q = p \<and> sticky \<and> lp_eof p \<or> q = p\<lparr>lp_eof := True\<rparr> \<and> lp_fifo p = []"
  | (msg) s r k where "got" "sequence_number p < INT_MAX" "take_upto (MAX_BUF - 1) (lp_fifo p) = (s, r)" "lp_fifo p = s @ r" "s \<noteq> []"
      "length s < MAX_BUF" "nl \<notin> set (butlast s)"
      "q = log_fputs k (pr_d (sequence_number p + 1) @ '' '' @ s) (p\<lparr>lp_fifo := r, sequence_number := sequence_number p + 1\<rparr>)"
proof (cases "log_fgets sticky p")
  case (Pair x p')
  show thesis
  proof (cases x)
    case None
    then show thesis using assms Pair by (intro eof) (auto simp: log_read_def log_fgets_def split: if_splits prod.splits)
  next
    case (Some s)
    obtain r where r: "take_upto (MAX_BUF - 1) (lp_fifo p) = (s, r)" "lp_fifo p \<noteq> []" "p' = p\<lparr>lp_fifo := r\<rparr>"
      using Pair Some by (auto simp: log_fgets_def split: if_splits prod.splits)
    have "lp_fifo p = s @ r" "length s < MAX_BUF" "nl \<notin> set (butlast s)" "s \<noteq> []"
      using take_upto_append[of "MAX_BUF - 1" "lp_fifo p"] r(1,2) take_upto_bounds(1,2)[of "MAX_BUF - 1" "lp_fifo p"]
        take_upto_bounds(3)[of "lp_fifo p" "MAX_BUF - 1"]
      by (auto simp: MAX_BUF_def)
    then show thesis using assms Pair Some r by (auto intro: msg simp: log_read_def Let_def split: if_splits option.splits)
  qed
qed

lemma log_read_outcome:
  assumes "\<forall>n. io n \<noteq> None"
  obtains (returns) got q where "log_read sticky io p = Inr (got, q)"
  | (overflow) "log_read sticky io p = Inl Int_Overflow" "INT_MAX \<le> sequence_number p"
proof (cases "log_fgets sticky p")
  case (Pair x p')
  have n: "sequence_number p' = sequence_number p" using Pair by (auto simp: log_fgets_def split: if_splits prod.splits)
  obtain k where "io (sequence_number p + 1) = Some k" using assms by blast
  then show thesis using Pair n
    by (cases x; cases "INT_MAX < sequence_number p + 1") (auto simp: log_read_def Let_def intro: returns overflow)
qed

text \<open>A message that fits is read as it was written.\<close>

lemma take_message: "log_line m \<Longrightarrow> take_upto (MAX_BUF - 1) (m @ s) = (m, s)"
  by (auto simp: log_line_def take_upto_line MAX_BUF_def)

section \<open>The log file at any time\<close>

text \<open>
  The events \<open>ms\<close> have been written to the FIFO, and the log process has read \<open>ss\<close>.
\<close>

definition logged :: "string list \<Rightarrow> string list \<Rightarrow> 'db system \<Rightarrow> bool" where
  "logged ms ss y \<longleftrightarrow> fifo (g_world (sy_main y)) = concat ms \<and> (\<forall>m \<in> set ms. is_event m)
     \<and> concat ms = concat ss @ lp_fifo (sy_log y)
     \<and> log_out (sy_log y) = numbered 1 ss \<and> sequence_number (sy_log y) = int (length ss) \<and> int (length ss) \<le> INT_MAX
     \<and> (\<forall>s \<in> set ss. s \<noteq> [] \<and> length s < MAX_BUF \<and> nl \<notin> set (butlast s))
     \<and> ((\<forall>m \<in> set ms. length m < MAX_BUF) \<longrightarrow> (\<exists>rest. ms = ss @ rest))"

lemma logged_frame [simp]:
  "logged ms ss (y\<lparr>sy_at := a\<rparr>) = logged ms ss y" "logged ms ss (y\<lparr>sy_killed := q\<rparr>) = logged ms ss y"
  "logged ms ss (end_log_process y) = logged ms ss y"
  by (simp_all add: logged_def end_log_process_def)

lemma logged_fclose [simp]:
  "logged ms ss (y\<lparr>sy_log := log_fclose (sy_log y)\<rparr>) = logged ms ss y"
  by (simp add: logged_def)

lemma logged_rest: "logged ms ss y \<Longrightarrow> \<forall>m \<in> set ms. length m < MAX_BUF \<Longrightarrow> \<exists>rest. ms = ss @ rest"
  by (simp only: logged_def)

lemma logged_main:
  assumes "logged ms ss y" "step p (sy_main y) g"
  shows "\<exists>ms'. logged ms' ss (main_writes g y)"
proof -
  obtain ns where ns: "fifo (g_world g) = fifo (g_world (sy_main y)) @ concat ns" "\<forall>m \<in> set ns. is_event m"
    using step_writes[OF assms(2)] by (auto simp: writes_def)
  have "logged (ms @ ns) ss (main_writes g y)"
    using assms(1) ns main_writes_fifo[OF ns(1)] by (auto simp: logged_def)
  then show ?thesis ..
qed

lemma logged_read:
  assumes "logged ms ss y" "log_read sticky io (sy_log y) = Inr (got, q)"
  shows "\<exists>ss'. logged ms ss' (y\<lparr>sy_log := q, sy_at := a\<rparr>)"
  using assms(2)
proof (cases rule: log_read_cases)
  case eof
  then show ?thesis using assms(1) by (intro exI[of _ ss]) (auto simp: logged_def)
next
  case (msg s r)
  have rest: "\<exists>rest. ms = (ss @ [s]) @ rest" if fits: "\<forall>m \<in> set ms. length m < MAX_BUF"
  proof -
    obtain rest where ms: "ms = ss @ rest" using logged_rest[OF assms(1) fits] by blast
    then have fl: "lp_fifo (sy_log y) = concat rest" using assms(1) by (simp add: logged_def)
    then obtain m rest' where rest: "rest = m # rest'" using msg(4,5) by (cases rest) auto
    have "log_line m" using assms(1) fits ms rest by (auto simp: logged_def intro: event_line)
    then have "s = m" using msg(3) take_message[of m "concat rest'"] fl rest by simp
    then show ?thesis using ms rest by simp
  qed
  have "concat ms = concat (ss @ [s]) @ lp_fifo q"
    "log_out q = numbered 1 (ss @ [s])" "sequence_number q = int (length (ss @ [s]))"
    using assms(1) msg(4) by (simp_all add: logged_def msg(8) numbered_append add.commute)
  moreover have "int (length (ss @ [s])) \<le> INT_MAX" using assms(1) msg(2) by (simp add: logged_def)
  ultimately have "logged ms (ss @ [s]) (y\<lparr>sy_log := q, sy_at := a\<rparr>)"
    using assms(1) msg(5-7) rest unfolding logged_def by simp
  then show ?thesis ..
qed

lemma logged_step:
  assumes "logged ms ss y" "sys_step p sticky c io y y'"
  shows "\<exists>ms ss. logged ms ss y'"
proof -
  have keep: "logged ms ss y' \<Longrightarrow> \<exists>ms ss. logged ms ss y'" by blast
  show ?thesis using assms(2)
  proof (cases rule: sys_stepE)
    case (main_process g)
    then show ?thesis using logged_main[OF assms(1)] by blast
  next
    case log_process
    show ?thesis
    proof (cases "sy_at y")
      case Reading
      then obtain got q where q: "log_read sticky io (sy_log y) = Inr (got, q)"
          "y' = y\<lparr>sy_log := q, sy_at := (if got then Reading else Looping)\<rparr>"
        using log_process by (auto simp: log_step_def bindR_Inr_iff)
      show ?thesis using logged_read[OF assms(1) q(1)] unfolding q(2) by blast
    qed (rule keep; use log_process assms(1) in \<open>auto simp: log_step_def bindR_Inr_iff split: if_splits\<close>)+
  qed (rule keep; use assms(1) in simp)+
qed

section \<open>Where the processes are\<close>

definition sys_inv :: "'db system \<Rightarrow> bool" where
  "sys_inv y \<longleftrightarrow> (sy_killed y \<longrightarrow> g_main (sy_main y) \<in> {Freeing, Exited})
     \<and> (g_main (sy_main y) = Exited \<longrightarrow> sy_killed y)
     \<and> (\<not> run_logprocess y \<longrightarrow> sy_killed y \<and> sy_at y \<noteq> Opening)
     \<and> (sy_at y \<in> {Closing, Log_Exited} \<longrightarrow> \<not> run_logprocess y)
     \<and> (sy_at y = Log_Exited \<longrightarrow> log_buf (sy_log y) = [])"

lemma step_from_end:
  assumes "step p g g'" "g_main g \<in> {Freeing, Exited}"
  shows "g_main g' \<in> {Freeing, Exited}"
  using assms(1) by (cases rule: gw_stepE)
    (use assms(2) in \<open>auto simp: main_step_def bindR_Inr_iff split: main_at.splits if_splits\<close>)

lemma step_to_exit:
  assumes "step p g g'" "g_main g' = Exited"
  shows "g_main g \<in> {Freeing, Exited}"
  using assms(1) by (cases rule: gw_stepE)
    (use assms(2) in \<open>auto simp: main_step_def bindR_Inr_iff split: main_at.splits if_splits\<close>)

lemma sys_inv_step:
  assumes "sys_inv y" "sys_step p sticky c io y y'"
  shows "sys_inv y'"
  using assms(2)
proof (cases rule: sys_stepE)
  case (main_process g)
  then show ?thesis using assms(1) step_from_end[OF main_process(2)] step_to_exit[OF main_process(2)]
    by (auto simp: sys_inv_def)
next
  case log_process
  then show ?thesis using assms(1)
    by (auto simp: sys_inv_def log_step_def bindR_Inr_iff split: logproc_at.splits if_splits)
qed (use assms(1) in \<open>auto simp: sys_inv_def end_log_process_def\<close>)

text \<open>All that holds of a system that has started.\<close>

lemma sys_reach:
  assumes "starts p cap w g0" "(sys_step p sticky c io)\<^sup>*\<^sup>* (sys_start g0) y"
  shows "sys_inv y" "fifo w = [] \<Longrightarrow> \<exists>ms ss. logged ms ss y"
    "length (g_accepted (sy_main y)) \<le> nat INT_MAX \<Longrightarrow> gw_inv p (sy_main y)"
proof -
  have g0: "g_main g0 = Setting_Flags" "g_world g0 = w" using assms(1) by (auto simp: starts_def elim!: main_parentE)
  show "sys_inv y" using assms(2)
    by (induction rule: rtranclp_induct) (use g0 sys_inv_step in \<open>auto simp: sys_inv_def[of "sys_start g0"]\<close>)
  show "\<exists>ms ss. logged ms ss y" if "fifo w = []"
    using assms(2)
  proof (induction rule: rtranclp_induct)
    case base
    then show ?case using that g0 by (intro exI[of _ "[]"]) (simp add: logged_def INT_MAX_def)
  qed (use logged_step in blast)
  show "length (g_accepted (sy_main y)) \<le> nat INT_MAX \<Longrightarrow> gw_inv p (sy_main y)"
    using sys_main_run[OF assms(2)] starts_inv(1)[OF assms(1)] by (auto intro: steps_inv)
qed

section \<open>Runs of the main process\<close>

text \<open>
  A run of the main process is one of the system in which the log process stands still; \<open>kill\<close> comes before
  the last step.
\<close>

definition stays :: "'db system \<Rightarrow> 'db system \<Rightarrow> bool" where
  "stays y y' \<longleftrightarrow> sy_at y' = sy_at y \<and> run_logprocess y' = run_logprocess y
     \<and> log_out (sy_log y') = log_out (sy_log y) \<and> lp_eof (sy_log y') = lp_eof (sy_log y)"

lemma stays_refl [simp]: "stays y y"
  by (simp add: stays_def)

lemma stays_trans: "stays y y1 \<Longrightarrow> stays y1 y2 \<Longrightarrow> stays y y2"
  by (simp add: stays_def)

lemma lift_step:
  assumes "step p (sy_main y) g"
  shows "\<exists>y'. (sys_step p sticky c io)\<^sup>*\<^sup>* y y' \<and> sy_main y' = g \<and> stays y y'"
proof (cases "g_main (sy_main y) = Freeing \<and> \<not> sy_killed y")
  case True
  let ?k = "y\<lparr>sy_killed := True\<rparr>"
  have "sys_step p sticky c io y ?k" using True by (intro sys_step.kill) simp_all
  moreover have "sys_step p sticky c io ?k (main_writes g ?k)" using assms by (intro sys_step.main_process) simp_all
  ultimately show ?thesis by (intro exI[of _ "main_writes g ?k"]) (auto simp: stays_def intro: rtranclp_trans)
next
  case False
  then have "sys_step p sticky c io y (main_writes g y)" using assms by (intro sys_step.main_process) auto
  then show ?thesis by (intro exI[of _ "main_writes g y"]) (auto simp: stays_def)
qed

lemma lift_run:
  assumes "(step p)\<^sup>*\<^sup>* (sy_main y) g"
  shows "\<exists>y'. (sys_step p sticky c io)\<^sup>*\<^sup>* y y' \<and> sy_main y' = g \<and> stays y y'"
  using assms
proof (induction rule: rtranclp_induct)
  case base
  then show ?case by (intro exI[of _ y]) simp
next
  case (step g1 g2)
  then obtain y1 where y1: "(sys_step p sticky c io)\<^sup>*\<^sup>* y y1" "sy_main y1 = g1" "stays y y1" by blast
  obtain y2 where y2: "(sys_step p sticky c io)\<^sup>*\<^sup>* y1 y2" "sy_main y2 = g2" "stays y1 y2"
    using lift_step[of p y1 g2] step(2) y1(2) by blast
  show ?case using rtranclp_trans[OF y1(1) y2(1)] y2(2) stays_trans[OF y1(3) y2(3)] by (intro exI[of _ y2]) simp
qed

text \<open>
  A storage manager that is connected writes, whatever the others do, that its connection is lost before it ends.
\<close>

definition connected :: "phase \<Rightarrow> bool" where
  "connected ph \<longleftrightarrow> ph \<noteq> Unborn \<and> ph \<noteq> Starting \<and> ph \<noteq> Finished"

lemma disconnect_writes: "disconnect Q s = Inr s' \<Longrightarrow> \<exists>t. fifo (st_world s') = fifo (st_world s) @ msg_sql_lost t"
  by (auto simp: disconnect_def st_log_def Let_def bindR_Inr_iff dest!: log_event_Inr split: prod.splits if_splits)

lemma storagemgr_lost:
  assumes "storagemgr_steps D S self Q c b run ph s B = Inr (ph', s', B')" "connected ph"
  shows "connected ph' \<or> (\<exists>t. fifo (st_world s') = fifo (st_world s) @ msg_sql_lost t)"
  using assms by (cases ph) (auto simp: storagemgr_steps_def reader_step_def connected_def bindR_Inr_iff
      dest: disconnect_writes split: if_splits)

lemma step_lost:
  assumes "step p g g'" "connected (st_at g)" "g_main g \<noteq> Creating_Storagemgr"
  shows "connected (st_at g') \<or> (\<exists>t. fifo (g_world g') = fifo (g_world g) @ msg_sql_lost t)"
  using assms(1)
proof (cases rule: gw_stepE)
  case (storagemgr ph s B)
  then show ?thesis using storagemgr_lost[OF storagemgr(4) assms(2)] by simp
next
  case main
  then show ?thesis using assms(2,3)
    by (auto simp: main_step_def connected_def bindR_Inr_iff split: main_at.splits if_splits)
qed (use assms(2) in simp_all)

lemma step_stopping: "step p g g' \<Longrightarrow> g_main g \<in> insert Joining_Connmgr stopping \<Longrightarrow> g_main g' \<in> insert Joining_Connmgr stopping"
  by (erule gw_stepE) (auto simp: main_step_def stopping_def bindR_Inr_iff split: if_splits)

lemma steps_lost:
  assumes "(step p)\<^sup>*\<^sup>* g g'" "connected (st_at g)" "g_main g \<in> insert Joining_Connmgr stopping"
  shows "g_main g' \<in> insert Joining_Connmgr stopping
    \<and> (connected (st_at g') \<or> (\<exists>rest t rest'. fifo (g_world g') = fifo (g_world g) @ rest @ msg_sql_lost t @ rest'))"
  using assms(1)
proof (induction rule: rtranclp_induct)
  case (step g1 g2)
  obtain ns where ns: "fifo (g_world g2) = fifo (g_world g1) @ concat ns" using step_writes[OF step(2)] by (auto simp: writes_def)
  obtain ms where ms: "fifo (g_world g1) = fifo (g_world g) @ concat ms" using steps_write[OF step(1)] by (auto simp: writes_def)
  have at: "g_main g1 \<in> insert Joining_Connmgr stopping" "g_main g1 \<noteq> Creating_Storagemgr" using step(3) by (auto simp: stopping_def)
  have "connected (st_at g2) \<or> (\<exists>rest t rest'. fifo (g_world g2) = fifo (g_world g) @ rest @ msg_sql_lost t @ rest')"
  proof (cases "connected (st_at g1)")
    case True
    then show ?thesis using step_lost[OF step(2) _ at(2)] ms by (metis append.assoc append_Nil2)
  next
    case False
    then obtain rest t rest' where "fifo (g_world g1) = fifo (g_world g) @ rest @ msg_sql_lost t @ rest'" using step(3) by blast
    then show ?thesis using ns by (intro disjI2 exI[of _ rest] exI[of _ t] exI[of _ "rest' @ concat ns"]) simp
  qed
  then show ?case using step_stopping[OF step(2) at(1)] by blast
qed (use assms(2,3) in simp)

text \<open>From there on the process ends; the threads and \<open>main\<close> are all that still runs.\<close>

lemma last_run:
  assumes "gw_inv p g" "\<not> connmgr_running g" "g_main g = Joining_Connmgr" "length (g_accepted g) \<le> nat INT_MAX"
    and "connected (st_at g)"
  shows "\<exists>rest t rest' g'. (step p)\<^sup>*\<^sup>* g g' \<and> g_main g' = Exited \<and> g_accepted g' = g_accepted g
    \<and> fifo (g_world g') = fifo (g_world g) @ rest @ msg_sql_lost t @ rest'"
proof -
  have calls: "main_calls_ok (p_calls p)" using assms(1) by (simp add: gw_inv_def)
  let ?g3 = "g\<lparr>g_main := Stopping_Datamgr\<rparr>" let ?g4 = "?g3\<lparr>run_datamgr := False, g_main := Stopping_Storagemgr\<rparr>"
  let ?g5 = "?g4\<lparr>run_storagemgr := False, g_main := Joining_Datamgr\<rparr>"
  have run: "(step p)\<^sup>*\<^sup>* g ?g5"
    using assms(2,3) calls
    by (intro main_run[of p g ?g3] main_run[of p ?g3 ?g4] main_run[of p ?g4 ?g5])
      (simp_all add: main_step_def check_exit_def main_calls_ok_def)
  have len: "length (g_accepted ?g5) \<le> nat INT_MAX" using assms(4) by simp
  have inv: "gw_inv p ?g5" by (rule steps_inv[OF run assms(1) len])
  have at: "g_main ?g5 \<in> joining" by (simp add: joining_def)
  obtain n g' where g': "(step p ^^ n) ?g5 g'" "g_main g' = Exited" using runs_to_exit[OF inv at len] by blast
  note s = steps_joining[OF inv at g'(1) len] and all = rtranclp_trans[OF run relpowp_imp_rtranclp[OF g'(1)]]
  have "st_at g' = Finished" using gw_inv_phases[of p g'] s g'(2) by (simp add: phases_ok_def)
  then show ?thesis using steps_lost[OF all assms(5)] assms(3) all s g'(2) by (auto simp: connected_def)
qed

lemma system_runs_out:
  assumes "gw_inv p (sy_main y)" "sys_inv y" "\<not> connmgr_running (sy_main y)" "g_main (sy_main y) = Joining_Connmgr"
    "length (g_accepted (sy_main y)) \<le> nat INT_MAX" "connected (st_at (sy_main y))" "sy_at y \<noteq> Opening"
  shows "\<exists>y' rest t rest'. (sys_step p sticky c io)\<^sup>*\<^sup>* y y' \<and> g_main (sy_main y') = Exited \<and> \<not> run_logprocess y'
    \<and> stays y (y'\<lparr>run_logprocess := run_logprocess y\<rparr>) \<and> length (g_accepted (sy_main y')) \<le> nat INT_MAX
    \<and> fifo (g_world (sy_main y')) = fifo (g_world (sy_main y)) @ rest @ msg_sql_lost t @ rest'"
proof -
  obtain rest t rest' g where g: "(step p)\<^sup>*\<^sup>* (sy_main y) g" "g_main g = Exited" "g_accepted g = g_accepted (sy_main y)"
    "fifo (g_world g) = fifo (g_world (sy_main y)) @ rest @ msg_sql_lost t @ rest'"
    using last_run[OF assms(1,3,4,5,6)] by blast
  obtain y1 where y1: "(sys_step p sticky c io)\<^sup>*\<^sup>* y y1" "sy_main y1 = g" "stays y y1"
    using lift_run[OF g(1)] by blast
  have "sys_inv y1" using y1(1) assms(2) by (induction rule: rtranclp_induct) (auto intro: sys_inv_step)
  moreover have "run_logprocess y" "sy_at y \<notin> {Closing, Log_Exited}" using assms(2,4) by (auto simp: sys_inv_def)
  ultimately have "sys_step p sticky c io y1 (end_log_process y1)"
    using y1(2,3) g(2) assms(7) by (intro sys_step.sigterm) (auto simp: sys_inv_def stays_def)
  then have "(sys_step p sticky c io)\<^sup>*\<^sup>* y (end_log_process y1)" using y1(1) by simp
  then show ?thesis using y1(2,3) g(2-4) assms(5)
    by (intro exI[of _ "end_log_process y1"] exI[of _ rest] exI[of _ t] exI[of _ rest']) (simp add: stays_def end_log_process_def)
qed

section \<open>The end of the log process\<close>

fun log_rank :: "'db system \<Rightarrow> nat" where
  "log_rank y = (case sy_at y of Reading \<Rightarrow> length (lp_fifo (sy_log y)) + 3 | Looping \<Rightarrow> 2 | Closing \<Rightarrow> 1 | _ \<Rightarrow> 0)"

text \<open>After \<open>main\<close> has ended and the signal has arrived, only the log process does steps.\<close>

definition winding_down :: "('db, 'c) params \<Rightarrow> 'db system \<Rightarrow> bool" where
  "winding_down p y \<longleftrightarrow> gw_inv p (sy_main y) \<and> g_main (sy_main y) = Exited \<and> sys_inv y \<and> \<not> run_logprocess y"

lemma exited_no_step: "gw_inv p g \<Longrightarrow> g_main g = Exited \<Longrightarrow> \<not> step p g g'"
proof
  assume "gw_inv p g" and at: "g_main g = Exited" and st: "step p g g'"
  then have "\<not> connmgr_running g" "dm_at g = Finished" "st_at g = Finished"
    by (auto dest!: gw_inv_phases simp: phases_ok_def stopping_def)
  with st at show False by (auto elim!: gw_stepE simp: main_step_def)
qed

lemma winding_down_log:
  assumes "winding_down p y" "sys_step p sticky c io y y'"
  shows "log_step sticky c io y = Inr (Some y')"
  using assms(2) by (cases rule: sys_stepE) (use assms(1) exited_no_step in \<open>auto simp: winding_down_def\<close>)

definition read_to_end :: "bool \<Rightarrow> 'db system \<Rightarrow> bool" where
  "read_to_end sticky y \<longleftrightarrow> (if sy_at y = Reading then \<not> (sticky \<and> lp_eof (sy_log y)) else lp_fifo (sy_log y) = [])"

lemma winding_down_step:
  assumes "winding_down p y" "sys_step p sticky c io y y'"
  shows "winding_down p y' \<and> log_rank y' < log_rank y \<and> sy_main y' = sy_main y
    \<and> (read_to_end sticky y \<longrightarrow> read_to_end sticky y')"
proof -
  note l = winding_down_log[OF assms]
  have inv: "sys_inv y" "sys_inv y'" "\<not> run_logprocess y"
    using assms(1) sys_inv_step[OF _ assms(2)] by (auto simp: winding_down_def)
  have 1: "winding_down p y'" "sy_main y' = sy_main y" using log_step_frame[OF l] inv(2) assms(1) by (simp_all add: winding_down_def)
  have "log_rank y' < log_rank y \<and> (read_to_end sticky y \<longrightarrow> read_to_end sticky y')"
  proof (cases "sy_at y")
    case Reading
    then obtain got q where q: "log_read sticky io (sy_log y) = Inr (got, q)"
        "y' = y\<lparr>sy_log := q, sy_at := (if got then Reading else Looping)\<rparr>"
      using l by (auto simp: log_step_def bindR_Inr_iff)
    from q(1) show ?thesis
    proof (cases rule: log_read_cases)
      case eof
      then show ?thesis using Reading q(2) by (auto simp: read_to_end_def)
    next
      case (msg s r)
      then show ?thesis using Reading q(2) by (auto simp: read_to_end_def)
    qed
  next
    case Looping
    then show ?thesis using l inv by (auto simp: log_step_def read_to_end_def)
  next
    case Closing
    then show ?thesis using l by (auto simp: log_step_def read_to_end_def bindR_Inr_iff)
  next
    case Opening
    then show ?thesis using inv by (simp add: sys_inv_def)
  next
    case Log_Exited
    then show ?thesis using l by (simp add: log_step_def)
  qed
  then show ?thesis using 1 by blast
qed

definition overflows :: "bool \<Rightarrow> logproc_calls \<Rightarrow> (int \<Rightarrow> nat option) \<Rightarrow> 'db system \<Rightarrow> bool" where
  "overflows sticky c io y \<longleftrightarrow> log_step sticky c io y = Inl Int_Overflow \<and> INT_MAX \<le> sequence_number (sy_log y)"

lemma winding_down_progress:
  assumes "winding_down p y" "calls_succeed c" "\<forall>n. io n \<noteq> None"
  shows "sy_at y = Log_Exited \<or> (\<exists>y'. sys_step p sticky c io y y') \<or> overflows sticky c io y"
proof -
  have "sy_at y \<noteq> Opening" using assms(1) by (auto simp: winding_down_def sys_inv_def)
  then have "sy_at y = Log_Exited \<or> (\<exists>y'. log_step sticky c io y = Inr (Some y')) \<or> overflows sticky c io y"
  proof (cases "sy_at y")
    case Reading
    from assms(3) show ?thesis
    proof (cases rule: log_read_outcome[where sticky = sticky and p = "sy_log y"])
      case (returns got q)
      then show ?thesis using Reading by (simp add: log_step_def)
    next
      case overflow
      then show ?thesis using Reading by (simp add: log_step_def overflows_def)
    qed
  qed (use assms(2) in \<open>auto simp: log_step_def calls_succeed_def check_exit_def\<close>)
  then show ?thesis by (blast intro: sys_step.log_process)
qed

lemma winding_down_steps:
  assumes "winding_down p y" "(sys_step p sticky c io ^^ n) y y'"
  shows "winding_down p y' \<and> n + log_rank y' \<le> log_rank y \<and> sy_main y' = sy_main y
    \<and> (read_to_end sticky y \<longrightarrow> read_to_end sticky y')"
  using assms(2)
proof (induction n arbitrary: y')
  case 0
  then show ?case using assms(1) by simp
next
  case (Suc n)
  then obtain y1 where y1: "(sys_step p sticky c io ^^ n) y y1" "sys_step p sticky c io y1 y'" by auto
  show ?case using Suc.IH[OF y1(1)] winding_down_step[OF _ y1(2)] by fastforce
qed

section \<open>Rounds as steps\<close>

text \<open>
  What \<open>log_drain\<close> of theory \<open>Logfifo\<close> computes at once is a run of single reads, while the threads stand still.
\<close>

lemma drain_run:
  "log_drain sticky io (sy_log y) = Inr q \<Longrightarrow> sy_at y = Reading
   \<Longrightarrow> (sys_step p sticky c io)\<^sup>*\<^sup>* y (y\<lparr>sy_log := q, sy_at := Looping\<rparr>)"
proof (induction "length (lp_fifo (sy_log y))" arbitrary: y rule: less_induct)
  case less
  obtain got r where r: "log_read sticky io (sy_log y) = Inr (got, r)"
      "(if got then log_drain sticky io r else Inr r) = Inr q"
    using less.prems(1) by (auto simp: log_drain.simps[of sticky io "sy_log y"] split: sum.splits)
  let ?y = "y\<lparr>sy_log := r, sy_at := (if got then Reading else Looping)\<rparr>"
  have s: "sys_step p sticky c io y ?y" using r less.prems(2) by (intro sys_step.log_process) (simp add: log_step_def)
  from r(1) show ?case
  proof (cases rule: log_read_cases)
    case eof
    then show ?thesis using s r(2) by auto
  next
    case (msg x rest)
    then have "(sys_step p sticky c io)\<^sup>*\<^sup>* ?y (?y\<lparr>sy_log := q, sy_at := Looping\<rparr>)"
      using r(2) by (intro less.hyps) simp_all
    then show ?thesis using converse_rtranclp_into_rtranclp[of "sys_step p sticky c io", OF s] by simp
  qed
qed

lemma pieces_length: "length (pieces s) \<le> length s"
  using length_concat_ge[of "pieces s"] pieces_bounds[of _ s] by (simp add: concat_pieces)

section \<open>A concrete system\<close>

text \<open>
  The storage manager connects and says so, the connection manager returns after a silent first round, and the log process opens the FIFO and
  the log file.
\<close>

lemma demo_connects:
  "\<exists>s. storagemgr_steps D S self demo_sqlite () (Some 0) run Starting demo_st B = Inr (Polling, s, B)
    \<and> fifo (st_world s) \<noteq> [] \<and> length (fifo (st_world s)) \<le> 300"
proof -
  have len: "length (pr_ld t) \<le> 20" for t by (rule pr_ld_length)
  obtain s where s: "init_connection demo_sqlite () 1 demo_st = Inr (True, s)" "fifo (st_world s) \<noteq> []" "length (fifo (st_world s)) \<le> 300"
    using len[of "clock demo_world 0"] len[of "clock demo_world 1"]
    by (simp add: init_connection_def demo_sqlite_def demo_st_def demo_world_def st_log_def log_event_def time_now_def heap_alloc_def
        write_to_fifo_def check_exit_def run_sql_def free_sql_def drop_sql_def create_sql_def msg_sql_connected_def
        msg_new_table_def TABLE_NAME_def Let_def)
  then have "storagemgr_connect demo_sqlite () demo_st = Inr (True, s)"
    by (simp add: storagemgr_connect_def eval_nat_numeral)
  then show ?thesis using s(2,3)
    by (simp add: storagemgr_steps_def reader_step_def storagemgr_begin_def check_exit_def)
qed

lemma demo_run:
  obtains y where "(sys_step demo_params sticky all_succeed io)\<^sup>*\<^sup>* (sys_start demo_start) y" "sy_at y = Reading"
    "g_main (sy_main y) = Joining_Connmgr" "\<not> connmgr_running (sy_main y)" "g_accepted (sy_main y) = []"
    "connected (st_at (sy_main y))" "sequence_number (sy_log y) = 0" "length (lp_fifo (sy_log y)) \<le> 300"
proof -
  let ?g1 = "demo_start\<lparr>run_datamgr := True, run_storagemgr := True, g_main := Creating_Datamgr\<rparr>"
  let ?g2 = "?g1\<lparr>dm_at := Starting, g_main := Storing_Datamgr\<rparr>"
  let ?g3 = "?g2\<lparr>datamgr_td := 1, g_main := Creating_Storagemgr\<rparr>"
  let ?g4 = "?g3\<lparr>st_at := Starting, g_main := Storing_Storagemgr\<rparr>"
  let ?g5 = "?g4\<lparr>storagemgr_td := 2, g_main := Joining_Connmgr\<rparr>"
  obtain s where s: "storagemgr_steps 1 2 2 demo_sqlite () (Some 0) True Starting demo_st demo_empty = Inr (Polling, s, demo_empty)"
      "fifo (st_world s) \<noteq> []" "length (fifo (st_world s)) \<le> 300" using demo_connects by blast
  let ?g6 = "?g5\<lparr>st_at := Polling, st_part := s, g_world := st_world s, g_buf := demo_empty, st_taken := []\<rparr>"
  let ?g7 = "?g6\<lparr>connmgr_running := False\<rparr>"
  have "(step demo_params)\<^sup>*\<^sup>* demo_start ?g5"
    by (intro main_run[of demo_params demo_start ?g1] main_run[of demo_params ?g1 ?g2] main_run[of demo_params ?g2 ?g3]
        main_run[of demo_params ?g3 ?g4] main_run[of demo_params ?g4 ?g5])
      (simp_all add: main_step_def check_exit_def demo_calls_def demo_params_def demo_start_def)
  moreover have "step demo_params ?g5 ?g6"
    using gw_step.storagemgr[of ?g5, where Q = demo_sqlite and c = "()" and ph = Polling and s = s and B = demo_empty and S = 2 and b = 0] s(1)
    by (simp add: demo_params_def demo_start_def demo_st_def given_def)
  moreover have "step demo_params ?g6 ?g7" by (rule connmgr_return_step) (simp add: demo_start_def)
  ultimately have "(step demo_params)\<^sup>*\<^sup>* (sy_main (sys_start demo_start)) ?g7" by simp
  from lift_run[OF this] obtain y where y: "(sys_step demo_params sticky all_succeed io)\<^sup>*\<^sup>* (sys_start demo_start) y" "sy_main y = ?g7"
      "stays (sys_start demo_start) y" by blast
  have fw: "fifo demo_world = []" by (simp add: demo_world_def)
  obtain ms ss where l: "logged ms ss y" using sys_reach(2)[OF demo_starts y(1) fw] by blast
  have "log_out (sy_log y) = []" using y(3) by (simp add: stays_def)
  then have "ss = []" using l by (cases ss) (simp_all add: logged_def)
  then have f: "lp_fifo (sy_log y) \<noteq> []" "sequence_number (sy_log y) = 0" "length (lp_fifo (sy_log y)) \<le> 300"
    using l s(2,3) y(2) by (simp_all add: logged_def)
  then have "sys_step demo_params sticky all_succeed io y (y\<lparr>sy_at := Reading\<rparr>)"
    using y(3) by (intro sys_step.log_process) (simp add: log_step_def stays_def all_succeed_def check_exit_def)
  then have "(sys_step demo_params sticky all_succeed io)\<^sup>*\<^sup>* (sys_start demo_start) (y\<lparr>sy_at := Reading\<rparr>)" using y(1) by simp
  then show thesis using y(2) f by (intro that[of "y\<lparr>sy_at := Reading\<rparr>"]) (simp_all add: demo_start_def connected_def)
qed

section \<open>Properties\<close>

text \<open>
  C8: The log file. In every interleaving of the threads and the log process, whatever the C library does at
  an end of file and whenever it writes out the buffer of the log file's stream, the FIFO has received whole
  events \<open>ms\<close>, one after the other, and the log process has cut a first part of their bytes into pieces \<open>ss\<close> of
  fewer than \<open>MAX\<close> bytes; the other bytes are still in the FIFO. What the log file holds, followed by
  what still waits in the stream's buffer, is exactly these pieces, numbered from 1 in order, and when the log process has
  ended the file holds them all. The numbers stay within \<open>INT_MAX\<close>, for the next entry would overflow the counter, a fault after
  which this model has no step of the log process. When every event fits the buffer of \<open>fgets\<close>, as all but alarms about absurd
  temperatures do, the pieces are the first events.
\<close>

theorem system_log:
  assumes "starts p cap w g0" "fifo w = []" "(sys_step p sticky c io)\<^sup>*\<^sup>* (sys_start g0) y"
  shows "\<exists>ms ss. fifo (g_world (sy_main y)) = concat ms \<and> (\<forall>m \<in> set ms. is_event m)
    \<and> concat ms = concat ss @ lp_fifo (sy_log y)
    \<and> gateway_log (sy_log y) @ log_buf (sy_log y) = numbered 1 ss \<and> (sy_at y = Log_Exited \<longrightarrow> log_buf (sy_log y) = [])
    \<and> sequence_number (sy_log y) = int (length ss) \<and> int (length ss) \<le> INT_MAX
    \<and> (\<forall>s \<in> set ss. s \<noteq> [] \<and> length s < MAX_BUF \<and> nl \<notin> set (butlast s))
    \<and> ((\<forall>m \<in> set ms. length m < MAX_BUF) \<longrightarrow> (\<exists>rest. ms = ss @ rest))"
  using sys_reach(1,2)[OF assms(1,3)] assms(2) unfolding logged_def sys_inv_def log_out_def by metis

theorem system_log_witness:
  "\<exists>y ms ss. (sys_step demo_params False all_succeed (\<lambda>_. Some 0))\<^sup>*\<^sup>* (sys_start demo_start) y
    \<and> fifo (g_world (sy_main y)) = concat ms \<and> concat ms = concat ss @ lp_fifo (sy_log y) \<and> sy_at y = Reading
    \<and> gateway_log (sy_log y) @ log_buf (sy_log y) = numbered 1 ss"
proof -
  obtain y where y: "(sys_step demo_params False all_succeed (\<lambda>_. Some 0))\<^sup>*\<^sup>* (sys_start demo_start) y" "sy_at y = Reading"
    by (rule demo_run)
  moreover have "fifo demo_world = []" by (simp add: demo_world_def)
  ultimately show ?thesis using system_log[OF demo_starts _ y(1)] by metis
qed

text \<open>
  C10: Events are lost at the end. When the log process has found the FIFO empty and is about to look at its run
  flag, the connection manager has returned, \<open>main\<close> waits for it and the storage manager is still connected, then the
  system can end normally, both processes with it, so that the storage manager has written to the FIFO that the
  connection is lost, and the log file ends without it or any other event from there on: the log process leaves its loop
  without reading again. All that is scheduled here are the readers, \<open>main\<close>, the signal and the log process.
\<close>

theorem system_log_tail_lost:
  assumes "starts p cap w g0" "(sys_step p sticky c io)\<^sup>*\<^sup>* (sys_start g0) y"
    and "length (g_accepted (sy_main y)) \<le> nat INT_MAX" "calls_succeed c"
    and "g_main (sy_main y) = Joining_Connmgr" "\<not> connmgr_running (sy_main y)"
    and "st_at (sy_main y) \<noteq> Starting" "st_at (sy_main y) \<noteq> Finished" "sy_at y = Looping"
  shows "\<exists>y' rest t rest'. (sys_step p sticky c io)\<^sup>*\<^sup>* y y' \<and> g_main (sy_main y') = Exited \<and> sy_at y' = Log_Exited
    \<and> gateway_log (sy_log y') = gateway_log (sy_log y) @ log_buf (sy_log y) \<and> log_buf (sy_log y') = []
    \<and> fifo (g_world (sy_main y')) = fifo (g_world (sy_main y)) @ rest @ msg_sql_lost t @ rest'"
proof -
  note inv = sys_reach(3)[OF assms(1,2,3)] and sinv = sys_reach(1)[OF assms(1,2)]
  have "connected (st_at (sy_main y))" using gw_inv_phases[OF inv] assms(5,7,8) by (simp add: phases_ok_def connected_def)
  with assms(9) obtain y1 rest t rest' where y1: "(sys_step p sticky c io)\<^sup>*\<^sup>* y y1" "g_main (sy_main y1) = Exited" "\<not> run_logprocess y1"
    "sy_at y1 = Looping" "log_out (sy_log y1) = log_out (sy_log y)"
    "fifo (g_world (sy_main y1)) = fifo (g_world (sy_main y)) @ rest @ msg_sql_lost t @ rest'"
    using system_runs_out[OF inv sinv assms(6,5,3), where sticky = sticky and c = c and io = io] by (auto simp: stays_def)
  let ?y2 = "y1\<lparr>sy_at := Closing\<rparr>" and ?y3 = "y1\<lparr>sy_log := log_fclose (sy_log y1), sy_at := Log_Exited\<rparr>"
  have "sys_step p sticky c io y1 ?y2" using y1(3,4) by (intro sys_step.log_process) (simp add: log_step_def)
  moreover have "sys_step p sticky c io ?y2 ?y3"
    using assms(4) by (intro sys_step.log_process) (simp add: log_step_def calls_succeed_def check_exit_def)
  ultimately have "(sys_step p sticky c io)\<^sup>*\<^sup>* y ?y3" using y1(1) by simp
  then show ?thesis using y1(2,5,6)
    by (intro exI[of _ ?y3] exI[of _ rest] exI[of _ t] exI[of _ rest']) (simp add: log_out_def[of "sy_log y"])
qed

theorem system_log_tail_lost_witness:
  "\<exists>y y' rest t rest'. (sys_step demo_params False all_succeed (\<lambda>_. Some 0))\<^sup>*\<^sup>* (sys_start demo_start) y \<and> sy_at y = Looping
    \<and> (sys_step demo_params False all_succeed (\<lambda>_. Some 0))\<^sup>*\<^sup>* y y' \<and> sy_at y' = Log_Exited
    \<and> gateway_log (sy_log y') = gateway_log (sy_log y) @ log_buf (sy_log y)
    \<and> fifo (g_world (sy_main y')) = fifo (g_world (sy_main y)) @ rest @ msg_sql_lost t @ rest'"
proof -
  let ?r = "(sys_step demo_params False all_succeed (\<lambda>_. Some 0))\<^sup>*\<^sup>*"
  obtain y where y: "?r (sys_start demo_start) y" "sy_at y = Reading" "g_main (sy_main y) = Joining_Connmgr"
    "\<not> connmgr_running (sy_main y)" "g_accepted (sy_main y) = []" "connected (st_at (sy_main y))" "sequence_number (sy_log y) = 0" "length (lp_fifo (sy_log y)) \<le> 300" by (rule demo_run)
  have "length (pieces (lp_fifo (sy_log y))) \<le> 300" using pieces_length[of "lp_fifo (sy_log y)"] y(8) by simp
  then obtain q where "log_drain False (\<lambda>_. Some 0) (sy_log y) = Inr q"
    using log_drain_pieces[of "\<lambda>_. Some 0" False "sy_log y"] y(7) by (auto simp: INT_MAX_def)
  from rtranclp_trans[OF y(1) drain_run[OF this y(2)]]
  obtain y1 where y1: "?r (sys_start demo_start) y1" "sy_at y1 = Looping" "sy_main y1 = sy_main y" by fastforce
  have c: "st_at (sy_main y1) \<noteq> Starting" "st_at (sy_main y1) \<noteq> Finished" using y(6) y1(3) by (auto simp: connected_def)
  have len: "length (g_accepted (sy_main y1)) \<le> nat INT_MAX" using y(5) y1(3) by simp
  have at: "g_main (sy_main y1) = Joining_Connmgr" "\<not> connmgr_running (sy_main y1)" using y(3,4) y1(3) by simp_all
  show ?thesis using system_log_tail_lost[OF demo_starts y1(1) len calls_succeed_all at c y1(2)] y1(1,2) by blast
qed
text \<open>
  C9: The log process ends. Once \<open>main\<close> has ended and SIGTERM has arrived, every schedule has at most three more steps
  than there are bytes in the FIFO, the system is never stuck before the log process has ended, unless the \<open>int\<close> that counts
  the entries is at its largest value, and if the log process was
  still reading, with a C library that has not reported an end of file for good, it has then emptied the FIFO.
\<close>

theorem system_shutdown:
  assumes "starts p cap w g0" "(sys_step p sticky c io)\<^sup>*\<^sup>* (sys_start g0) y"
    and "length (g_accepted (sy_main y)) \<le> nat INT_MAX" "calls_succeed c" "\<forall>n. io n \<noteq> None"
    and "g_main (sy_main y) = Exited" "\<not> run_logprocess y" "(sys_step p sticky c io ^^ n) y y'"
  shows "n \<le> length (lp_fifo (sy_log y)) + 3 \<and> sy_main y' = sy_main y
    \<and> (sy_at y' = Log_Exited \<or> (\<exists>y''. sys_step p sticky c io y' y'')
        \<or> log_step sticky c io y' = Inl Int_Overflow \<and> INT_MAX \<le> sequence_number (sy_log y'))
    \<and> (sy_at y = Reading \<and> \<not> (sticky \<and> lp_eof (sy_log y)) \<and> sy_at y' = Log_Exited \<longrightarrow> lp_fifo (sy_log y') = [])"
proof -
  have "winding_down p y" using sys_reach(1,3)[OF assms(1,2)] assms(3,6,7) by (simp add: winding_down_def)
  note s = winding_down_steps[OF this assms(8)]
  have "log_rank y \<le> length (lp_fifo (sy_log y)) + 3" by (simp split: logproc_at.splits)
  then show ?thesis using s winding_down_progress[of p y', OF _ assms(4,5)] by (auto simp: read_to_end_def overflows_def)
qed

theorem system_shutdown_witness:
  "\<exists>y. (sys_step demo_params False all_succeed (\<lambda>_. Some 0))\<^sup>*\<^sup>* (sys_start demo_start) y \<and> sy_at y = Reading
    \<and> g_main (sy_main y) = Exited
    \<and> (\<forall>n y'. (sys_step demo_params False all_succeed (\<lambda>_. Some 0) ^^ n) y y' \<and> sy_at y' = Log_Exited
         \<longrightarrow> n \<le> length (lp_fifo (sy_log y)) + 3 \<and> lp_fifo (sy_log y') = [])"
proof -
  let ?s = "sys_step demo_params False all_succeed (\<lambda>_. Some 0)"
  obtain y where y: "?s\<^sup>*\<^sup>* (sys_start demo_start) y" "sy_at y = Reading" "g_main (sy_main y) = Joining_Connmgr"
    "\<not> connmgr_running (sy_main y)" "g_accepted (sy_main y) = []" "connected (st_at (sy_main y))" by (rule demo_run)
  have len: "length (g_accepted (sy_main y)) \<le> nat INT_MAX" by (simp add: y(5))
  obtain y1 where y1: "?s\<^sup>*\<^sup>* y y1" "g_main (sy_main y1) = Exited" "\<not> run_logprocess y1" "sy_at y1 = Reading"
    "length (g_accepted (sy_main y1)) \<le> nat INT_MAX"
    using system_runs_out[OF sys_reach(3)[OF demo_starts y(1) len] sys_reach(1)[OF demo_starts y(1)] y(4,3) len y(6),
        where sticky = False and c = all_succeed and io = "\<lambda>_. Some 0"] y(2) by (auto simp: stays_def)
  note run = rtranclp_trans[OF y(1) y1(1)]
  show ?thesis using system_shutdown[OF demo_starts run y1(5) calls_succeed_all _ y1(2,3)] run y1(2,4)
    by (intro exI[of _ y1]) auto
qed

end
