(* ===== verification/Spec2Isabelle.thy ===== *)
theory Spec2Isabelle
  imports Sbuffer_Props Dplist_Props Log_Props Datamgr_Props Storage_Props
    Tcpsock_Props Connmgr_Props Gateway_Props Gateway_Connmgr Gateway_Log
    Gateway_System_Props
begin

text \<open>
  The sensor gateway: a C program whose threads take temperature measurements from TCP clients, watch
  their running averages, store them in an SQLite database, and log events through a FIFO to a separate
  log process. This development models the program function by function and proves its components.

  The program's parts and their theories. In the order of the dependencies:

  \<^item> \<open>Prelude\<close>: the ways in which a C function can end (\<open>fault\<close>, \<open>'a res\<close>, \<open>bindR\<close>), pointers, chains.
  \<^item> \<open>Memory\<close>: a store for the objects of one C type, with \<open>malloc\<close>, \<open>free\<close>, reading and writing; an
    access through \<open>NULL\<close> or to memory that is not allocated is a fault. \<open>fuel\<close> is one more than the
    number of addresses: a walk along pointers that takes as many steps has met a node twice and never
    ends, so running out of it is the fault \<open>Diverges\<close>. The theorems show that it is never reached.
  \<^item> \<open>Double\<close>, \<open>Config\<close>: IEEE doubles with exact rounding, and the packet and types of \<open>config.h\<close>.
  \<^item> \<open>Stdio\<close>: what is used of \<open>printf\<close>, \<open>sscanf\<close>, \<open>getline\<close>, \<open>fgets\<close> and \<open>fread\<close>.
  \<^item> \<open>Sbuffer\<close> (\<open>sbuffer.c\<close>): the buffer that the threads share, a linked list in which every node has a
    "read" flag for each of the two readers. \<open>Broadcast\<close> is the abstract queue with two readers and its
    interface \<open>broadcast_queue\<close>; \<open>Sbuffer_Proofs\<close> interprets it on the functions of \<open>sbuffer.c\<close>;
    \<open>Sbuffer_Props\<close> states the properties: each reader gets every accepted measurement once and in
    order under every interleaving, and nodes are freed exactly when both have read them.
  \<^item> \<open>Dplist\<close> (\<open>lib/dplist.c\<close>): the doubly linked list of element pointers with client callbacks.
    \<open>Dplist_Rep\<close> and \<open>Dplist_Ops\<close> relate the memory to a list and give every function its effect;
    \<open>Bubble\<close> treats the sorting on plain lists, with the interface \<open>element_order\<close> for the comparison
    callback; \<open>Dplist_List\<close> has the interface \<open>indexed_list\<close>; \<open>Dplist_Props\<close> the properties.
  \<^item> \<open>Logfifo\<close> (\<open>write_to_fifo\<close>, \<open>fifo_to_log\<close> of \<open>main.c\<close>): writing log events to the FIFO, and the log
    process that numbers them. \<open>Log_Props\<close> has the properties. The record \<open>world\<close> holds what the
    operating system answers, as streams.
  \<^item> \<open>Datamgr\<close> (\<open>datamgr.c\<close>): the sensors with their ring of the last five measurements, the room map,
    the alarms. \<open>Datamgr_Rep\<close>, \<open>Datamgr_Ops\<close> and \<open>Datamgr_Start\<close> show that the operations on the memory
    refine an abstract machine on histories (\<open>spec_step\<close>), \<open>Datamgr_Avg\<close> what the floating point average
    is worth, \<open>Datamgr_Props\<close> the properties.
  \<^item> \<open>Sensor_db\<close> (\<open>sensor_db.c\<close> and the storage thread of \<open>main.c\<close>): SQLite's functions are a
    parameter, the record \<open>sqlite\<close>; nothing is assumed of them.
  \<^item> \<open>Readers\<close>: the data manager and the storage manager run the same loop over the shared buffer. The
    interface \<open>measurement_reader\<close> states what one step of such a thread promises, its lemmas what the
    loop does while other threads append; it is interpreted on both threads. \<open>Storage_Props\<close> has the
    properties of the storage manager.

  \<^item> \<open>Tcpsock\<close> (\<open>lib/tcpsock.c\<close>): the socket structures with their magic cookie. The system calls and
    \<open>inet_aton\<close> are a parameter, the record \<open>sockapi\<close>, with the network as a state of their own; nothing is
    assumed of their answers. \<open>Owned_List\<close> has the lemmas on structures that own other memory, \<open>Tcpsock_Rep\<close>
    the interface \<open>socket_table\<close> and its interpretation, \<open>Tcpsock_Props\<close> the properties.
  \<^item> \<open>Connmgr\<close> (\<open>connmgr.c\<close>): the loop around \<open>select\<close>, one definition for each block of it. \<open>Connmgr_Spec\<close> is the
    abstract connection manager on a plain list of clients; \<open>Connmgr_Rep\<close> shows that \<open>connmgr.c\<close> refines it, for
    the pointer list and the socket structures together; \<open>Connmgr_Safe\<close> shows that the abstract one
    can only end by a return, an \<open>exit\<close> or the overflow of a subtraction of times; \<open>Connmgr_Props\<close> has the
    properties of a round and of one client.
  \<^item> \<open>Gateway\<close> (\<open>main.c\<close>): \<open>main\<close> and the threads as the step relation \<open>gw_step\<close> on one state. \<open>Gateway_Inv\<close> has the
    interface \<open>reader_thread\<close> for the steps of a reading thread, interpreted on the data manager's and the
    storage manager's, and the invariant of the process; \<open>Gateway_Props\<close> what holds in every
    interleaving and how the process ends; \<open>Gateway_Connmgr\<close> shows that the runs of \<open>connmgr.c\<close>, when no other thread
    interferes, are runs of the connection manager's steps \<open>cm_step\<close>; \<open>Gateway_Log\<close> that the threads write whole events to the FIFO.
  \<^item> \<open>Gateway_System\<close> (\<open>fork\<close>, \<open>kill\<close>, \<open>end_log_process\<close> and \<open>fifo_to_log\<close> of \<open>main.c\<close>): both processes as the step
    relation \<open>sys_step\<close>; the log process does one read of the FIFO or one test of its run flag at a time, and
    SIGTERM arrives some time after it was sent. \<open>Gateway_System_Props\<close> shows what the log file contains in every
    interleaving, which events it can miss, and that the log process ends; a round of \<open>fifo_to_log\<close> is a run of
    these steps (\<open>drain_run\<close>).

  How the model corresponds to the code. A function with a C name is that function; its parameters are
  the C parameters with the memory added, its result is the returned value (and what pointer parameters
  point to afterwards) with the memory. Early returns, failed assertions and \<open>exit\<close> are branches. Loops
  are functions of their own (\<open>..._loop\<close>). Blocks of a long function are definitions named after what
  they do (\<open>link_node\<close>, \<open>record_measurement\<close>); the two critical sections of a loop body are separate
  steps, since other threads may run in between.

  Threads. In \<open>Readers\<close> and \<open>Connmgr\<close> one thread runs, and what others do to the shared buffer between its
  critical sections is a parameter. In \<open>Gateway\<close> all run: a step is a stretch of a thread in which it enters
  a critical section of the buffer at most once. The loop over \<open>select\<close> has no bound, so \<open>connmgr_loop\<close> has the
  number of rounds as its argument and its properties hold for every number; the result tells
  whether the loop has ended. The readers' loops end after the run flag is cleared, which
  \<open>gateway_shutdown\<close> bounds by 15 steps of the whole process; \<open>system_shutdown\<close> bounds the steps of the log process
  after SIGTERM by the bytes in the FIFO.

  The connection manager of \<open>gw_step\<close> is more liberal than \<open>connmgr.c\<close>: while it runs it may insert, log, allocate, read
  the clock and return in any order. So what holds in every run of \<open>gw_step\<close> or \<open>sys_step\<close> covers the program's runs. Two
  properties say that a run exists: \<open>system_log_tail_lost\<close>, which starts when the connection manager has
  returned, so that all its steps are the exact functions of the other threads and processes, and
  \<open>gateway_can_lose_all\<close>, in which the connection manager inserts any list of measurements and returns. \<open>connmgr_in_gateway\<close> goes
  from \<open>connmgr.c\<close> to \<open>cm_step\<close> for a thread that nobody interferes with; the transfer to interleaved runs is
  not proved.

  \<open>pthread_create\<close> stores the id of a thread in a step of its own (\<open>Storing_Datamgr\<close>, \<open>Storing_Storagemgr\<close>), so a reader can come to
  \<open>sbuffer_remove\<close> before its id is there. \<open>gateway_no_fault\<close> states exactly when the process ends with \<open>exit\<close> then. An error
  or \<open>exit\<close> is not a step of \<open>gw_step\<close> or \<open>sys_step\<close>: the run ends there.

  The log file is written through the buffer of its stream (\<open>log_buf\<close>); when the C library writes it out is a
  parameter (\<open>io\<close>), and \<open>fclose\<close> writes out the rest.

  Bounds. Integers that only count allocated objects are unbounded, as they stay below the number of
  addresses; the counter \<open>nr_of_meass\<close> is a C \<open>int\<close> and overflow at \<open>INT_MAX\<close> is a fault, excluded by the
  hypotheses. The log process's \<open>sequence_number\<close> is a C \<open>int\<close> too: its overflow is a fault, and the properties of the log
  are about at most \<open>INT_MAX\<close> entries. The exact value of the running average (\<open>datamgr_average\<close>, \<open>datamgr_no_false_alarm\<close>) is
  stated for whole degrees of at most \<open>2^48\<close> in absolute value, whose sum is exact in double precision. Sensor ids are 16 bit words, times 64 bit words; ports and descriptors are \<open>int\<close>, a port
  is cut to 16 bits where \<open>htons\<close> does it.

  Not modelled: the mutexes as objects (a step of the model is a critical section), debug output,
  \<open>sleep\<close>, the failure of an allocation inside SQLite, and a SIGTERM that interrupts the \<open>fopen\<close> of the FIFO (the
  log process is through it when the first event is written). The answers of the calls of \<open>main\<close> are a parameter; the theorems on the
  whole process are about runs in which they succeed, since \<open>main\<close> exits otherwise.
\<close>

end
